(* ===== verification/OS_Prelude.thy ===== *)
theory OS_Prelude
  imports Main "HOL-Library.Word"
begin

text \<open>
  Shared vocabulary of the OS/161 development: machine words, the outcome type of kernel code
  (a value, or the way the kernel stopped), the error numbers of \<^verbatim>\<open>kern/include/kern/errno.h\<close>,
  the constants of the machine headers (which are not part of the repository and therefore form a
  parameter record), and the generic word and list lemmas the components share.
\<close>

unbundle bit_operations_syntax

named_theorems kdefs \<open>definitions unfolded by component proofs\<close>
named_theorems kinv \<open>invariant-preservation facts\<close>

section \<open>C types\<close>

type_synonym u32 = "32 word"   \<comment> \<open>\<open>u_int32_t\<close>, \<open>unsigned long\<close>, \<open>vaddr_t\<close>, \<open>paddr_t\<close>, \<open>size_t\<close> on this MIPS\<close>
type_synonym s32 = "32 word"   \<comment> \<open>\<open>int\<close>: read with \<open>sint\<close>\<close>
type_synonym byte = "8 word"   \<comment> \<open>\<open>char\<close>\<close>
type_synonym ptr = "32 word"   \<comment> \<open>a kernel pointer\<close>

abbreviation (input) NULL :: ptr where "NULL \<equiv> 0"

section \<open>How kernel code ends\<close>

text \<open>
  \<open>panic\<close> and a failed \<open>assert\<close> never return (\<^verbatim>\<open>lib.h\<close>); a dereference of a pointer that refers to
  no object is undefined behaviour of C and stops the model too. \<open>OutOfFuel\<close> is only produced by
  loops over structures of the kernel library whose length the code cannot see.
\<close>

datatype stop = AssertFail string | Panic string | BadDeref string | OutOfFuel

type_synonym 'a run = "stop + 'a"

definition bnd :: "'e + 'a \<Rightarrow> ('a \<Rightarrow> 'e + 'b) \<Rightarrow> 'e + 'b" where
  "bnd m f = (case m of Inl e \<Rightarrow> Inl e | Inr x \<Rightarrow> f x)"

definition kassert :: "bool \<Rightarrow> string \<Rightarrow> 'a run \<Rightarrow> 'a run" where
  "kassert b msg k = (if b then k else Inl (AssertFail msg))"

text \<open>Reading a C object through a pointer.\<close>

definition deref :: "('k \<rightharpoonup> 'v) \<Rightarrow> 'k \<Rightarrow> string \<Rightarrow> ('v \<Rightarrow> 'a run) \<Rightarrow> 'a run" where
  "deref m p what k = (case m p of None \<Rightarrow> Inl (BadDeref what) | Some v \<Rightarrow> k v)"

text \<open>The same for the static pointers that are \<open>NULL\<close> before start-up or after shutdown.\<close>

definition deref_opt :: "'v option \<Rightarrow> string \<Rightarrow> ('v \<Rightarrow> 'a run) \<Rightarrow> 'a run" where
  "deref_opt p what k = (case p of None \<Rightarrow> Inl (BadDeref what) | Some v \<Rightarrow> k v)"

lemma bnd_simps [simp]: "bnd (Inl e) f = Inl e" "bnd (Inr x) f = f x"
  by (simp_all add: bnd_def)

lemma bnd_eq_Inr: "bnd m f = Inr y \<longleftrightarrow> (\<exists>x. m = Inr x \<and> f x = Inr y)"
  by (cases m) auto

lemma bnd_assoc: "bnd (bnd m f) g = bnd m (\<lambda>x. bnd (f x) g)"
  by (cases m) auto

lemma bnd_split: "P (bnd m f) \<longleftrightarrow> (\<forall>e. m = Inl e \<longrightarrow> P (Inl e)) \<and> (\<forall>x. m = Inr x \<longrightarrow> P (f x))"
  by (cases m) auto

lemma kassert_True [simp]: "kassert True msg k = k"
  by (simp add: kassert_def)

lemma kassert_eq_Inr: "kassert b msg k = Inr y \<longleftrightarrow> b \<and> k = Inr y"
  by (simp add: kassert_def)

lemma deref_Some [simp]: "m p = Some v \<Longrightarrow> deref m p what k = k v"
  by (simp add: deref_def)

lemma deref_eq_Inr: "deref m p what k = Inr y \<longleftrightarrow> (\<exists>v. m p = Some v \<and> k v = Inr y)"
  by (simp add: deref_def split: option.splits)

lemma deref_opt_Some [simp]: "deref_opt (Some v) what k = k v"
  by (simp add: deref_opt_def)

lemma deref_opt_eq_Inr: "deref_opt p what k = Inr y \<longleftrightarrow> (\<exists>v. p = Some v \<and> k v = Inr y)"
  by (simp add: deref_opt_def split: option.splits)

lemmas run_eq_Inr = bnd_eq_Inr kassert_eq_Inr deref_eq_Inr deref_opt_eq_Inr

section \<open>Error numbers (kern/errno.h)\<close>

definition EINVAL :: int where "EINVAL = 1"
definition EFAULT :: int where "EFAULT = 2"
definition ENOMEM :: int where "ENOMEM = 4"
definition EUNIMP :: int where "EUNIMP = 13"
definition ENOSYS :: int where "ENOSYS = 23"
definition E2BIG :: int where "E2BIG = 25"

lemmas errno_defs = EINVAL_def EFAULT_def ENOMEM_def EUNIMP_def ENOSYS_def E2BIG_def

lemma errno_nonzero [simp]:
  "EINVAL \<noteq> 0" "EFAULT \<noteq> 0" "ENOMEM \<noteq> 0" "EUNIMP \<noteq> 0" "ENOSYS \<noteq> 0" "E2BIG \<noteq> 0"
  by (simp_all add: errno_defs)

section \<open>Constants of the machine headers\<close>

text \<open>
  \<^verbatim>\<open>machine/spl.h\<close>, \<^verbatim>\<open>machine/specialreg.h\<close>, \<^verbatim>\<open>machine/vm.h\<close>, \<^verbatim>\<open>machine/tlb.h\<close> and
  \<^verbatim>\<open>machine/pcb.h\<close> are not in the repository. Their constants are the fields of one parameter
  record; what the code relies on is stated by the predicates below.
\<close>

record machine =
  SPL_HIGH :: int
  CST_IEc :: u32
  CST_IEp :: u32
  CST_KUp :: u32
  CST_IRQMASK :: u32
  CCA_CODE :: u32
  CCA_CODESHIFT :: nat
  PAGE_SIZE :: u32
  PAGE_FRAME :: u32
  MIPS_KSEG0 :: u32
  USERSTACK :: u32
  STACK_SIZE :: u32
  NUM_TLB :: nat
  TLBLO_VALID :: u32
  TLBLO_DIRTY :: u32
  TLBLO_INVALID :: u32
  TLBHI_INVALID :: "nat \<Rightarrow> u32"
  PADDR_TO_KVADDR :: "u32 \<Rightarrow> u32"
  EX_IRQ :: u32
  EX_MOD :: u32
  EX_TLBL :: u32
  EX_TLBS :: u32
  EX_IBE :: u32
  EX_DBE :: u32
  EX_SYS :: u32
  mips_threadstart_addr :: u32   \<comment> \<open>where the linker placed \<open>mips_threadstart\<close>\<close>
  md_switch_return :: u32        \<comment> \<open>the return address of the call of \<open>mips_switch\<close> in \<open>md_switch\<close>\<close>
  sizeof_thread :: nat           \<comment> \<open>\<open>sizeof(struct thread)\<close>, which contains \<^verbatim>\<open>machine/pcb.h\<close>'s \<open>struct pcb\<close>\<close>
  SAME_STACK :: "u32 \<Rightarrow> u32 \<Rightarrow> bool"   \<comment> \<open>\<^verbatim>\<open>machine/pcb.h\<close>: two addresses on the same kernel stack\<close>
  LB_NSLOTS :: int
  LB_BASEADDR :: u32
  LB_SLOT_SIZE :: u32

text \<open>
  \<^verbatim>\<open>spl.c\<close>: the interrupt-enable flag is bit 0 of the status register; level \<open>SPL_HIGH\<close> is above 0.
\<close>

definition spl_consts :: "machine \<Rightarrow> bool" where
  "spl_consts M \<longleftrightarrow> SPL_HIGH M > 0 \<and> CST_IEc M = 1"

text \<open>
  The page size is a power of two \<open>2 ^ k\<close> and \<open>PAGE_FRAME\<close> masks the page-number bits of an address
  (\<^verbatim>\<open>start.S\<close> rounds with 4095 and \<^verbatim>\<open>0xfffff000\<close>).
\<close>

definition page_consts :: "machine \<Rightarrow> nat \<Rightarrow> bool" where
  "page_consts M k \<longleftrightarrow> k < 32 \<and> PAGE_SIZE M = 2 ^ k \<and> PAGE_FRAME M = NOT (mask k)"

text \<open>
  Physical memory is visible to the kernel at a fixed offset, the base of the direct-mapped segment
  (\<^verbatim>\<open>ram.c\<close> converts the other way by subtracting \<open>MIPS_KSEG0\<close>).
\<close>

definition kseg_consts :: "machine \<Rightarrow> bool" where
  "kseg_consts M \<longleftrightarrow> (\<forall>p. PADDR_TO_KVADDR M p = p + MIPS_KSEG0 M)"

text \<open>A concrete machine, with the values of the System/161 port, for evaluating the model.\<close>

definition sys161 :: machine where
  "sys161 = \<lparr>SPL_HIGH = 15, CST_IEc = 1, CST_IEp = 4, CST_KUp = 8, CST_IRQMASK = 0xff00,
     CCA_CODE = 0x3c, CCA_CODESHIFT = 2, PAGE_SIZE = 4096, PAGE_FRAME = 0xfffff000,
     MIPS_KSEG0 = 0x80000000, USERSTACK = 0x80000000, STACK_SIZE = 4096, NUM_TLB = 64,
     TLBLO_VALID = 0x200, TLBLO_DIRTY = 0x400, TLBLO_INVALID = 0,
     TLBHI_INVALID = (\<lambda>i. (0x80000 + of_nat i) * 4096), PADDR_TO_KVADDR = (\<lambda>p. p + 0x80000000),
     EX_IRQ = 0, EX_MOD = 1, EX_TLBL = 2, EX_TLBS = 3, EX_IBE = 6, EX_DBE = 7, EX_SYS = 8,
     mips_threadstart_addr = 0x80010000, md_switch_return = 0x80012340, sizeof_thread = 112,
     SAME_STACK = (\<lambda>a b. a AND 0xfffff000 = b AND 0xfffff000), LB_NSLOTS = 32, LB_BASEADDR = 0xbfe00000,
     LB_SLOT_SIZE = 0x10000\<rparr>"

lemma spl_consts_sys161: "spl_consts sys161"
  by (simp add: spl_consts_def sys161_def)

lemma page_consts_sys161: "page_consts sys161 12"
  by (simp add: page_consts_def sys161_def mask_eq_exp_minus_1)

lemma kseg_consts_sys161: "kseg_consts sys161"
  by (simp add: kseg_consts_def sys161_def)

section \<open>Generic lemmas\<close>

lemma u32_bound: "unat (x::u32) < 2 ^ 32"
  using unsigned_less [of x, where 'a = nat] by simp

lemma unat_add_no_wrap: "unat (a::u32) + unat b < 2 ^ 32 \<Longrightarrow> unat (a + b) = unat a + unat b"
  by (simp add: unat_word_ariths)

lemma unat_mult_no_wrap: "unat (a::u32) * unat b < 2 ^ 32 \<Longrightarrow> unat (a * b) = unat a * unat b"
  by (simp add: unat_word_ariths)

lemma and_not_mask_idem [simp]: "(x AND NOT (mask k)) AND NOT (mask k) = (x AND NOT (mask k) :: 'a::len word)"
  by (simp add: and.assoc)

lemma sint_pos_iff_count: "0 < sint (w::s32) \<Longrightarrow> sint (w - 1) = sint w - 1"
proof -
  assume "0 < sint w"
  moreover have "sint w < 2 ^ 31"
    using sint_lt [of w] by simp
  ultimately show ?thesis
    by (simp add: sint_word_ariths(2)) (simp add: signed_take_bit_int_eq_self_iff)
qed

lemma sint_plus_one: "sint (w::s32) < 2 ^ 31 - 1 \<Longrightarrow> sint (w + 1) = sint w + 1"
proof -
  assume "sint w < 2 ^ 31 - 1"
  moreover have "- (2 ^ 31) \<le> sint w"
    using sint_ge [of w] by simp
  ultimately show ?thesis
    by (simp add: sint_word_ariths(1)) (simp add: signed_take_bit_int_eq_self_iff)
qed

lemma unat_two_power: "k < 32 \<Longrightarrow> unat (2 ^ k :: u32) = 2 ^ k"
proof -
  assume "k < 32"
  then have "(2 ^ k :: nat) < 2 ^ 32" by (rule power_strict_increasing) simp
  moreover have "(2 ^ k :: u32) = of_nat (2 ^ k)" by simp
  ultimately show ?thesis by (simp only: unat_of_nat) simp
qed

lemma unat_and_mask: "unat ((x::u32) AND mask k) = unat x mod 2 ^ k"
proof -
  have "unat (x AND mask k) = unat (take_bit k x)" by (simp only: take_bit_eq_mask)
  also have "\<dots> = take_bit k (unat x)" by (simp only: unsigned_take_bit_eq)
  also have "\<dots> = unat x mod 2 ^ k" by (simp only: take_bit_eq_mod)
  finally show ?thesis .
qed

lemma unat_and_not_mask: "unat ((x::u32) AND NOT (mask k)) = unat x - unat x mod 2 ^ k"
proof -
  have "x = (x AND mask k) + (x AND NOT (mask k))"
    by (subst disjunctive_add) (auto simp: bit_simps bit_eq_iff)
  then have "x AND NOT (mask k) = x - (x AND mask k)"
    by (simp add: algebra_simps)
  then show ?thesis
    by (simp add: unat_sub word_and_le2 unat_and_mask)
qed

lemma page_round_up_nat:
  fixes v z k :: nat
  defines "n \<equiv> (z + v mod 2 ^ k + 2 ^ k - 1) div 2 ^ k"
  shows "v + z \<le> (v - v mod 2 ^ k) + n * 2 ^ k" and "(v - v mod 2 ^ k) + n * 2 ^ k < v + z + 2 ^ k"
proof -
  let ?P = "2 ^ k :: nat" and ?t = "z + v mod 2 ^ k + 2 ^ k - 1 :: nat"
  have P: "0 < ?P" by simp
  have eq: "n * ?P + ?t mod ?P = ?t" unfolding n_def by (rule div_mult_mod_eq)
  have lt: "?t mod ?P < ?P" using P by simp
  have vm: "v mod ?P \<le> v" by simp
  show "v + z \<le> (v - v mod ?P) + n * ?P" using eq lt vm P by linarith
  show "(v - v mod ?P) + n * ?P < v + z + ?P" using eq lt vm P by linarith
qed

end
