(* ===== verification/Spl.thy ===== *)
theory Spl
  imports OS_Prelude
begin

text \<open>
  Interrupt levels, \<^verbatim>\<open>kern/mips/spl.c\<close>: the processor status register with its interrupt-enable
  flag, the level \<open>curspl\<close>, and \<open>splx\<close>/\<open>splhigh\<close>/\<open>spl0\<close>/\<open>cpu_idle\<close>. The main facts: a level change
  switches the flag accordingly, and a \<open>splhigh\<close> ... \<open>splx\<close> bracket restores the processor exactly.
\<close>

section \<open>State and operations\<close>

record cpu =
  c0_status :: u32
  curspl :: int

definition interrupts_on :: "machine \<Rightarrow> 'z cpu_scheme \<Rightarrow> 'z cpu_scheme" where
  "interrupts_on M s = s\<lparr>c0_status := c0_status s OR CST_IEc M\<rparr>"

definition interrupts_off :: "machine \<Rightarrow> 'z cpu_scheme \<Rightarrow> 'z cpu_scheme" where
  "interrupts_off M s = s\<lparr>c0_status := c0_status s AND NOT (CST_IEc M)\<rparr>"

text \<open>
  Between the two \<open>set_status\<close> of \<open>interrupts_onoff\<close> the processor takes a pending interrupt;
  \<open>intr\<close> is what the interrupt does to the state.
\<close>

definition interrupts_onoff ::
  "machine \<Rightarrow> ('z cpu_scheme \<Rightarrow> 'z cpu_scheme run) \<Rightarrow> 'z cpu_scheme \<Rightarrow> 'z cpu_scheme run" where
  "interrupts_onoff M intr s =
     (let x = c0_status s; xon = x OR CST_IEc M; xoff = x AND NOT (CST_IEc M)
      in bnd (intr (s\<lparr>c0_status := xon\<rparr>)) (\<lambda>s'. Inr (s'\<lparr>c0_status := xoff\<rparr>)))"

definition splx :: "machine \<Rightarrow> int \<Rightarrow> 'z cpu_scheme \<Rightarrow> int \<times> 'z cpu_scheme" where
  "splx M newspl s =
     (let s1 = (if newspl > 0 then interrupts_off M s
                else if newspl = 0 then interrupts_on M s else s)
      in (curspl s1, s1\<lparr>curspl := newspl\<rparr>))"

definition splhigh :: "machine \<Rightarrow> 'z cpu_scheme \<Rightarrow> int \<times> 'z cpu_scheme" where
  "splhigh M s = splx M (SPL_HIGH M) s"

definition spl0 :: "machine \<Rightarrow> 'z cpu_scheme \<Rightarrow> int \<times> 'z cpu_scheme" where
  "spl0 M s = splx M 0 s"

definition cpu_idle ::
  "machine \<Rightarrow> ('z cpu_scheme \<Rightarrow> 'z cpu_scheme run) \<Rightarrow> 'z cpu_scheme \<Rightarrow> 'z cpu_scheme run" where
  "cpu_idle M intr s = kassert (curspl s > 0) ''curspl>0'' (interrupts_onoff M intr s)"

text \<open>\<open>cpu_halt\<close> turns interrupts off and waits forever: the state it stays in.\<close>

definition cpu_halt :: "machine \<Rightarrow> 'z cpu_scheme \<Rightarrow> 'z cpu_scheme" where
  "cpu_halt M s = interrupts_off M s"

section \<open>The level and the flag agree\<close>

definition irqs_enabled :: "machine \<Rightarrow> 'z cpu_scheme \<Rightarrow> bool" where
  "irqs_enabled M s \<longleftrightarrow> c0_status s AND CST_IEc M = CST_IEc M"

definition spl_ok :: "machine \<Rightarrow> 'z cpu_scheme \<Rightarrow> bool" where
  "spl_ok M s \<longleftrightarrow> curspl s \<ge> 0 \<and> (irqs_enabled M s \<longleftrightarrow> curspl s = 0)"

lemma bit0_on [simp]: "(x OR 1) AND 1 = (1::u32)"
  by (rule bit_word_eqI) (auto simp: bit_simps)

lemma bit0_off [simp]: "(x AND NOT 1) AND 1 = (0::u32)"
  by (rule bit_word_eqI) (auto simp: bit_simps)

lemma set_bit0_id: "x AND 1 = 1 \<Longrightarrow> (x AND NOT 1) OR 1 = (x::u32)"
  by (rule bit_word_eqI) (auto simp: bit_simps and_one_eq odd_iff_mod_2_eq_one bit_0)

lemma clear_bit0_id: "x AND 1 \<noteq> 1 \<Longrightarrow> x AND NOT 1 = (x::u32)"
  by (rule bit_word_eqI) (auto simp: bit_simps and_one_eq odd_iff_mod_2_eq_one bit_0)

lemmas bit0_simps = bit0_on bit0_off [simplified] set_bit0_id [simplified] clear_bit0_id [simplified]

lemma splx_eq:
  "splx M n s = (curspl s, (if n > 0 then interrupts_off M s
     else if n = 0 then interrupts_on M s else s)\<lparr>curspl := n\<rparr>)"
  by (simp add: splx_def Let_def interrupts_on_def interrupts_off_def)

lemma fst_splx [simp]: "fst (splx M n s) = curspl s"
  by (simp add: splx_eq)

lemma fst_splhigh [simp]: "fst (splhigh M s) = curspl s"
  by (simp add: splhigh_def)

lemma curspl_splx [simp]: "curspl (snd (splx M n s)) = n"
  by (simp add: splx_eq)

lemma curspl_splhigh [simp]: "curspl (snd (splhigh M s)) = SPL_HIGH M"
  by (simp add: splhigh_def)

lemma irqs_enabled_splx:
  assumes "spl_consts M" and "n \<ge> 0"
  shows "irqs_enabled M (snd (splx M n s)) \<longleftrightarrow> n = 0"
  using assms
  by (auto simp: splx_eq irqs_enabled_def spl_consts_def interrupts_on_def interrupts_off_def bit0_simps)

lemma spl_ok_splx [kinv]: "spl_consts M \<Longrightarrow> n \<ge> 0 \<Longrightarrow> spl_ok M (snd (splx M n s))"
  by (simp add: spl_ok_def irqs_enabled_splx)

lemma spl_ok_splhigh [kinv]: "spl_consts M \<Longrightarrow> spl_ok M (snd (splhigh M s))"
  by (simp add: splhigh_def spl_ok_splx spl_consts_def)

lemma splhigh_splx_state:
  assumes "spl_consts M" and "spl_ok M s"
  shows "snd (splx M (curspl s) (snd (splhigh M s))) = s"
proof (cases "curspl s = 0")
  case True
  with assms have "c0_status s AND 1 = 1"
    by (simp add: spl_ok_def irqs_enabled_def spl_consts_def)
  with assms True show ?thesis
    by (cases s) (simp add: splhigh_def splx_eq spl_consts_def interrupts_on_def interrupts_off_def
        bit0_simps)
next
  case False
  with assms have "c0_status s AND 1 \<noteq> 1" and "curspl s > 0"
    by (auto simp: spl_ok_def irqs_enabled_def spl_consts_def)
  with assms show ?thesis
    by (cases s) (simp add: splhigh_def splx_eq spl_consts_def interrupts_off_def bit0_simps)
qed

section \<open>Critical sections as an interface\<close>

text \<open>
  What every caller of \<open>splhigh\<close> and \<open>splx\<close> relies on: raising the level and lowering it to the saved
  value gives back the state; a body that does not touch the processor runs as if it were alone.
\<close>

locale spl_bracket =
  fixes high :: "'s \<Rightarrow> int \<times> 's"
    and lower :: "int \<Rightarrow> 's \<Rightarrow> int \<times> 's"
    and ok :: "'s \<Rightarrow> bool"
  assumes high_ok: "ok s \<Longrightarrow> ok (snd (high s))"
    and bracket: "ok s \<Longrightarrow> snd (lower (fst (high s)) (snd (high s))) = s"
begin

lemma nested_bracket:
  assumes "ok s"
  shows "snd (lower (fst (high s))
           (snd (lower (fst (high (snd (high s)))) (snd (high (snd (high s))))))) = s"
  using assms by (simp add: high_ok bracket)

lemma bracket_body:
  assumes "ok s" and "\<And>n t. snd (lower n (f t)) = f (snd (lower n t))"
  shows "snd (lower (fst (high s)) (f (snd (high s)))) = f s"
  using assms by (simp add: bracket)

end

interpretation spl: spl_bracket "splhigh M" "splx M" "\<lambda>s. spl_consts M \<and> spl_ok M s" for M
  by unfold_locales (auto simp: spl_ok_splhigh splhigh_splx_state)

section \<open>Properties\<close>

text \<open>
  Setting a level \<open>n \<ge> 0\<close> with \<open>splx\<close> returns the previous level, records the new one, and leaves
  interrupts enabled exactly when the new level is 0, whatever the status register held before.
\<close>

theorem splx_sets_level:
  assumes "spl_consts M" and "n \<ge> 0"
  shows "fst (splx M n s) = curspl s \<and> curspl (snd (splx M n s)) = n
    \<and> (irqs_enabled M (snd (splx M n s)) \<longleftrightarrow> n = 0)"
  using assms by (simp add: irqs_enabled_splx)

theorem splx_sets_level_witness:
  "curspl (snd (splx sys161 0 \<lparr>c0_status = 0xff00, curspl = 15\<rparr>)) = 0
   \<and> irqs_enabled sys161 (snd (splx sys161 0 \<lparr>c0_status = 0xff00, curspl = 15\<rparr>))"
  using splx_sets_level [OF spl_consts_sys161, of 0 "\<lparr>c0_status = 0xff00, curspl = 15\<rparr>"] by simp

text \<open>
  A critical section \<open>s = splhigh(); ... splx(s)\<close> runs with interrupts off, may be nested (the
  inner section does not turn them on), and the outermost \<open>splx\<close> restores level and status register
  to exactly what they were, whether the section was entered with interrupts on or off.
\<close>

theorem splhigh_splx_nest:
  assumes "spl_consts M" and "spl_ok M s"
  shows "\<not> irqs_enabled M (snd (splhigh M s))
    \<and> snd (splx M (fst (splhigh M (snd (splhigh M s)))) (snd (splhigh M (snd (splhigh M s)))))
        = snd (splhigh M s)
    \<and> snd (splx M (fst (splhigh M s)) (snd (splhigh M s))) = s"
proof (intro conjI)
  show "\<not> irqs_enabled M (snd (splhigh M s))"
    using assms irqs_enabled_splx [OF assms(1), of "SPL_HIGH M" s]
    by (simp add: splhigh_def spl_consts_def)
  show "snd (splx M (fst (splhigh M (snd (splhigh M s)))) (snd (splhigh M (snd (splhigh M s)))))
      = snd (splhigh M s)"
    by (rule spl.bracket) (simp add: assms spl_ok_splhigh)
  show "snd (splx M (fst (splhigh M s)) (snd (splhigh M s))) = s"
    by (rule spl.bracket) (simp add: assms)
qed

theorem splhigh_splx_nest_witness:
  "\<not> irqs_enabled sys161 (snd (splhigh sys161 \<lparr>c0_status = 0xff01, curspl = 0\<rparr>))
   \<and> snd (splx sys161 0 (snd (splhigh sys161 \<lparr>c0_status = 0xff01, curspl = 0\<rparr>)))
     = \<lparr>c0_status = 0xff01, curspl = 0\<rparr>"
  using splhigh_splx_nest [OF spl_consts_sys161, of "\<lparr>c0_status = 0xff01, curspl = 0\<rparr>"]
  by (simp add: spl_ok_def irqs_enabled_def sys161_def)

end
