(* ===== verification/Ram.thy ===== *)
theory Ram
  imports Spl
begin

text \<open>
  Physical memory before the VM system, \<^verbatim>\<open>kern/mips/ram.c\<close>: \<open>ram_bootstrap\<close>, the bump allocator
  \<open>ram_stealmem\<close> and \<open>ram_getsize\<close>. The interface locale \<open>page_source\<close> states what a client of a page
  allocator may rely on; it is interpreted here on \<open>ram_stealmem\<close> and in \<open>Dumbvm\<close> on \<open>getppages\<close>.
\<close>

section \<open>State and operations\<close>

record ram = cpu +
  firstfree :: u32
  firstpaddr :: u32
  lastpaddr :: u32

definition ram_limit :: u32 where "ram_limit = 508 * 1024 * 1024"

text \<open>\<open>ramsize\<close> is what the bus controller reports through \<open>mips_ramsize\<close>.\<close>

definition ram_bootstrap :: "machine \<Rightarrow> u32 \<Rightarrow> 'z ram_scheme \<Rightarrow> 'z ram_scheme" where
  "ram_bootstrap M ramsize s =
     (let ramsize' = (if ramsize > ram_limit then ram_limit else ramsize)
      in s\<lparr>lastpaddr := ramsize', firstpaddr := firstfree s - MIPS_KSEG0 M\<rparr>)"

definition ram_stealmem :: "machine \<Rightarrow> u32 \<Rightarrow> 'z ram_scheme \<Rightarrow> u32 \<times> 'z ram_scheme" where
  "ram_stealmem M npages s =
     (let size = npages * PAGE_SIZE M
      in if firstpaddr s + size > lastpaddr s then (0, s)
         else (firstpaddr s, s\<lparr>firstpaddr := firstpaddr s + size\<rparr>))"

definition ram_getsize :: "'z ram_scheme \<Rightarrow> (u32 \<times> u32) \<times> 'z ram_scheme" where
  "ram_getsize s = ((firstpaddr s, lastpaddr s), s\<lparr>firstpaddr := 0, lastpaddr := 0\<rparr>)"

section \<open>Well-formed memory and requests that do not wrap\<close>

definition ram_ok :: "machine \<Rightarrow> 'z ram_scheme \<Rightarrow> bool" where
  "ram_ok M s \<longleftrightarrow> 0 < PAGE_SIZE M \<and> 0 < firstpaddr s \<and> firstpaddr s \<le> lastpaddr s
     \<and> lastpaddr s \<le> ram_limit"

text \<open>A request whose byte size, on top of the largest RAM supported, stays below 4 GB.\<close>

definition small_request :: "machine \<Rightarrow> u32 \<Rightarrow> bool" where
  "small_request M n \<longleftrightarrow> unat n * unat (PAGE_SIZE M) + unat ram_limit < 2 ^ 32"

lemma ram_stealmem_cases:
  assumes "ram_ok M s" and "small_request M n"
  shows "ram_stealmem M n s =
    (if unat (firstpaddr s) + unat n * unat (PAGE_SIZE M) \<le> unat (lastpaddr s)
     then (firstpaddr s, s\<lparr>firstpaddr := firstpaddr s + n * PAGE_SIZE M\<rparr>) else (0, s))"
    and "unat (firstpaddr s + n * PAGE_SIZE M) = unat (firstpaddr s) + unat n * unat (PAGE_SIZE M)"
proof -
  have le: "unat (firstpaddr s) \<le> unat ram_limit"
    using assms(1) by (simp add: ram_ok_def word_le_nat_alt)
  have "unat (n * PAGE_SIZE M) = unat n * unat (PAGE_SIZE M)"
    using assms(2) by (intro unat_mult_no_wrap) (simp add: small_request_def)
  with le show sum: "unat (firstpaddr s + n * PAGE_SIZE M)
      = unat (firstpaddr s) + unat n * unat (PAGE_SIZE M)"
    using assms(2) by (subst unat_add_no_wrap) (simp_all add: small_request_def)
  show "ram_stealmem M n s =
    (if unat (firstpaddr s) + unat n * unat (PAGE_SIZE M) \<le> unat (lastpaddr s)
     then (firstpaddr s, s\<lparr>firstpaddr := firstpaddr s + n * PAGE_SIZE M\<rparr>) else (0, s))"
    by (simp add: ram_stealmem_def Let_def word_less_nat_alt sum not_le)
qed

lemma ram_ok_stealmem [kinv]:
  assumes "ram_ok M s" and "small_request M n"
  shows "ram_ok M (snd (ram_stealmem M n s))"
  using assms
  by (auto simp: ram_stealmem_cases ram_ok_def word_le_nat_alt word_less_nat_alt)

section \<open>Page sources\<close>

text \<open>Granted pages as a set of byte addresses; a refused request (address 0) grants nothing.\<close>

definition page_region :: "nat \<Rightarrow> u32 \<times> u32 \<Rightarrow> nat set" where
  "page_region pgsize r =
     (if fst r = 0 then {} else {unat (fst r) ..< unat (fst r) + unat (snd r) * pgsize})"

fun grab_all :: "(u32 \<Rightarrow> 's \<Rightarrow> u32 \<times> 's) \<Rightarrow> u32 list \<Rightarrow> 's \<Rightarrow> (u32 \<times> u32) list \<times> 's" where
  "grab_all grab [] s = ([], s)"
| "grab_all grab (n # ns) s =
     (let (p, s1) = grab n s; (rs, s2) = grab_all grab ns s1 in ((p, n) # rs, s2))"

fun regions_disjoint :: "nat \<Rightarrow> (u32 \<times> u32) list \<Rightarrow> bool" where
  "regions_disjoint pgsize [] = True"
| "regions_disjoint pgsize (r # rs) =
     ((\<forall>r' \<in> set rs. page_region pgsize r \<inter> page_region pgsize r' = {}) \<and> regions_disjoint pgsize rs)"

text \<open>
  The contract of a page allocator: the free memory is an interval \<open>[lo, hi)\<close>; a grant takes its
  lower end, a refusal changes nothing.
\<close>

locale page_source =
  fixes grab :: "u32 \<Rightarrow> 's \<Rightarrow> u32 \<times> 's"
    and lo hi :: "'s \<Rightarrow> nat"
    and pgsize :: nat
    and inv :: "'s \<Rightarrow> bool"
    and request :: "u32 \<Rightarrow> bool"
  assumes grab_inv: "inv s \<Longrightarrow> request n \<Longrightarrow> inv (snd (grab n s))"
    and grab_hi: "inv s \<Longrightarrow> request n \<Longrightarrow> hi (snd (grab n s)) = hi s"
    and grab_refused: "inv s \<Longrightarrow> request n \<Longrightarrow> fst (grab n s) = 0 \<Longrightarrow> lo (snd (grab n s)) = lo s"
    and grab_granted: "inv s \<Longrightarrow> request n \<Longrightarrow> fst (grab n s) \<noteq> 0 \<Longrightarrow>
      unat (fst (grab n s)) = lo s \<and> lo (snd (grab n s)) = lo s + unat n * pgsize
      \<and> lo (snd (grab n s)) \<le> hi s"
begin

lemma grab_region:
  assumes "inv s" and "request n"
  shows "page_region pgsize (fst (grab n s), n) \<subseteq> {lo s ..< lo (snd (grab n s))}"
    and "lo s \<le> lo (snd (grab n s))"
    and "page_region pgsize (fst (grab n s), n) \<subseteq> {..< hi s}"
  using grab_granted [OF assms] grab_refused [OF assms]
  by (auto simp: page_region_def split: if_splits) (cases "fst (grab n s) = 0"; simp)+

lemma grab_all_regions:
  assumes "inv s" and "\<forall>n \<in> set ns. request n"
  shows "inv (snd (grab_all grab ns s))
    \<and> (\<forall>r \<in> set (fst (grab_all grab ns s)). page_region pgsize r \<subseteq> {lo s ..< hi s})
    \<and> regions_disjoint pgsize (fst (grab_all grab ns s))"
  using assms
proof (induction ns arbitrary: s)
  case Nil
  then show ?case by simp
next
  case (Cons n ns)
  let ?s1 = "snd (grab n s)"
  from Cons.prems have i: "inv s" "request n" by auto
  from i have inv1: "inv ?s1" and hi: "hi ?s1 = hi s" by (auto intro: grab_inv grab_hi)
  have IH: "inv (snd (grab_all grab ns ?s1))"
    "\<forall>r \<in> set (fst (grab_all grab ns ?s1)). page_region pgsize r \<subseteq> {lo ?s1 ..< hi ?s1}"
    "regions_disjoint pgsize (fst (grab_all grab ns ?s1))"
    using Cons.IH [OF inv1] Cons.prems(2) by simp_all
  have "page_region pgsize (fst (grab n s), n) \<inter> page_region pgsize r = {}"
    if "r \<in> set (fst (grab_all grab ns ?s1))" for r
    using that IH(2) grab_region(1) [OF i] by fastforce
  moreover have "page_region pgsize (fst (grab n s), n) \<subseteq> {lo s ..< hi s}"
    using grab_region [OF i] by fastforce
  moreover have "page_region pgsize r \<subseteq> {lo s ..< hi s}"
    if "r \<in> set (fst (grab_all grab ns ?s1))" for r
    using that IH(2) grab_region(2) [OF i] hi by fastforce
  ultimately show ?case
    using IH by (auto simp: split_beta Let_def)
qed

end

interpretation stealmem: page_source "ram_stealmem M" "\<lambda>s. unat (firstpaddr s)"
  "\<lambda>s. unat (lastpaddr s)" "unat (PAGE_SIZE M)" "ram_ok M" "small_request M" for M
proof unfold_locales
  fix s :: "'z ram_scheme" and n
  assume s: "ram_ok M s" "small_request M n"
  show "ram_ok M (snd (ram_stealmem M n s))"
    using s by (rule ram_ok_stealmem)
  show "unat (lastpaddr (snd (ram_stealmem M n s))) = unat (lastpaddr s)"
    using s by (simp add: ram_stealmem_cases)
  show "unat (firstpaddr (snd (ram_stealmem M n s))) = unat (firstpaddr s)"
    if "fst (ram_stealmem M n s) = 0"
    using s that by (auto simp: ram_stealmem_cases ram_ok_def split: if_splits)
  show "unat (fst (ram_stealmem M n s)) = unat (firstpaddr s) \<and>
      unat (firstpaddr (snd (ram_stealmem M n s)))
        = unat (firstpaddr s) + unat n * unat (PAGE_SIZE M)
      \<and> unat (firstpaddr (snd (ram_stealmem M n s))) \<le> unat (lastpaddr s)"
    if "fst (ram_stealmem M n s) \<noteq> 0"
    using s that by (auto simp: ram_stealmem_cases split: if_splits)
qed

section \<open>Properties\<close>

text \<open>
  C39. Any sequence of \<open>ram_stealmem\<close> calls (with requests too small to wrap a 32-bit size) hands out
  pairwise disjoint page ranges, all inside the free memory \<open>[firstpaddr, lastpaddr)\<close> found at the
  start; refused requests hand out nothing.
\<close>

theorem ram_stealmem_disjoint:
  assumes "ram_ok M s" and "\<forall>n \<in> set ns. small_request M n"
  shows "regions_disjoint (unat (PAGE_SIZE M)) (fst (grab_all (ram_stealmem M) ns s))
    \<and> (\<forall>r \<in> set (fst (grab_all (ram_stealmem M) ns s)).
         page_region (unat (PAGE_SIZE M)) r \<subseteq> {unat (firstpaddr s) ..< unat (lastpaddr s)})"
  using stealmem.grab_all_regions [OF assms] by simp

definition ram_example :: ram where
  "ram_example = \<lparr>c0_status = 0, curspl = 15, firstfree = 0, firstpaddr = 0x30000, lastpaddr = 0x80000\<rparr>"

theorem ram_stealmem_disjoint_witness:
  "regions_disjoint 4096 (fst (grab_all (ram_stealmem sys161) [12, 1000, 3] ram_example))
   \<and> fst (grab_all (ram_stealmem sys161) [12, 1000, 3] ram_example)
       = [(0x30000, 12), (0, 1000), (0x3c000, 3)]"
proof -
  have "ram_ok sys161 ram_example" "\<forall>n \<in> set [12, 1000, 3]. small_request sys161 n"
    by (simp_all add: ram_ok_def sys161_def ram_example_def ram_limit_def small_request_def)
  from ram_stealmem_disjoint [OF this] show ?thesis
    by (simp add: ram_stealmem_def sys161_def ram_example_def)
qed

text \<open>
  \<open>ram_stealmem\<close> computes the byte size of a request modulo \<open>2 ^ 32\<close>. A request whose size wraps to
  0 is granted in every well-formed memory: it returns the first free address although the pages do
  not exist, and the free pointer does not move, so the next request gets the same address.
\<close>

theorem ram_stealmem_wraps:
  assumes "ram_ok M s" and "n * PAGE_SIZE M = 0"
  shows "ram_stealmem M n s = (firstpaddr s, s) \<and> firstpaddr s \<noteq> 0"
  using assms by (auto simp: ram_stealmem_def ram_ok_def)

theorem ram_stealmem_wraps_witness:
  "ram_stealmem sys161 0x100000 ram_example = (0x30000, ram_example)
   \<and> unat (0x100000 :: u32) * unat (PAGE_SIZE sys161) = 2 ^ 32"
proof -
  have "ram_ok sys161 ram_example" "0x100000 * PAGE_SIZE sys161 = 0"
    by (simp_all add: ram_ok_def sys161_def ram_example_def ram_limit_def)
  from ram_stealmem_wraps [OF this] show ?thesis
    by (simp add: ram_example_def sys161_def)
qed

text \<open>
  \<open>ram_bootstrap\<close> never believes more than 508 MB of memory, and if the kernel image ends below
  that (and below the installed memory) the allocator starts in a well-formed state.
\<close>

theorem ram_bootstrap_ok:
  assumes "0 < PAGE_SIZE M" and "MIPS_KSEG0 M < firstfree s"
    and "firstfree s - MIPS_KSEG0 M \<le> min ramsize ram_limit"
  shows "ram_ok M (ram_bootstrap M ramsize s)
    \<and> lastpaddr (ram_bootstrap M ramsize s) = min ramsize ram_limit"
  using assms by (auto simp: ram_ok_def ram_bootstrap_def Let_def min_def word_neq_0_conv [symmetric])

theorem ram_bootstrap_ok_witness:
  "ram_ok sys161 (ram_bootstrap sys161 0x200000 (ram_example\<lparr>firstfree := 0x80030000\<rparr>))"
  using ram_bootstrap_ok [of sys161 "ram_example\<lparr>firstfree := 0x80030000\<rparr>" "0x200000"]
  by (simp add: sys161_def ram_limit_def)

end
