(* ===== verification/Klib.thy ===== *)
theory Klib
  imports Ram
begin

text \<open>
  The kernel library the sources call but do not contain: the kernel heap (\<^verbatim>\<open>lib.h\<close>), the ring-buffer
  queue (\<^verbatim>\<open>queue.h\<close>), the resizeable array (\<^verbatim>\<open>array.h\<close>) and the vnode reference counts
  (\<^verbatim>\<open>vnode.h\<close>). It is a parameter record \<open>klib\<close> of every definition that uses it, over unknown types
  of queues, arrays and heaps. Its documented behaviour is stated by the predicates \<open>heap_laws\<close>,
  \<open>queue_laws\<close> and \<open>array_laws\<close>, through the abstraction functions \<open>q_list\<close>, \<open>q_room\<close>, \<open>a_list\<close>,
  \<open>a_room\<close> and \<open>k_owned\<close>.
\<close>

record ('q, 'a, 'h) klib =
  kmalloc :: "nat \<Rightarrow> 'h \<Rightarrow> ptr \<times> 'h"
  kfree :: "ptr \<Rightarrow> 'h \<Rightarrow> 'h"
  kstrdup :: "string \<Rightarrow> 'h \<Rightarrow> ptr \<times> 'h"
  VOP_INCREF :: "ptr \<Rightarrow> 'h \<Rightarrow> 'h"
  VOP_DECREF :: "ptr \<Rightarrow> 'h \<Rightarrow> 'h"
  q_create :: "int \<Rightarrow> 'h \<Rightarrow> 'q option \<times> 'h"
  q_preallocate :: "'q \<Rightarrow> int \<Rightarrow> 'h \<Rightarrow> int \<times> 'q \<times> 'h"
  q_empty :: "'q \<Rightarrow> bool"
  q_addtail :: "'q \<Rightarrow> ptr \<Rightarrow> 'h \<Rightarrow> int \<times> 'q \<times> 'h"
  q_remhead :: "'q \<Rightarrow> (ptr \<times> 'q) option"   \<comment> \<open>\<open>None\<close>: the queue is empty and the call panics\<close>
  q_destroy :: "'q \<Rightarrow> 'h \<Rightarrow> 'h option"      \<comment> \<open>\<open>None\<close>: the queue objects to being destroyed\<close>
  array_create :: "'h \<Rightarrow> 'a option \<times> 'h"
  array_preallocate :: "'a \<Rightarrow> int \<Rightarrow> 'h \<Rightarrow> int \<times> 'a \<times> 'h"
  array_getnum :: "'a \<Rightarrow> int"
  array_getguy :: "'a \<Rightarrow> int \<Rightarrow> ptr"
  array_setsize :: "'a \<Rightarrow> int \<Rightarrow> 'h \<Rightarrow> int \<times> 'a \<times> 'h"
  array_add :: "'a \<Rightarrow> ptr \<Rightarrow> 'h \<Rightarrow> int \<times> 'a \<times> 'h"
  array_remove :: "'a \<Rightarrow> int \<Rightarrow> 'a"
  array_destroy :: "'a \<Rightarrow> 'h \<Rightarrow> 'h"
  k_owned :: "'h \<Rightarrow> ptr set"      \<comment> \<open>blocks handed out by \<open>kmalloc\<close>/\<open>kstrdup\<close> and not freed since\<close>
  q_list :: "'q \<Rightarrow> ptr list"      \<comment> \<open>contents, front first\<close>
  q_room :: "'q \<Rightarrow> nat"           \<comment> \<open>pointers the queue can hold without extending itself\<close>
  a_list :: "'a \<Rightarrow> ptr list"
  a_room :: "'a \<Rightarrow> nat"

section \<open>Documented behaviour\<close>

text \<open>\<open>kmalloc\<close>, \<open>kstrdup\<close>: \<open>NULL\<close> when out of memory, otherwise a block nobody owns.\<close>

definition alloc_spec :: "ptr set \<Rightarrow> ptr \<Rightarrow> ptr set \<Rightarrow> bool" where
  "alloc_spec own p own' \<longleftrightarrow>
     (if p = NULL then own' = own else p \<notin> own \<and> own' = insert p own)"

definition heap_laws :: "('q, 'a, 'h) klib \<Rightarrow> bool" where
  "heap_laws L \<longleftrightarrow>
     (\<forall>n h. alloc_spec (k_owned L h) (fst (kmalloc L n h)) (k_owned L (snd (kmalloc L n h))))
   \<and> (\<forall>n h. alloc_spec (k_owned L h) (fst (kstrdup L n h)) (k_owned L (snd (kstrdup L n h))))
   \<and> (\<forall>p h. k_owned L (kfree L p h) = k_owned L h - {p})
   \<and> (\<forall>v h. k_owned L (VOP_INCREF L v h) = k_owned L h)
   \<and> (\<forall>v h. k_owned L (VOP_DECREF L v h) = k_owned L h)"

text \<open>
  \<^verbatim>\<open>queue.h\<close>: adding at the tail fails only if an extension is required and fails, and then changes
  nothing; preallocation makes room; removing takes the head and panics on an empty queue.
\<close>

definition q_addtail_law :: "('q, 'a, 'h) klib \<Rightarrow> bool" where
  "q_addtail_law L \<longleftrightarrow> (\<forall>q p h r q' h'. q_addtail L q p h = (r, q', h') \<longrightarrow>
     k_owned L h' = k_owned L h \<and> q_room L q \<le> q_room L q'
     \<and> (length (q_list L q) < q_room L q \<longrightarrow> r = 0)
     \<and> q_list L q' = (if r = 0 then q_list L q @ [p] else q_list L q))"

definition q_preallocate_law :: "('q, 'a, 'h) klib \<Rightarrow> bool" where
  "q_preallocate_law L \<longleftrightarrow> (\<forall>q n h r q' h'. q_preallocate L q n h = (r, q', h') \<longrightarrow>
     k_owned L h' = k_owned L h \<and> q_list L q' = q_list L q \<and> q_room L q \<le> q_room L q'
     \<and> (r = 0 \<longrightarrow> n \<le> int (q_room L q')))"

definition q_remhead_law :: "('q, 'a, 'h) klib \<Rightarrow> bool" where
  "q_remhead_law L \<longleftrightarrow> (\<forall>q. case q_list L q of [] \<Rightarrow> q_remhead L q = None
     | t # ts \<Rightarrow> (\<exists>q'. q_remhead L q = Some (t, q') \<and> q_list L q' = ts \<and> q_room L q \<le> q_room L q'))"

definition q_create_law :: "('q, 'a, 'h) klib \<Rightarrow> bool" where
  "q_create_law L \<longleftrightarrow> (\<forall>n h r h'. q_create L n h = (r, h') \<longrightarrow>
     k_owned L h' = k_owned L h \<and> (\<forall>q. r = Some q \<longrightarrow> q_list L q = []))"

definition queue_laws :: "('q, 'a, 'h) klib \<Rightarrow> bool" where
  "queue_laws L \<longleftrightarrow> q_create_law L \<and> (\<forall>q. q_empty L q \<longleftrightarrow> q_list L q = []) \<and> q_remhead_law L
     \<and> q_addtail_law L \<and> q_preallocate_law L"

text \<open>
  \<^verbatim>\<open>array.h\<close>: indexed access within bounds, adding at the end, removing with the rest moved down,
  preallocation without change of the visible size, shrinking with the excess dropped.
\<close>

definition array_create_law :: "('q, 'a, 'h) klib \<Rightarrow> bool" where
  "array_create_law L \<longleftrightarrow> (\<forall>h r h'. array_create L h = (r, h') \<longrightarrow>
     k_owned L h' = k_owned L h \<and> (\<forall>a. r = Some a \<longrightarrow> a_list L a = []))"

definition array_access_law :: "('q, 'a, 'h) klib \<Rightarrow> bool" where
  "array_access_law L \<longleftrightarrow> (\<forall>a. array_getnum L a = int (length (a_list L a)))
     \<and> (\<forall>a i. i < length (a_list L a) \<longrightarrow> array_getguy L a (int i) = a_list L a ! i)"

definition array_remove_law :: "('q, 'a, 'h) klib \<Rightarrow> bool" where
  "array_remove_law L \<longleftrightarrow> (\<forall>a i. i < length (a_list L a) \<longrightarrow>
     a_list L (array_remove L a (int i)) = take i (a_list L a) @ drop (Suc i) (a_list L a)
     \<and> a_room L a \<le> a_room L (array_remove L a (int i)))"

definition array_add_law :: "('q, 'a, 'h) klib \<Rightarrow> bool" where
  "array_add_law L \<longleftrightarrow> (\<forall>a p h r a' h'. array_add L a p h = (r, a', h') \<longrightarrow>
     k_owned L h' = k_owned L h \<and> a_room L a \<le> a_room L a'
     \<and> (length (a_list L a) < a_room L a \<longrightarrow> r = 0)
     \<and> a_list L a' = (if r = 0 then a_list L a @ [p] else a_list L a))"

definition array_preallocate_law :: "('q, 'a, 'h) klib \<Rightarrow> bool" where
  "array_preallocate_law L \<longleftrightarrow> (\<forall>a n h r a' h'. array_preallocate L a n h = (r, a', h') \<longrightarrow>
     k_owned L h' = k_owned L h \<and> a_list L a' = a_list L a \<and> a_room L a \<le> a_room L a'
     \<and> (r = 0 \<longrightarrow> n \<le> int (a_room L a')))"

definition array_setsize_law :: "('q, 'a, 'h) klib \<Rightarrow> bool" where
  "array_setsize_law L \<longleftrightarrow> (\<forall>a n h r a' h'. array_setsize L a (int n) h = (r, a', h') \<longrightarrow>
     n \<le> length (a_list L a) \<longrightarrow> r = 0 \<and> a_list L a' = take n (a_list L a)
     \<and> a_room L a \<le> a_room L a' \<and> k_owned L h' = k_owned L h)"

definition array_laws :: "('q, 'a, 'h) klib \<Rightarrow> bool" where
  "array_laws L \<longleftrightarrow> array_create_law L \<and> array_access_law L \<and> array_remove_law L
     \<and> array_add_law L \<and> array_preallocate_law L \<and> array_setsize_law L"

definition klib_laws :: "('q, 'a, 'h) klib \<Rightarrow> bool" where
  "klib_laws L \<longleftrightarrow> heap_laws L \<and> queue_laws L \<and> array_laws L"

section \<open>The laws as rules\<close>

lemma kmalloc_spec:
  assumes "heap_laws L" and "kmalloc L n h = (p, h')"
  shows "alloc_spec (k_owned L h) p (k_owned L h')"
proof -
  have "alloc_spec (k_owned L h) (fst (kmalloc L n h)) (k_owned L (snd (kmalloc L n h)))"
    using assms(1) by (simp add: heap_laws_def)
  then show ?thesis using assms(2) by simp
qed

lemma kstrdup_spec:
  assumes "heap_laws L" and "kstrdup L n h = (p, h')"
  shows "alloc_spec (k_owned L h) p (k_owned L h')"
proof -
  have "alloc_spec (k_owned L h) (fst (kstrdup L n h)) (k_owned L (snd (kstrdup L n h)))"
    using assms(1) by (simp add: heap_laws_def)
  then show ?thesis using assms(2) by simp
qed

lemma kfree_owned: "heap_laws L \<Longrightarrow> k_owned L (kfree L p h) = k_owned L h - {p}"
  by (simp add: heap_laws_def)

lemma vop_owned:
  "heap_laws L \<Longrightarrow> k_owned L (VOP_INCREF L v h) = k_owned L h"
  "heap_laws L \<Longrightarrow> k_owned L (VOP_DECREF L v h) = k_owned L h"
  by (simp_all add: heap_laws_def)

lemma q_create_spec:
  assumes "queue_laws L" and "q_create L n h = (r, h')"
  shows "k_owned L h' = k_owned L h" and "r = Some q \<Longrightarrow> q_list L q = []"
proof -
  from assms(1) have "q_create_law L" by (simp add: queue_laws_def)
  with assms(2) show "k_owned L h' = k_owned L h" and "r = Some q \<Longrightarrow> q_list L q = []"
    unfolding q_create_law_def by blast+
qed

lemma q_empty_iff: "queue_laws L \<Longrightarrow> q_empty L q \<longleftrightarrow> q_list L q = []"
  by (simp add: queue_laws_def)

lemma q_remhead_Nil:
  assumes "queue_laws L" and "q_list L q = []"
  shows "q_remhead L q = None"
proof -
  from assms(1) have "q_remhead_law L" by (simp add: queue_laws_def)
  then have "case q_list L q of [] \<Rightarrow> q_remhead L q = None
     | t # ts \<Rightarrow> (\<exists>q'. q_remhead L q = Some (t, q') \<and> q_list L q' = ts \<and> q_room L q \<le> q_room L q')"
    unfolding q_remhead_law_def by blast
  with assms(2) show ?thesis by simp
qed

lemma q_remhead_Cons:
  assumes "queue_laws L" and "q_list L q = t # ts"
  obtains q' where "q_remhead L q = Some (t, q')" "q_list L q' = ts" "q_room L q \<le> q_room L q'"
proof -
  from assms(1) have "q_remhead_law L" by (simp add: queue_laws_def)
  then have "case q_list L q of [] \<Rightarrow> q_remhead L q = None
     | t # ts \<Rightarrow> (\<exists>q'. q_remhead L q = Some (t, q') \<and> q_list L q' = ts \<and> q_room L q \<le> q_room L q')"
    unfolding q_remhead_law_def by blast
  with assms(2) that show thesis by auto
qed

lemma q_addtail_spec:
  assumes "queue_laws L" and "q_addtail L q p h = (r, q', h')"
  shows "k_owned L h' = k_owned L h" and "q_room L q \<le> q_room L q'"
    and "length (q_list L q) < q_room L q \<Longrightarrow> r = 0"
    and "q_list L q' = (if r = 0 then q_list L q @ [p] else q_list L q)"
proof -
  from assms(1) have "q_addtail_law L" by (simp add: queue_laws_def)
  with assms(2) have "k_owned L h' = k_owned L h \<and> q_room L q \<le> q_room L q'
     \<and> (length (q_list L q) < q_room L q \<longrightarrow> r = 0)
     \<and> q_list L q' = (if r = 0 then q_list L q @ [p] else q_list L q)"
    unfolding q_addtail_law_def by blast
  then show "k_owned L h' = k_owned L h" and "q_room L q \<le> q_room L q'"
    and "length (q_list L q) < q_room L q \<Longrightarrow> r = 0"
    and "q_list L q' = (if r = 0 then q_list L q @ [p] else q_list L q)" by simp_all
qed

lemma q_preallocate_spec:
  assumes "queue_laws L" and "q_preallocate L q n h = (r, q', h')"
  shows "k_owned L h' = k_owned L h" and "q_list L q' = q_list L q" and "q_room L q \<le> q_room L q'"
    and "r = 0 \<Longrightarrow> n \<le> int (q_room L q')"
proof -
  from assms(1) have "q_preallocate_law L" by (simp add: queue_laws_def)
  with assms(2) have "k_owned L h' = k_owned L h \<and> q_list L q' = q_list L q
     \<and> q_room L q \<le> q_room L q' \<and> (r = 0 \<longrightarrow> n \<le> int (q_room L q'))"
    unfolding q_preallocate_law_def by blast
  then show "k_owned L h' = k_owned L h" and "q_list L q' = q_list L q" and "q_room L q \<le> q_room L q'"
    and "r = 0 \<Longrightarrow> n \<le> int (q_room L q')" by simp_all
qed

lemma array_getnum_length: "array_laws L \<Longrightarrow> array_getnum L a = int (length (a_list L a))"
  by (simp add: array_laws_def array_access_law_def)

lemma array_getguy_nth:
  "array_laws L \<Longrightarrow> i < length (a_list L a) \<Longrightarrow> array_getguy L a (int i) = a_list L a ! i"
  by (simp add: array_laws_def array_access_law_def)

lemma array_remove_spec:
  assumes "array_laws L" and "i < length (a_list L a)"
  shows "a_list L (array_remove L a (int i)) = take i (a_list L a) @ drop (Suc i) (a_list L a)"
    and "a_room L a \<le> a_room L (array_remove L a (int i))"
  using assms by (simp_all add: array_laws_def array_remove_law_def)

lemma array_create_spec:
  assumes "array_laws L" and "array_create L h = (r, h')"
  shows "k_owned L h' = k_owned L h" and "r = Some a \<Longrightarrow> a_list L a = []"
proof -
  from assms(1) have "array_create_law L" by (simp add: array_laws_def)
  with assms(2) show "k_owned L h' = k_owned L h" and "r = Some a \<Longrightarrow> a_list L a = []"
    unfolding array_create_law_def by blast+
qed

lemma array_add_spec:
  assumes "array_laws L" and "array_add L a p h = (r, a', h')"
  shows "k_owned L h' = k_owned L h" and "a_room L a \<le> a_room L a'"
    and "length (a_list L a) < a_room L a \<Longrightarrow> r = 0"
    and "a_list L a' = (if r = 0 then a_list L a @ [p] else a_list L a)"
proof -
  from assms(1) have "array_add_law L" by (simp add: array_laws_def)
  with assms(2) have "k_owned L h' = k_owned L h \<and> a_room L a \<le> a_room L a'
     \<and> (length (a_list L a) < a_room L a \<longrightarrow> r = 0)
     \<and> a_list L a' = (if r = 0 then a_list L a @ [p] else a_list L a)"
    unfolding array_add_law_def by blast
  then show "k_owned L h' = k_owned L h" and "a_room L a \<le> a_room L a'"
    and "length (a_list L a) < a_room L a \<Longrightarrow> r = 0"
    and "a_list L a' = (if r = 0 then a_list L a @ [p] else a_list L a)" by simp_all
qed

lemma array_preallocate_spec:
  assumes "array_laws L" and "array_preallocate L a n h = (r, a', h')"
  shows "k_owned L h' = k_owned L h" and "a_list L a' = a_list L a" and "a_room L a \<le> a_room L a'"
    and "r = 0 \<Longrightarrow> n \<le> int (a_room L a')"
proof -
  from assms(1) have "array_preallocate_law L" by (simp add: array_laws_def)
  with assms(2) have "k_owned L h' = k_owned L h \<and> a_list L a' = a_list L a
     \<and> a_room L a \<le> a_room L a' \<and> (r = 0 \<longrightarrow> n \<le> int (a_room L a'))"
    unfolding array_preallocate_law_def by blast
  then show "k_owned L h' = k_owned L h" and "a_list L a' = a_list L a" and "a_room L a \<le> a_room L a'"
    and "r = 0 \<Longrightarrow> n \<le> int (a_room L a')" by simp_all
qed

lemma array_setsize_spec:
  assumes "array_laws L" and "array_setsize L a (int n) h = (r, a', h')" and "n \<le> length (a_list L a)"
  shows "r = 0" and "a_list L a' = take n (a_list L a)" and "a_room L a \<le> a_room L a'"
    and "k_owned L h' = k_owned L h"
proof -
  from assms(1) have "array_setsize_law L" by (simp add: array_laws_def)
  with assms(2,3) have "r = 0 \<and> a_list L a' = take n (a_list L a) \<and> a_room L a \<le> a_room L a'
     \<and> k_owned L h' = k_owned L h"
    unfolding array_setsize_law_def by blast
  then show "r = 0" and "a_list L a' = take n (a_list L a)" and "a_room L a \<le> a_room L a'"
    and "k_owned L h' = k_owned L h" by simp_all
qed

section \<open>An instance\<close>

text \<open>
  A library of lists with a fixed supply of memory: the heap is a list of blocks still to hand out
  and the set of blocks in use; queues and arrays grow only by preallocation. It satisfies the laws
  and makes the model executable on concrete inputs.
\<close>

type_synonym lheap = "ptr list \<times> ptr set"
type_synonym lseq = "ptr list \<times> nat"

definition l_alloc :: "lheap \<Rightarrow> ptr \<times> lheap" where
  "l_alloc h = (case fst h of [] \<Rightarrow> (NULL, h)
     | p # ps \<Rightarrow> if p = NULL \<or> p \<in> snd h then (NULL, h) else (p, (ps, insert p (snd h))))"

definition l_add :: "lseq \<Rightarrow> ptr \<Rightarrow> lheap \<Rightarrow> int \<times> lseq \<times> lheap" where
  "l_add a p h = (if length (fst a) < snd a then (0, (fst a @ [p], snd a), h) else (ENOMEM, a, h))"

definition l_prealloc :: "lseq \<Rightarrow> int \<Rightarrow> lheap \<Rightarrow> int \<times> lseq \<times> lheap" where
  "l_prealloc a n h = (0, (fst a, max (snd a) (nat n)), h)"

definition list_klib :: "(lseq, lseq, lheap) klib" where
  "list_klib = \<lparr>kmalloc = (\<lambda>n. l_alloc), kfree = (\<lambda>p h. (fst h, snd h - {p})),
     kstrdup = (\<lambda>n. l_alloc), VOP_INCREF = (\<lambda>v h. h), VOP_DECREF = (\<lambda>v h. h),
     q_create = (\<lambda>n h. (Some ([], nat n), h)), q_preallocate = l_prealloc,
     q_empty = (\<lambda>q. fst q = []), q_addtail = l_add,
     q_remhead = (\<lambda>q. case fst q of [] \<Rightarrow> None | p # ps \<Rightarrow> Some (p, (ps, snd q))),
     q_destroy = (\<lambda>q h. if fst q = [] then Some h else None),
     array_create = (\<lambda>h. (Some ([], 0), h)), array_preallocate = l_prealloc,
     array_getnum = (\<lambda>a. int (length (fst a))), array_getguy = (\<lambda>a i. fst a ! nat i),
     array_setsize = (\<lambda>a n h. if n \<le> int (length (fst a)) then (0, (take (nat n) (fst a), snd a), h)
                              else (ENOMEM, a, h)),
     array_add = l_add,
     array_remove = (\<lambda>a i. (take (nat i) (fst a) @ drop (Suc (nat i)) (fst a), snd a)),
     array_destroy = (\<lambda>a h. h),
     k_owned = snd, q_list = fst, q_room = snd, a_list = fst, a_room = snd\<rparr>"

lemma heap_laws_list_klib: "heap_laws list_klib"
  by (auto simp: heap_laws_def list_klib_def l_alloc_def alloc_spec_def split: list.splits)

lemma queue_laws_list_klib: "queue_laws list_klib"
  by (auto simp: queue_laws_def q_create_law_def q_remhead_law_def q_addtail_law_def
      q_preallocate_law_def list_klib_def l_add_def l_prealloc_def split: list.splits if_splits)

lemma array_laws_list_klib: "array_laws list_klib"
  by (auto simp: array_laws_def array_create_law_def array_access_law_def array_remove_law_def
      array_add_law_def array_preallocate_law_def array_setsize_law_def list_klib_def l_add_def l_prealloc_def split: if_splits)

lemma klib_laws_list_klib: "klib_laws list_klib"
  by (simp add: klib_laws_def heap_laws_list_klib queue_laws_list_klib array_laws_list_klib)

end
