(* ===== verification/Dumbvm.thy ===== *)
theory Dumbvm
  imports Klib
begin

text \<open>
  Address spaces of the "dumb" VM system, \<^verbatim>\<open>kern/mips/dumbvm.c\<close> with \<^verbatim>\<open>kern/include/addrspace.h\<close>:
  kernel page allocation, creation, region definition, loading, activation and copying of address
  spaces. (The fault handler \<open>vm_fault\<close> needs the current thread and is in \<open>Vm_Fault\<close>.)
\<close>

section \<open>State\<close>

record addrspace =
  as_vbase1 :: u32
  as_pbase1 :: u32
  as_npages1 :: u32
  as_vbase2 :: u32
  as_pbase2 :: u32
  as_npages2 :: u32
  as_stackpbase :: u32

text \<open>
  The translation buffer holds pairs of an entry-high and an entry-low word; \<open>addrspaces\<close> is the
  store of \<open>struct addrspace\<close> objects; \<open>kmem\<close> is memory as the kernel addresses it.
\<close>

record 'h vm = ram +
  kheap :: 'h
  tlb :: "nat \<Rightarrow> u32 \<times> u32"
  addrspaces :: "ptr \<rightharpoonup> addrspace"
  kmem :: "u32 \<Rightarrow> byte"

definition DUMBVM_STACKPAGES :: u32 where "DUMBVM_STACKPAGES = 12"

section \<open>Operations\<close>

definition vm_bootstrap :: "('h, 'z) vm_scheme \<Rightarrow> ('h, 'z) vm_scheme" where
  "vm_bootstrap s = s"

definition getppages :: "machine \<Rightarrow> u32 \<Rightarrow> 'z ram_scheme \<Rightarrow> u32 \<times> 'z ram_scheme" where
  "getppages M npages s =
     (let (spl, s1) = splhigh M s;
          (addr, s2) = ram_stealmem M npages s1;
          (_, s3) = splx M spl s2
      in (addr, s3))"

definition alloc_kpages :: "machine \<Rightarrow> s32 \<Rightarrow> 'z ram_scheme \<Rightarrow> u32 \<times> 'z ram_scheme" where
  "alloc_kpages M npages s =
     (let (pa, s1) = getppages M npages s
      in if pa = 0 then (0, s1) else (PADDR_TO_KVADDR M pa, s1))"

definition free_kpages :: "u32 \<Rightarrow> 'z ram_scheme \<Rightarrow> 'z ram_scheme" where
  "free_kpages addr s = s"

definition as_zero :: addrspace where
  "as_zero = \<lparr>as_vbase1 = 0, as_pbase1 = 0, as_npages1 = 0, as_vbase2 = 0, as_pbase2 = 0,
     as_npages2 = 0, as_stackpbase = 0\<rparr>"

definition as_create :: "('q, 'a, 'h) klib \<Rightarrow> ('h, 'z) vm_scheme \<Rightarrow> ptr \<times> ('h, 'z) vm_scheme" where
  "as_create L s =
     (let (p, h) = kmalloc L 28 (kheap s)
      in if p = NULL then (NULL, s\<lparr>kheap := h\<rparr>)
         else (p, s\<lparr>kheap := h, addrspaces := (addrspaces s)(p \<mapsto> as_zero)\<rparr>))"

definition as_destroy :: "('q, 'a, 'h) klib \<Rightarrow> ptr \<Rightarrow> ('h, 'z) vm_scheme \<Rightarrow> ('h, 'z) vm_scheme" where
  "as_destroy L p s = s\<lparr>kheap := kfree L p (kheap s), addrspaces := (addrspaces s)(p := None)\<rparr>"

text \<open>\<open>TLB_Write\<close> and \<open>TLB_Read\<close> of \<^verbatim>\<open>tlb_mips1.S\<close>: the entry of one slot.\<close>

definition TLB_Write :: "u32 \<Rightarrow> u32 \<Rightarrow> nat \<Rightarrow> ('h, 'z) vm_scheme \<Rightarrow> ('h, 'z) vm_scheme" where
  "TLB_Write ehi elo i s = s\<lparr>tlb := (tlb s)(i := (ehi, elo))\<rparr>"

definition TLB_Read :: "nat \<Rightarrow> ('h, 'z) vm_scheme \<Rightarrow> u32 \<times> u32" where
  "TLB_Read i s = tlb s i"

definition as_activate :: "machine \<Rightarrow> ptr \<Rightarrow> ('h, 'z) vm_scheme \<Rightarrow> ('h, 'z) vm_scheme" where
  "as_activate M p s =
     (let (spl, s1) = splhigh M s;
          s2 = fold (\<lambda>i. TLB_Write (TLBHI_INVALID M i) (TLBLO_INVALID M) i) [0..<NUM_TLB M] s1
      in snd (splx M spl s2))"

text \<open>The page-aligned base and the number of pages of a region.\<close>

definition region_pages :: "machine \<Rightarrow> u32 \<Rightarrow> u32 \<Rightarrow> u32 \<times> u32" where
  "region_pages M vaddr sz =
     (let sz1 = sz + (vaddr AND NOT (PAGE_FRAME M));
          vaddr1 = vaddr AND PAGE_FRAME M;
          sz2 = (sz1 + PAGE_SIZE M - 1) AND PAGE_FRAME M
      in (vaddr1, sz2 div PAGE_SIZE M))"

definition as_define_region ::
  "machine \<Rightarrow> ptr \<Rightarrow> u32 \<Rightarrow> u32 \<Rightarrow> ('h, 'z) vm_scheme \<Rightarrow> (int \<times> ('h, 'z) vm_scheme) run" where
  "as_define_region M p vaddr sz s =
     deref (addrspaces s) p ''as'' (\<lambda>as.
       let (vaddr1, npages) = region_pages M vaddr sz
       in if as_vbase1 as = 0 then
            Inr (0, s\<lparr>addrspaces := (addrspaces s)(p \<mapsto> as\<lparr>as_vbase1 := vaddr1, as_npages1 := npages\<rparr>)\<rparr>)
          else if as_vbase2 as = 0 then
            Inr (0, s\<lparr>addrspaces := (addrspaces s)(p \<mapsto> as\<lparr>as_vbase2 := vaddr1, as_npages2 := npages\<rparr>)\<rparr>)
          else Inr (EUNIMP, s))"

definition as_prepare_load ::
  "machine \<Rightarrow> ptr \<Rightarrow> ('h, 'z) vm_scheme \<Rightarrow> (int \<times> ('h, 'z) vm_scheme) run" where
  "as_prepare_load M p s =
     deref (addrspaces s) p ''as'' (\<lambda>as.
       kassert (as_pbase1 as = 0) ''as_pbase1 == 0'' (
       kassert (as_pbase2 as = 0) ''as_pbase2 == 0'' (
       kassert (as_stackpbase as = 0) ''as_stackpbase == 0'' (
       let (p1, s1) = getppages M (as_npages1 as) s;
           as1 = as\<lparr>as_pbase1 := p1\<rparr>;
           s1' = s1\<lparr>addrspaces := (addrspaces s1)(p \<mapsto> as1)\<rparr>
       in if p1 = 0 then Inr (ENOMEM, s1') else
       let (p2, s2) = getppages M (as_npages2 as1) s1';
           as2 = as1\<lparr>as_pbase2 := p2\<rparr>;
           s2' = s2\<lparr>addrspaces := (addrspaces s2)(p \<mapsto> as2)\<rparr>
       in if p2 = 0 then Inr (ENOMEM, s2') else
       let (p3, s3) = getppages M DUMBVM_STACKPAGES s2';
           s3' = s3\<lparr>addrspaces := (addrspaces s3)(p \<mapsto> as2\<lparr>as_stackpbase := p3\<rparr>)\<rparr>
       in if p3 = 0 then Inr (ENOMEM, s3') else Inr (0, s3')))))"

definition as_complete_load :: "ptr \<Rightarrow> ('h, 'z) vm_scheme \<Rightarrow> int \<times> ('h, 'z) vm_scheme" where
  "as_complete_load p s = (0, s)"

text \<open>Returns the error code and the initial stack pointer.\<close>

definition as_define_stack ::
  "machine \<Rightarrow> ptr \<Rightarrow> ('h, 'z) vm_scheme \<Rightarrow> ((int \<times> u32) \<times> ('h, 'z) vm_scheme) run" where
  "as_define_stack M p s =
     deref (addrspaces s) p ''as'' (\<lambda>as.
       kassert (as_stackpbase as \<noteq> 0) ''as_stackpbase != 0'' (Inr ((0, USERSTACK M), s)))"

text \<open>\<open>memmove\<close> of the C library, on memory as a function of addresses.\<close>

definition memmove :: "u32 \<Rightarrow> u32 \<Rightarrow> u32 \<Rightarrow> (u32 \<Rightarrow> byte) \<Rightarrow> (u32 \<Rightarrow> byte)" where
  "memmove dst src n m = (\<lambda>a. if a - dst < n then m (src + (a - dst)) else m a)"

text \<open>Returns the error code and, on success, the new address space.\<close>

definition as_copy ::
  "('q, 'a, 'h) klib \<Rightarrow> machine \<Rightarrow> ptr \<Rightarrow> ('h, 'z) vm_scheme
     \<Rightarrow> ((int \<times> ptr option) \<times> ('h, 'z) vm_scheme) run" where
  "as_copy L M oldp s =
     (let (newp, s1) = as_create L s
      in if newp = NULL then Inr ((ENOMEM, None), s1) else
      deref (addrspaces s1) oldp ''old'' (\<lambda>old.
      deref (addrspaces s1) newp ''new'' (\<lambda>new0.
      let new1 = new0\<lparr>as_vbase1 := as_vbase1 old, as_npages1 := as_npages1 old,
                      as_vbase2 := as_vbase2 old, as_npages2 := as_npages2 old\<rparr>;
          s2 = s1\<lparr>addrspaces := (addrspaces s1)(newp \<mapsto> new1)\<rparr>
      in bnd (as_prepare_load M newp s2) (\<lambda>(r, s3).
         if r \<noteq> 0 then Inr ((ENOMEM, None), as_destroy L newp s3) else
         deref (addrspaces s3) newp ''new'' (\<lambda>new.
         kassert (as_pbase1 new \<noteq> 0) ''as_pbase1 != 0'' (
         kassert (as_pbase2 new \<noteq> 0) ''as_pbase2 != 0'' (
         kassert (as_stackpbase new \<noteq> 0) ''as_stackpbase != 0'' (
         let kv = PADDR_TO_KVADDR M;
             m1 = memmove (kv (as_pbase1 new)) (kv (as_pbase1 old)) (as_npages1 old * PAGE_SIZE M) (kmem s3);
             m2 = memmove (kv (as_pbase2 new)) (kv (as_pbase2 old)) (as_npages2 old * PAGE_SIZE M) m1;
             m3 = memmove (kv (as_stackpbase new)) (kv (as_stackpbase old)) (DUMBVM_STACKPAGES * PAGE_SIZE M) m2
         in Inr ((0, Some newp), s3\<lparr>kmem := m3\<rparr>)))))))))"

section \<open>Kernel pages\<close>

lemma snd_splx_ram_stealmem:
  "snd (splx M n (snd (ram_stealmem M k t))) = snd (ram_stealmem M k (snd (splx M n t)))"
  by (simp add: splx_eq ram_stealmem_def Let_def interrupts_on_def interrupts_off_def)

lemma fst_ram_stealmem_splhigh: "fst (ram_stealmem M k (snd (splhigh M s))) = fst (ram_stealmem M k s)"
  by (simp add: splhigh_def splx_eq ram_stealmem_def Let_def interrupts_on_def interrupts_off_def)

lemma getppages_stealmem:
  assumes "spl_consts M" and "spl_ok M s"
  shows "getppages M n s = ram_stealmem M n s"
proof -
  have "snd (splx M (curspl s) (snd (ram_stealmem M n (snd (splhigh M s))))) = snd (ram_stealmem M n s)"
    using spl.bracket_body [where s = s and f = "\<lambda>t. snd (ram_stealmem M n t)" and M = M] assms
    by (simp add: snd_splx_ram_stealmem)
  moreover note fst_ram_stealmem_splhigh [of M n s]
  ultimately show ?thesis
    by (simp add: getppages_def split_beta Let_def prod_eq_iff)
qed

lemma spl_ok_ram_stealmem: "spl_ok M (snd (ram_stealmem M n s)) = spl_ok M s"
  by (simp add: ram_stealmem_def Let_def spl_ok_def irqs_enabled_def)

interpretation kpages: page_source "getppages M" "\<lambda>s. unat (firstpaddr s)"
  "\<lambda>s. unat (lastpaddr s)" "unat (PAGE_SIZE M)"
  "\<lambda>s. ram_ok M s \<and> spl_consts M \<and> spl_ok M s" "small_request M" for M
  by unfold_locales
    (simp_all add: getppages_stealmem stealmem.grab_inv stealmem.grab_hi stealmem.grab_refused
      stealmem.grab_granted spl_ok_ram_stealmem, metis stealmem.grab_granted)

text \<open>
  Kernel pages handed out by \<open>getppages\<close> (and so by \<open>alloc_kpages\<close> and \<open>as_prepare_load\<close>) in any
  sequence of calls never overlap and stay inside the physical memory that was free; the interrupt
  level is unchanged at the end of every call.
\<close>

theorem getppages_disjoint:
  assumes "ram_ok M s" and "spl_consts M" and "spl_ok M s" and "\<forall>n \<in> set ns. small_request M n"
  shows "regions_disjoint (unat (PAGE_SIZE M)) (fst (grab_all (getppages M) ns s))
    \<and> (\<forall>r \<in> set (fst (grab_all (getppages M) ns s)).
         page_region (unat (PAGE_SIZE M)) r \<subseteq> {unat (firstpaddr s) ..< unat (lastpaddr s)})
    \<and> (\<forall>n. curspl (snd (getppages M n s)) = curspl s)"
proof -
  have "curspl (snd (getppages M n s)) = curspl s" for n
    using assms(2,3) by (simp add: getppages_stealmem) (simp add: ram_stealmem_def Let_def)
  then show ?thesis
    using kpages.grab_all_regions [of M s ns] assms by simp
qed

theorem getppages_disjoint_witness:
  "regions_disjoint 4096 (fst (grab_all (getppages sys161) [1, 2] ram_example))
   \<and> fst (grab_all (getppages sys161) [1, 2] ram_example) = [(0x30000, 1), (0x31000, 2)]"
proof -
  have "ram_ok sys161 ram_example" "spl_ok sys161 ram_example" "\<forall>n \<in> set [1, 2]. small_request sys161 n"
    by (simp_all add: ram_ok_def sys161_def ram_example_def ram_limit_def small_request_def
        spl_ok_def irqs_enabled_def)
  note h = this
  have "fst (grab_all (getppages sys161) [1, 2] ram_example) = [(0x30000, 1), (0x31000, 2)]"
    by (simp add: getppages_def splhigh_def splx_eq ram_stealmem_def interrupts_off_def
        sys161_def ram_example_def)
  with getppages_disjoint [OF h(1) spl_consts_sys161 h(2,3)] show ?thesis
    by (simp add: sys161_def)
qed

section \<open>Regions\<close>

lemma region_pages_nat:
  assumes "page_consts M k" and "unat vaddr + unat sz + 2 ^ k \<le> 2 ^ 32"
  shows "unat (fst (region_pages M vaddr sz)) = unat vaddr - unat vaddr mod 2 ^ k"
    and "unat (snd (region_pages M vaddr sz)) = (unat sz + unat vaddr mod 2 ^ k + 2 ^ k - 1) div 2 ^ k"
proof -
  from assms(1) have k: "k < 32" and ps: "PAGE_SIZE M = 2 ^ k" and pf: "PAGE_FRAME M = NOT (mask k)"
    by (auto simp: page_consts_def)
  have ups: "unat (2 ^ k :: u32) = 2 ^ k"
    using k by (rule unat_two_power)
  show "unat (fst (region_pages M vaddr sz)) = unat vaddr - unat vaddr mod 2 ^ k"
    by (simp add: region_pages_def Let_def pf unat_and_not_mask)
  let ?t = "sz + (vaddr AND mask k) + 2 ^ k - 1"
  have le: "unat sz + unat vaddr mod 2 ^ k + 2 ^ k \<le> 2 ^ 32"
    using assms(2) mod_less_eq_dividend [of "unat vaddr" "2 ^ k"] by linarith
  moreover have "0 < (2 :: nat) ^ k" by simp
  ultimately have "unat sz + unat vaddr mod 2 ^ k < 2 ^ 32" by linarith
  then have a: "unat (sz + (vaddr AND mask k)) = unat sz + unat vaddr mod 2 ^ k"
    by (subst unat_add_no_wrap) (simp_all add: unat_and_mask)
  have b: "unat (2 ^ k - 1 :: u32) = 2 ^ k - 1"
    using k by (simp add: unat_sub ups word_le_nat_alt)
  have eq: "?t = sz + (vaddr AND mask k) + (2 ^ k - 1)" by (simp add: algebra_simps)
  have "unat (sz + (vaddr AND mask k)) + unat (2 ^ k - 1 :: u32) < 2 ^ 32"
    using le unfolding a b by (simp add: less_eq_Suc_le)
  then have t: "unat ?t = unat sz + unat vaddr mod 2 ^ k + 2 ^ k - 1"
    unfolding eq by (subst unat_add_no_wrap) (simp_all add: a b)
  show "unat (snd (region_pages M vaddr sz)) = (unat sz + unat vaddr mod 2 ^ k + 2 ^ k - 1) div 2 ^ k"
  proof -
    have "unat (snd (region_pages M vaddr sz)) = (unat ?t - unat ?t mod 2 ^ k) div 2 ^ k"
      by (simp add: region_pages_def Let_def pf ps unat_div unat_and_not_mask ups)
    then show ?thesis by (simp only: minus_mod_eq_div_mult t) simp
  qed
qed

text \<open>
  \<open>as_define_region\<close> records, for a request that does not run past the end of the address space, a
  page-aligned region that contains every byte asked for and is less than two pages longer than the
  request: it starts on the page of \<open>vaddr\<close> and ends on the page of the last byte.
\<close>

theorem as_define_region_covers:
  assumes "page_consts M k" and "unat vaddr + unat sz + 2 ^ k \<le> 2 ^ 32"
    and "addrspaces s p = Some as" and "as_vbase1 as = 0"
  shows "\<exists>s' as'. as_define_region M p vaddr sz s = Inr (0, s') \<and> addrspaces s' p = Some as'
    \<and> as_vbase1 as' AND PAGE_FRAME M = as_vbase1 as'
    \<and> unat (as_vbase1 as') \<le> unat vaddr \<and> unat vaddr < unat (as_vbase1 as') + 2 ^ k
    \<and> unat vaddr + unat sz \<le> unat (as_vbase1 as') + unat (as_npages1 as') * 2 ^ k
    \<and> unat (as_vbase1 as') + unat (as_npages1 as') * 2 ^ k < unat vaddr + unat sz + 2 ^ k"
proof -
  let ?v = "fst (region_pages M vaddr sz)" and ?n = "snd (region_pages M vaddr sz)"
  let ?as = "as\<lparr>as_vbase1 := ?v, as_npages1 := ?n\<rparr>"
  let ?s = "s\<lparr>addrspaces := (addrspaces s)(p \<mapsto> ?as)\<rparr>"
  note nat = region_pages_nat [OF assms(1,2)]
  have "as_define_region M p vaddr sz s = Inr (0, ?s)"
    using assms(3,4) by (simp add: as_define_region_def split_beta Let_def)
  moreover have "addrspaces ?s p = Some ?as" by simp
  moreover have "?v AND PAGE_FRAME M = ?v"
    using assms(1) by (simp add: region_pages_def Let_def page_consts_def)
  moreover have ml: "unat vaddr mod 2 ^ k < 2 ^ k" by simp
  moreover have "unat ?v \<le> unat vaddr" "unat vaddr < unat ?v + 2 ^ k"
    unfolding nat using ml mod_less_eq_dividend [of "unat vaddr" "2 ^ k"] by - linarith+
  moreover have "unat vaddr + unat sz \<le> unat ?v + unat ?n * 2 ^ k"
    "unat ?v + unat ?n * 2 ^ k < unat vaddr + unat sz + 2 ^ k"
    unfolding nat by (rule page_round_up_nat)+
  ultimately show ?thesis
    by (intro exI [of _ ?s] exI [of _ ?as]) simp
qed

definition vm_example :: "lheap vm" where
  "vm_example = \<lparr>c0_status = 0, curspl = 15, firstfree = 0, firstpaddr = 0x30000, lastpaddr = 0x80000,
     kheap = ([0x80010000, 0x80010020], {0x80010040}), tlb = (\<lambda>i. (0, 0)),
     addrspaces = [0x80010040 \<mapsto> \<lparr>as_vbase1 = 0x400000, as_pbase1 = 0x10000, as_npages1 = 2,
        as_vbase2 = 0x10000000, as_pbase2 = 0x12000, as_npages2 = 1, as_stackpbase = 0x13000\<rparr>],
     kmem = (\<lambda>a. ucast a)\<rparr>"

theorem as_define_region_covers_witness:
  "\<exists>s' as'. as_define_region sys161 64 0x400abc 0x2000
      (vm_example\<lparr>addrspaces := [64 \<mapsto> as_zero]\<rparr>) = Inr (0, s') \<and> addrspaces s' 64 = Some as'
    \<and> unat (as_vbase1 as') \<le> 0x400abc \<and> 0x402abc \<le> unat (as_vbase1 as') + unat (as_npages1 as') * 4096"
  using as_define_region_covers [OF page_consts_sys161, of "0x400abc" "0x2000"
      "vm_example\<lparr>addrspaces := [64 \<mapsto> as_zero]\<rparr>" 64 as_zero]
  by (simp add: as_zero_def) blast

section \<open>Loading and copying\<close>

definition mem_ok :: "machine \<Rightarrow> 'z ram_scheme \<Rightarrow> bool" where
  "mem_ok M s \<longleftrightarrow> spl_consts M \<and> spl_ok M s \<and> ram_ok M s"

lemma mem_ok_addrspaces [simp]: "mem_ok M (s\<lparr>addrspaces := x\<rparr>) = mem_ok M s"
  by (simp add: mem_ok_def spl_ok_def irqs_enabled_def ram_ok_def)

lemma mem_ok_kheap [simp]: "mem_ok M (s\<lparr>kheap := x\<rparr>) = mem_ok M s"
  by (simp add: mem_ok_def spl_ok_def irqs_enabled_def ram_ok_def)

lemma mem_ok_addrspaces_firstpaddr [simp]:
  "mem_ok M (s\<lparr>addrspaces := x, firstpaddr := y\<rparr>) = mem_ok M (s\<lparr>firstpaddr := y\<rparr>)"
  by (simp add: mem_ok_def spl_ok_def irqs_enabled_def ram_ok_def)

lemma getppages_granted:
  assumes "mem_ok M s" and "small_request M n"
    and "unat (firstpaddr s) + unat n * unat (PAGE_SIZE M) \<le> unat (lastpaddr s)"
  shows "getppages M n s = (firstpaddr s, s\<lparr>firstpaddr := firstpaddr s + n * PAGE_SIZE M\<rparr>)"
    and "unat (firstpaddr s + n * PAGE_SIZE M) = unat (firstpaddr s) + unat n * unat (PAGE_SIZE M)"
    and "mem_ok M (s\<lparr>firstpaddr := firstpaddr s + n * PAGE_SIZE M\<rparr>)"
    and "firstpaddr s \<noteq> 0"
proof -
  from assms(1) have m: "spl_consts M" "spl_ok M s" "ram_ok M s" by (auto simp: mem_ok_def)
  note c = ram_stealmem_cases [OF m(3) assms(2)]
  show 1: "getppages M n s = (firstpaddr s, s\<lparr>firstpaddr := firstpaddr s + n * PAGE_SIZE M\<rparr>)"
    using m assms(3) by (simp add: getppages_stealmem c(1))
  show "unat (firstpaddr s + n * PAGE_SIZE M) = unat (firstpaddr s) + unat n * unat (PAGE_SIZE M)"
    by (rule c(2))
  show "mem_ok M (s\<lparr>firstpaddr := firstpaddr s + n * PAGE_SIZE M\<rparr>)"
    using kpages.grab_inv [of M s n] m assms(2) 1 by (simp add: mem_ok_def)
  show "firstpaddr s \<noteq> 0" using m(3) by (auto simp: ram_ok_def)
qed

text \<open>The physical addresses a load assigns, one region after the other from the first free page.\<close>

definition load_p2 :: "machine \<Rightarrow> addrspace \<Rightarrow> 'z ram_scheme \<Rightarrow> u32" where
  "load_p2 M as s = firstpaddr s + as_npages1 as * PAGE_SIZE M"

definition load_p3 :: "machine \<Rightarrow> addrspace \<Rightarrow> 'z ram_scheme \<Rightarrow> u32" where
  "load_p3 M as s = load_p2 M as s + as_npages2 as * PAGE_SIZE M"

definition load_fits :: "machine \<Rightarrow> addrspace \<Rightarrow> 'z ram_scheme \<Rightarrow> bool" where
  "load_fits M as s \<longleftrightarrow> small_request M (as_npages1 as) \<and> small_request M (as_npages2 as)
     \<and> small_request M DUMBVM_STACKPAGES
     \<and> unat (firstpaddr s) + (unat (as_npages1 as) + unat (as_npages2 as) + 12) * unat (PAGE_SIZE M)
         \<le> unat (lastpaddr s)"

lemma as_prepare_load_fits:
  assumes m: "mem_ok M s" and as: "addrspaces s p = Some as"
    and z: "as_pbase1 as = 0" "as_pbase2 as = 0" "as_stackpbase as = 0" and f: "load_fits M as s"
  shows "as_prepare_load M p s = Inr (0, s\<lparr>firstpaddr := load_p3 M as s + DUMBVM_STACKPAGES * PAGE_SIZE M,
      addrspaces := (addrspaces s)(p \<mapsto> as\<lparr>as_pbase1 := firstpaddr s, as_pbase2 := load_p2 M as s,
        as_stackpbase := load_p3 M as s\<rparr>)\<rparr>)"
    and "unat (load_p2 M as s) = unat (firstpaddr s) + unat (as_npages1 as) * unat (PAGE_SIZE M)"
    and "unat (load_p3 M as s) = unat (load_p2 M as s) + unat (as_npages2 as) * unat (PAGE_SIZE M)"
proof -
  let ?P = "unat (PAGE_SIZE M)"
  have req: "small_request M (as_npages1 as)" "small_request M (as_npages2 as)"
      "small_request M DUMBVM_STACKPAGES"
    and le: "unat (firstpaddr s) + unat (as_npages1 as) * ?P + unat (as_npages2 as) * ?P + 12 * ?P
        \<le> unat (lastpaddr s)"
    using f by (auto simp: load_fits_def algebra_simps)
  have u12: "unat DUMBVM_STACKPAGES = 12" by (simp add: DUMBVM_STACKPAGES_def)
  have l1: "unat (firstpaddr s) + unat (as_npages1 as) * ?P \<le> unat (lastpaddr s)" using le by linarith
  note g1 = getppages_granted [OF m req(1) l1, folded load_p2_def]
  let ?s1 = "s\<lparr>firstpaddr := load_p2 M as s, addrspaces := (addrspaces s)(p \<mapsto> as\<lparr>as_pbase1 := firstpaddr s\<rparr>)\<rparr>"
  have m1: "mem_ok M ?s1" using g1(3) by simp
  have l2: "unat (firstpaddr ?s1) + unat (as_npages2 as) * ?P \<le> unat (lastpaddr ?s1)"
    using le by (simp add: g1(2))
  note g2 = getppages_granted [OF m1 req(2) l2, simplified, folded load_p3_def]
  let ?s2 = "?s1\<lparr>firstpaddr := load_p3 M as s,
     addrspaces := (addrspaces s)(p \<mapsto> as\<lparr>as_pbase1 := firstpaddr s, as_pbase2 := load_p2 M as s\<rparr>)\<rparr>"
  have m2: "mem_ok M ?s2" using g2(3) by simp
  have l3: "unat (firstpaddr ?s2) + unat DUMBVM_STACKPAGES * ?P \<le> unat (lastpaddr ?s2)"
    using le by (simp add: g1(2) g2(2) u12)
  note g3 = getppages_granted [OF m2 req(3) l3, simplified]
  show "unat (load_p2 M as s) = unat (firstpaddr s) + unat (as_npages1 as) * ?P" by (rule g1(2))
  show "unat (load_p3 M as s) = unat (load_p2 M as s) + unat (as_npages2 as) * ?P" by (rule g2(2))
  show "as_prepare_load M p s = Inr (0, s\<lparr>firstpaddr := load_p3 M as s + DUMBVM_STACKPAGES * PAGE_SIZE M,
      addrspaces := (addrspaces s)(p \<mapsto> as\<lparr>as_pbase1 := firstpaddr s, as_pbase2 := load_p2 M as s,
        as_stackpbase := load_p3 M as s\<rparr>)\<rparr>)"
    using as z g1(4) g2(4) g3(4) by (simp add: as_prepare_load_def g1(1) g2(1) g3(1))
qed

lemma memmove_kv:
  assumes "kseg_consts M"
  shows "memmove (PADDR_TO_KVADDR M p) (PADDR_TO_KVADDR M q) n m (PADDR_TO_KVADDR M x) =
    (if x - p < n then m (PADDR_TO_KVADDR M (q + (x - p))) else m (PADDR_TO_KVADDR M x))"
  using assms by (simp add: memmove_def kseg_consts_def algebra_simps)

lemma outside_block:
  fixes x p n :: u32
  assumes "unat p + unat n \<le> 2 ^ 32"
    and "unat x < unat p \<or> unat p + unat n \<le> unat x"
  shows "\<not> x - p < n"
  using assms u32_bound [of p] u32_bound [of x] by (auto simp: word_less_nat_alt unat_sub_if')

lemma inside_block: "(p + i) - p < n \<longleftrightarrow> i < (n :: u32)"
  by simp

text \<open>Where the three physical blocks of an address space are, as (address, bytes).\<close>

definition as_blocks :: "machine \<Rightarrow> addrspace \<Rightarrow> (u32 \<times> u32) list" where
  "as_blocks M as = [(as_pbase1 as, as_npages1 as * PAGE_SIZE M), (as_pbase2 as, as_npages2 as * PAGE_SIZE M),
     (as_stackpbase as, DUMBVM_STACKPAGES * PAGE_SIZE M)]"

text \<open>The blocks were allocated earlier: they end below the first free physical address.\<close>

definition as_placed :: "machine \<Rightarrow> addrspace \<Rightarrow> 'z ram_scheme \<Rightarrow> bool" where
  "as_placed M as s \<longleftrightarrow> (\<forall>b \<in> set (as_blocks M as). unat (fst b) + unat (snd b) \<le> unat (firstpaddr s))"

text \<open>Block \<open>b'\<close> of memory \<open>m'\<close> holds what block \<open>b\<close> of memory \<open>m\<close> holds.\<close>

definition same_block :: "machine \<Rightarrow> (u32 \<Rightarrow> byte) \<Rightarrow> u32 \<times> u32 \<Rightarrow> (u32 \<Rightarrow> byte) \<Rightarrow> u32 \<times> u32 \<Rightarrow> bool" where
  "same_block M m b m' b' \<longleftrightarrow> snd b' = snd b \<and>
     (\<forall>i < snd b. m' (PADDR_TO_KVADDR M (fst b' + i)) = m (PADDR_TO_KVADDR M (fst b + i)))"

lemma same_block_memmove:
  assumes "kseg_consts M"
  shows "same_block M m (q, n) (memmove (PADDR_TO_KVADDR M p) (PADDR_TO_KVADDR M q) n m) (p, n)"
  using assms by (simp add: same_block_def memmove_kv)

text \<open>A copy into \<open>(p, n)\<close> leaves a block that ends before it, or starts after it, as it was.\<close>

lemma same_block_memmove_other:
  assumes k: "kseg_consts M" and fit: "unat p + unat n \<le> 2 ^ 32" "unat (fst b) + unat (snd b) \<le> 2 ^ 32"
    and sep: "unat (fst b) + unat (snd b) \<le> unat p \<or> unat p + unat n \<le> unat (fst b)"
  shows "same_block M m b (memmove (PADDR_TO_KVADDR M p) q n m) b"
proof -
  have "\<not> (fst b + i) - p < n" if "i < snd b" for i
  proof (rule outside_block)
    have "unat i < unat (snd b)" using that by (simp add: word_less_nat_alt)
    then have "unat (fst b + i) = unat (fst b) + unat i"
      using fit(2) by (intro unat_add_no_wrap) linarith
    with sep \<open>unat i < unat (snd b)\<close>
    show "unat (fst b + i) < unat p \<or> unat p + unat n \<le> unat (fst b + i)" by linarith
  qed (rule fit(1))
  then show ?thesis
    using k by (simp add: same_block_def memmove_def kseg_consts_def algebra_simps)
qed

lemma same_block_trans:
  "same_block M m b m1 b1 \<Longrightarrow> same_block M m1 b1 m2 b2 \<Longrightarrow> same_block M m b m2 b2"
  by (simp add: same_block_def)

lemma copy_three_blocks:
  assumes k: "kseg_consts M" and F: "F \<le> 2 ^ 32"
    and old: "unat (fst b1) + unat (snd b1) \<le> F" "unat (fst b2) + unat (snd b2) \<le> F"
      "unat (fst b3) + unat (snd b3) \<le> F"
    and new: "F \<le> unat p1" "unat p1 + unat (snd b1) \<le> unat p2" "unat p2 + unat (snd b2) \<le> unat p3"
      "unat p3 + unat (snd b3) \<le> 2 ^ 32"
    and m1: "m1 = memmove (PADDR_TO_KVADDR M p1) (PADDR_TO_KVADDR M (fst b1)) (snd b1) m"
    and m2: "m2 = memmove (PADDR_TO_KVADDR M p2) (PADDR_TO_KVADDR M (fst b2)) (snd b2) m1"
    and m3: "m3 = memmove (PADDR_TO_KVADDR M p3) (PADDR_TO_KVADDR M (fst b3)) (snd b3) m2"
  shows "same_block M m b1 m3 (p1, snd b1)" "same_block M m b2 m3 (p2, snd b2)"
    "same_block M m b3 m3 (p3, snd b3)"
    "b \<in> {b1, b2, b3} \<Longrightarrow> same_block M m b m3 b"
proof -
  have o1: "same_block M m b m1 b" if "b \<in> {b1, b2, b3}" for b
    unfolding m1 by (rule same_block_memmove_other) (use that k F old new in auto)
  have o2: "same_block M m1 b m2 b" if "b \<in> {b1, b2, b3, (p1, snd b1)}" for b
    unfolding m2 by (rule same_block_memmove_other) (use that k F old new in auto)
  have o3: "same_block M m2 b m3 b" if "b \<in> {b1, b2, b3, (p1, snd b1), (p2, snd b2)}" for b
    unfolding m3 by (rule same_block_memmove_other) (use that k F old new in auto)
  have c1: "same_block M m b1 m1 (p1, snd b1)"
    unfolding m1 using same_block_memmove [OF k, of m "fst b1" "snd b1"] by simp
  have c2: "same_block M m1 b2 m2 (p2, snd b2)"
    unfolding m2 using same_block_memmove [OF k, of m1 "fst b2" "snd b2"] by simp
  have c3: "same_block M m2 b3 m3 (p3, snd b3)"
    unfolding m3 using same_block_memmove [OF k, of m2 "fst b3" "snd b3"] by simp
  show "same_block M m b1 m3 (p1, snd b1)"
    by (rule same_block_trans [OF c1 same_block_trans [OF o2 o3]]) simp_all
  show "same_block M m b2 m3 (p2, snd b2)"
    by (rule same_block_trans [OF o1 same_block_trans [OF c2 o3]]) simp_all
  show "same_block M m b3 m3 (p3, snd b3)"
    by (rule same_block_trans [OF o1 same_block_trans [OF o2 c3]]) simp_all
  show "same_block M m b m3 b" if "b \<in> {b1, b2, b3}"
    by (rule same_block_trans [OF o1 same_block_trans [OF o2 o3]]) (use that in auto)
qed

lemma small_request_bytes:
  "small_request M n \<Longrightarrow> unat (n * PAGE_SIZE M) = unat n * unat (PAGE_SIZE M)"
  by (rule unat_mult_no_wrap) (simp add: small_request_def)

text \<open>The state after a successful copy: what \<open>as_copy\<close> computes when memory suffices.\<close>

definition copied_as :: "machine \<Rightarrow> addrspace \<Rightarrow> 'z ram_scheme \<Rightarrow> addrspace" where
  "copied_as M old s = old\<lparr>as_pbase1 := firstpaddr s, as_pbase2 := load_p2 M old s,
     as_stackpbase := load_p3 M old s\<rparr>"

definition copied_mem :: "machine \<Rightarrow> addrspace \<Rightarrow> addrspace \<Rightarrow> (u32 \<Rightarrow> byte) \<Rightarrow> (u32 \<Rightarrow> byte)" where
  "copied_mem M old new m =
     (let kv = PADDR_TO_KVADDR M
      in memmove (kv (as_stackpbase new)) (kv (as_stackpbase old)) (DUMBVM_STACKPAGES * PAGE_SIZE M)
         (memmove (kv (as_pbase2 new)) (kv (as_pbase2 old)) (as_npages2 old * PAGE_SIZE M)
         (memmove (kv (as_pbase1 new)) (kv (as_pbase1 old)) (as_npages1 old * PAGE_SIZE M) m)))"

lemma load_addresses:
  assumes "mem_ok M s" and "load_fits M as s"
  shows "unat (load_p2 M as s) = unat (firstpaddr s) + unat (as_npages1 as * PAGE_SIZE M)"
    and "unat (load_p3 M as s) = unat (load_p2 M as s) + unat (as_npages2 as * PAGE_SIZE M)"
    and "unat (load_p3 M as s) + unat (DUMBVM_STACKPAGES * PAGE_SIZE M) \<le> unat (lastpaddr s)"
    and "firstpaddr s \<noteq> 0" and "load_p2 M as s \<noteq> 0" and "load_p3 M as s \<noteq> 0"
proof -
  from assms(2) have req: "small_request M (as_npages1 as)" "small_request M (as_npages2 as)"
      "small_request M DUMBVM_STACKPAGES"
    and tot: "unat (firstpaddr s) + (unat (as_npages1 as) + unat (as_npages2 as) + 12) * unat (PAGE_SIZE M)
         \<le> unat (lastpaddr s)" by (auto simp: load_fits_def)
  note b = small_request_bytes [OF req(1)] small_request_bytes [OF req(2)] small_request_bytes [OF req(3)]
  have u: "unat (as_npages1 as * PAGE_SIZE M) + unat (as_npages2 as * PAGE_SIZE M)
      + unat (DUMBVM_STACKPAGES * PAGE_SIZE M) + unat (firstpaddr s) \<le> unat (lastpaddr s)"
  proof -
    have "unat DUMBVM_STACKPAGES = 12" by (simp add: DUMBVM_STACKPAGES_def)
    with tot show ?thesis by (simp add: b algebra_simps)
  qed
  show p2: "unat (load_p2 M as s) = unat (firstpaddr s) + unat (as_npages1 as * PAGE_SIZE M)"
    unfolding load_p2_def using u u32_bound [of "lastpaddr s"] by (intro unat_add_no_wrap) linarith
  then show p3: "unat (load_p3 M as s) = unat (load_p2 M as s) + unat (as_npages2 as * PAGE_SIZE M)"
    unfolding load_p3_def using u u32_bound [of "lastpaddr s"] by (intro unat_add_no_wrap) linarith
  show "unat (load_p3 M as s) + unat (DUMBVM_STACKPAGES * PAGE_SIZE M) \<le> unat (lastpaddr s)"
    using u p2 p3 by linarith
  show nz: "firstpaddr s \<noteq> 0" using assms(1) by (auto simp: mem_ok_def ram_ok_def)
  then have "0 < unat (firstpaddr s)" by (simp add: unat_gt_0)
  with p2 p3 have "0 < unat (load_p2 M as s)" "0 < unat (load_p3 M as s)" by simp_all
  then show "load_p2 M as s \<noteq> 0" and "load_p3 M as s \<noteq> 0" by auto
qed

lemma as_copy_result:
  assumes m: "mem_ok M s" and old: "addrspaces s oldp = Some old" and f: "load_fits M old s"
    and new: "kmalloc L 28 (kheap s) = (newp, h)" "newp \<noteq> NULL" "newp \<noteq> oldp"
  shows "\<exists>s'. as_copy L M oldp s = Inr ((0, Some newp), s')
    \<and> addrspaces s' = (addrspaces s)(newp \<mapsto> copied_as M old s)
    \<and> kmem s' = copied_mem M old (copied_as M old s) (kmem s)"
proof -
  define as0 where "as0 = as_zero\<lparr>as_vbase1 := as_vbase1 old, as_npages1 := as_npages1 old,
      as_vbase2 := as_vbase2 old, as_npages2 := as_npages2 old\<rparr>"
  define s2 where "s2 = s\<lparr>kheap := h, addrspaces := (addrspaces s)(newp \<mapsto> as0)\<rparr>"
  have s2: "mem_ok M s2" "addrspaces s2 newp = Some as0" "as_pbase1 as0 = 0" "as_pbase2 as0 = 0"
      "as_stackpbase as0 = 0" "load_fits M as0 s2"
    using m f by (simp_all add: s2_def as0_def as_zero_def load_fits_def)
  have p: "load_p2 M as0 s2 = load_p2 M old s" "load_p3 M as0 s2 = load_p3 M old s"
      "firstpaddr s2 = firstpaddr s"
    by (simp_all add: load_p2_def load_p3_def s2_def as0_def)
  have eq: "as0\<lparr>as_pbase1 := firstpaddr s, as_pbase2 := load_p2 M old s, as_stackpbase := load_p3 M old s\<rparr>
      = copied_as M old s"
    by (cases old) (simp add: copied_as_def as0_def as_zero_def)
  note ld = as_prepare_load_fits(1) [OF s2, unfolded p eq]
  note nz = load_addresses(4-6) [OF m f]
  show ?thesis
    using old new nz
    by (simp add: as_copy_def as_create_def as0_def [symmetric] s2_def [symmetric] ld)
      (simp add: s2_def copied_as_def copied_mem_def Let_def)
qed

section \<open>Properties of loading and copying\<close>

text \<open>
  C22. When the free memory holds the two regions and the 12 stack pages, \<open>as_copy\<close> succeeds and
  produces an exact copy, as \<^verbatim>\<open>addrspace.h\<close> promises: a fresh structure with the same virtual regions,
  whose three physical blocks lie in memory that was free and hold byte for byte what the blocks of
  the original hold; the original structure and the contents of its blocks are unchanged.
\<close>

theorem as_copy_exact:
  assumes "kseg_consts M" and "heap_laws L" and "mem_ok M s"
    and old: "addrspaces s oldp = Some old" "oldp \<in> k_owned L (kheap s)"
    and "load_fits M old s" and "as_placed M old s"
    and new: "kmalloc L 28 (kheap s) = (newp, h)" "newp \<noteq> NULL"
  shows "\<exists>s' new. as_copy L M oldp s = Inr ((0, Some newp), s')
    \<and> newp \<noteq> oldp \<and> addrspaces s' oldp = Some old \<and> addrspaces s' newp = Some new
    \<and> as_vbase1 new = as_vbase1 old \<and> as_npages1 new = as_npages1 old
    \<and> as_vbase2 new = as_vbase2 old \<and> as_npages2 new = as_npages2 old
    \<and> list_all2 (\<lambda>b c. same_block M (kmem s) b (kmem s') c) (as_blocks M old) (as_blocks M new)
    \<and> list_all2 (\<lambda>b c. same_block M (kmem s) b (kmem s') c) (as_blocks M old) (as_blocks M old)
    \<and> (\<forall>c \<in> set (as_blocks M new). unat (firstpaddr s) \<le> unat (fst c)
         \<and> unat (fst c) + unat (snd c) \<le> unat (lastpaddr s))"
proof -
  have ne: "newp \<noteq> oldp"
    using kmalloc_spec [OF assms(2) new(1)] new(2) old(2) by (auto simp: alloc_spec_def)
  obtain s' where s': "as_copy L M oldp s = Inr ((0, Some newp), s')"
      "addrspaces s' = (addrspaces s)(newp \<mapsto> copied_as M old s)"
      "kmem s' = copied_mem M old (copied_as M old s) (kmem s)"
    using as_copy_result [OF assms(3) old(1) assms(6) new ne] by blast
  note la = load_addresses [OF assms(3,6)]
  have last: "unat (lastpaddr s) < 2 ^ 32" by (rule u32_bound)
  have F: "unat (firstpaddr s) \<le> 2 ^ 32" using u32_bound [of "firstpaddr s"] by simp
  define b1 b2 b3 where b: "b1 = (as_pbase1 old, as_npages1 old * PAGE_SIZE M)"
    "b2 = (as_pbase2 old, as_npages2 old * PAGE_SIZE M)"
    "b3 = (as_stackpbase old, DUMBVM_STACKPAGES * PAGE_SIZE M)"
  have blk: "as_blocks M old = [b1, b2, b3]"
    "as_blocks M (copied_as M old s) = [(firstpaddr s, snd b1), (load_p2 M old s, snd b2), (load_p3 M old s, snd b3)]"
    by (simp_all add: b as_blocks_def copied_as_def)
  have pl: "unat (fst b1) + unat (snd b1) \<le> unat (firstpaddr s)"
    "unat (fst b2) + unat (snd b2) \<le> unat (firstpaddr s)"
    "unat (fst b3) + unat (snd b3) \<le> unat (firstpaddr s)"
    using assms(7) by (auto simp: as_placed_def blk)
  have top: "unat (load_p3 M old s) + unat (snd b3) \<le> 2 ^ 32" using la(3) last by (simp add: b)
  have cm: "kmem s' = memmove (PADDR_TO_KVADDR M (load_p3 M old s)) (PADDR_TO_KVADDR M (fst b3)) (snd b3)
     (memmove (PADDR_TO_KVADDR M (load_p2 M old s)) (PADDR_TO_KVADDR M (fst b2)) (snd b2)
     (memmove (PADDR_TO_KVADDR M (firstpaddr s)) (PADDR_TO_KVADDR M (fst b1)) (snd b1) (kmem s)))"
    by (simp add: s'(3) copied_mem_def copied_as_def b Let_def)
  note cp = copy_three_blocks [OF assms(1) F pl order_refl _ _ top refl refl cm]
  have "list_all2 (\<lambda>b c. same_block M (kmem s) b (kmem s') c) (as_blocks M old) (as_blocks M (copied_as M old s))"
    and "list_all2 (\<lambda>b c. same_block M (kmem s) b (kmem s') c) (as_blocks M old) (as_blocks M old)"
    using cp la(1,2) by (simp_all add: blk b)
  moreover have "\<forall>c \<in> set (as_blocks M (copied_as M old s)). unat (firstpaddr s) \<le> unat (fst c)
         \<and> unat (fst c) + unat (snd c) \<le> unat (lastpaddr s)"
    using la(1-3) by (auto simp: blk b)
  moreover have "addrspaces s' newp = Some (copied_as M old s)" "addrspaces s' oldp = Some old"
    using s'(2) ne old(1) by simp_all
  ultimately show ?thesis
    using s'(1) ne by (intro exI [of _ s'] exI [of _ "copied_as M old s"]) (simp add: copied_as_def)
qed

theorem as_copy_exact_witness:
  "\<exists>s' old new. as_copy list_klib sys161 0x80010040 vm_example = Inr ((0, Some 0x80010000), s')
    \<and> addrspaces vm_example 0x80010040 = Some old \<and> addrspaces s' 0x80010000 = Some new
    \<and> as_vbase1 new = 0x400000
    \<and> list_all2 (\<lambda>b c. same_block sys161 (kmem vm_example) b (kmem s') c)
        (as_blocks sys161 old) (as_blocks sys161 new)"
proof -
  define old where "old = \<lparr>as_vbase1 = 0x400000, as_pbase1 = 0x10000, as_npages1 = 2,
        as_vbase2 = 0x10000000, as_pbase2 = 0x12000, as_npages2 = 1, as_stackpbase = 0x13000\<rparr>"
  have 1: "mem_ok sys161 vm_example"
    by (simp add: mem_ok_def spl_consts_def spl_ok_def irqs_enabled_def ram_ok_def ram_limit_def
        vm_example_def sys161_def)
  have 2: "addrspaces vm_example 0x80010040 = Some old" "0x80010040 \<in> k_owned list_klib (kheap vm_example)"
    by (simp_all add: vm_example_def old_def list_klib_def)
  have 3: "load_fits sys161 old vm_example"
    by (simp add: load_fits_def small_request_def ram_limit_def DUMBVM_STACKPAGES_def old_def
        vm_example_def sys161_def)
  have 4: "as_placed sys161 old vm_example"
    by (simp add: as_placed_def as_blocks_def DUMBVM_STACKPAGES_def old_def vm_example_def sys161_def)
  have 5: "kmalloc list_klib 28 (kheap vm_example) = (0x80010000, ([0x80010020], {0x80010000, 0x80010040}))"
    by (simp add: list_klib_def l_alloc_def vm_example_def insert_commute)
  show ?thesis
    using as_copy_exact [OF kseg_consts_sys161 heap_laws_list_klib 1 2 3 4 5] 2(1)
    by (auto simp: old_def)
qed

lemma fold_TLB_Write:
  "fold (\<lambda>i. TLB_Write (f i) lo i) [0..<n] s = s\<lparr>tlb := (\<lambda>i. if i < n then (f i, lo) else tlb s i)\<rparr>"
  by (induction n) (auto simp: TLB_Write_def fun_eq_iff)

lemma splx_tlb: "snd (splx M n (s\<lparr>tlb := t\<rparr>)) = (snd (splx M n s))\<lparr>tlb := t\<rparr>"
  by (simp add: splx_eq interrupts_on_def interrupts_off_def)

lemma tlb_splx [simp]: "tlb (snd (splx M n s)) = tlb s" "tlb (snd (splhigh M s)) = tlb s"
  by (simp_all add: splhigh_def splx_eq interrupts_on_def interrupts_off_def)

lemma as_activate_eq:
  assumes "spl_consts M" and "spl_ok M s"
  shows "as_activate M p s
    = s\<lparr>tlb := (\<lambda>i. if i < NUM_TLB M then (TLBHI_INVALID M i, TLBLO_INVALID M) else tlb s i)\<rparr>"
  using splhigh_splx_state [OF assms]
  by (simp add: as_activate_def split_beta Let_def fold_TLB_Write splx_tlb cong: if_cong)

text \<open>
  \<open>as_activate\<close> invalidates every slot of the translation buffer, so no translation of the previous
  address space survives, and leaves the interrupt level as it was.
\<close>

theorem as_activate_flushes:
  assumes "spl_consts M" and "spl_ok M s" and "TLBLO_INVALID M AND TLBLO_VALID M = 0"
  shows "(\<forall>i < NUM_TLB M. snd (TLB_Read i (as_activate M p s)) AND TLBLO_VALID M = 0)
    \<and> curspl (as_activate M p s) = curspl s"
  using assms by (simp add: as_activate_eq TLB_Read_def)

theorem as_activate_flushes_witness:
  "snd (TLB_Read 7 (as_activate sys161 0 (vm_example\<lparr>tlb := (\<lambda>i. (0x400000, 0x12600))\<rparr>))) AND 0x200 = 0
   \<and> snd (TLB_Read 7 (vm_example\<lparr>tlb := (\<lambda>i. (0x400000, 0x12600))\<rparr>)) AND 0x200 = 0x200"
proof -
  have "spl_ok sys161 (vm_example\<lparr>tlb := (\<lambda>i. (0x400000, 0x12600))\<rparr>)"
    by (simp add: spl_ok_def irqs_enabled_def vm_example_def sys161_def)
  from as_activate_flushes [OF spl_consts_sys161 this] show ?thesis
    by (simp add: sys161_def TLB_Read_def)
qed

text \<open>
  An address space has two regions: once both bases are set, \<open>as_define_region\<close> refuses with
  \<open>EUNIMP\<close> and changes nothing. A first region whose base lies on page 0 is recorded with base 0, which
  the next call takes for "not set": it overwrites the first region and the second stays empty.
\<close>

theorem as_define_region_limits:
  assumes "addrspaces s p = Some as"
  shows "(as_vbase1 as \<noteq> 0 \<and> as_vbase2 as \<noteq> 0 \<longrightarrow> as_define_region M p v z s = Inr (EUNIMP, s))
    \<and> (as_vbase1 as = 0 \<and> v AND PAGE_FRAME M = 0 \<longrightarrow>
        (\<exists>s1 as1 s2 as2. as_define_region M p v z s = Inr (0, s1) \<and> addrspaces s1 p = Some as1
          \<and> as_define_region M p v' z' s1 = Inr (0, s2) \<and> addrspaces s2 p = Some as2
          \<and> as_vbase1 as2 = v' AND PAGE_FRAME M \<and> as_vbase2 as2 = as_vbase2 as))"
  using assms by (auto simp: as_define_region_def region_pages_def Let_def)

theorem as_define_region_limits_witness:
  "\<exists>s1 as1 s2 as2. as_define_region sys161 64 0x10 0x20 (vm_example\<lparr>addrspaces := [64 \<mapsto> as_zero]\<rparr>) = Inr (0, s1)
     \<and> addrspaces s1 64 = Some as1 \<and> as_define_region sys161 64 0x400000 0x1000 s1 = Inr (0, s2)
     \<and> addrspaces s2 64 = Some as2 \<and> as_vbase1 as2 = 0x400000 \<and> as_vbase2 as2 = 0"
  using as_define_region_limits [of "vm_example\<lparr>addrspaces := [64 \<mapsto> as_zero]\<rparr>" 64 as_zero sys161
      "0x10" "0x20" "0x400000" "0x1000"]
  by (simp add: as_zero_def sys161_def)

end
