(* ===== verification/Scheduler.thy ===== *)
theory Scheduler
  imports Dumbvm
begin

text \<open>
  The round-robin scheduler, \<^verbatim>\<open>kern/thread/scheduler.c\<close>: the run queue, \<open>make_runnable\<close>, \<open>scheduler\<close>
  with its idle loop, preallocation and shutdown. The interface locale \<open>run_queue\<close> is what the thread
  system relies on. (\<open>print_run_queue\<close>, a debugging dump to the console, is not modelled.)
\<close>

section \<open>State and operations\<close>

record ('q, 'h) sched = "'h vm" +
  runqueue :: "'q option"

definition scheduler_bootstrap ::
  "('q, 'a, 'h) klib \<Rightarrow> ('q, 'h, 'z) sched_scheme \<Rightarrow> ('q, 'h, 'z) sched_scheme run" where
  "scheduler_bootstrap L s =
     (let (q, h) = q_create L 32 (kheap s)
      in if q = None then Inl (Panic ''scheduler: Could not create run queue'')
         else Inr (s\<lparr>runqueue := q, kheap := h\<rparr>))"

definition scheduler_preallocate ::
  "('q, 'a, 'h) klib \<Rightarrow> int \<Rightarrow> ('q, 'h, 'z) sched_scheme \<Rightarrow> (int \<times> ('q, 'h, 'z) sched_scheme) run" where
  "scheduler_preallocate L nthreads s =
     kassert (curspl s > 0) ''curspl>0'' (
     deref_opt (runqueue s) ''runqueue'' (\<lambda>q.
     let (r, q', h) = q_preallocate L q nthreads (kheap s)
     in Inr (r, s\<lparr>runqueue := Some q', kheap := h\<rparr>)))"

text \<open>
  The loop that empties the queue, with a bound on its iterations (the queue's length is not visible
  to the code).
\<close>

primrec killall_loop ::
  "('q, 'a, 'h) klib \<Rightarrow> nat \<Rightarrow> ('q, 'h, 'z) sched_scheme \<Rightarrow> ('q, 'h, 'z) sched_scheme run" where
  "killall_loop L 0 s = Inl OutOfFuel"
| "killall_loop L (Suc n) s =
     deref_opt (runqueue s) ''runqueue'' (\<lambda>q.
     if q_empty L q then Inr s
     else (case q_remhead L q of None \<Rightarrow> Inl (Panic ''q_remhead'')
           | Some (t, q') \<Rightarrow> killall_loop L n (s\<lparr>runqueue := Some q'\<rparr>)))"

definition scheduler_killall ::
  "('q, 'a, 'h) klib \<Rightarrow> nat \<Rightarrow> ('q, 'h, 'z) sched_scheme \<Rightarrow> ('q, 'h, 'z) sched_scheme run" where
  "scheduler_killall L fuel s = kassert (curspl s > 0) ''curspl>0'' (killall_loop L fuel s)"

definition scheduler_shutdown ::
  "('q, 'a, 'h) klib \<Rightarrow> nat \<Rightarrow> ('q, 'h, 'z) sched_scheme \<Rightarrow> ('q, 'h, 'z) sched_scheme run" where
  "scheduler_shutdown L fuel s =
     bnd (scheduler_killall L fuel s) (\<lambda>s1.
     kassert (curspl s1 > 0) ''curspl>0'' (
     deref_opt (runqueue s1) ''runqueue'' (\<lambda>q.
     case q_destroy L q (kheap s1) of None \<Rightarrow> Inl (Panic ''q_destroy'')
     | Some h \<Rightarrow> Inr (s1\<lparr>runqueue := None, kheap := h\<rparr>))))"

text \<open>
  \<open>scheduler\<close> idles until the queue is not empty. What each \<open>cpu_idle\<close> lets happen (the handler of the
  interrupt it takes) is one element of the list \<open>evs\<close>; when the list ends the processor is still idle.
\<close>

datatype 's picked = Picked ptr 's | StillIdle 's

definition take_head ::
  "('q, 'a, 'h) klib \<Rightarrow> 'q \<Rightarrow> ('q, 'h, 'z) sched_scheme \<Rightarrow> ('q, 'h, 'z) sched_scheme picked run" where
  "take_head L q s = (case q_remhead L q of None \<Rightarrow> Inl (Panic ''q_remhead'')
     | Some (t, q') \<Rightarrow> Inr (Picked t (s\<lparr>runqueue := Some q'\<rparr>)))"

primrec sched_loop ::
  "('q, 'a, 'h) klib \<Rightarrow> machine
     \<Rightarrow> (('q, 'h, 'z) sched_scheme \<Rightarrow> ('q, 'h, 'z) sched_scheme run) list
     \<Rightarrow> ('q, 'h, 'z) sched_scheme \<Rightarrow> ('q, 'h, 'z) sched_scheme picked run" where
  "sched_loop L M [] s =
     deref_opt (runqueue s) ''runqueue'' (\<lambda>q.
     if q_empty L q then Inr (StillIdle s) else take_head L q s)"
| "sched_loop L M (ev # evs) s =
     deref_opt (runqueue s) ''runqueue'' (\<lambda>q.
     if q_empty L q then bnd (cpu_idle M ev s) (sched_loop L M evs) else take_head L q s)"

definition scheduler ::
  "('q, 'a, 'h) klib \<Rightarrow> machine
     \<Rightarrow> (('q, 'h, 'z) sched_scheme \<Rightarrow> ('q, 'h, 'z) sched_scheme run) list
     \<Rightarrow> ('q, 'h, 'z) sched_scheme \<Rightarrow> ('q, 'h, 'z) sched_scheme picked run" where
  "scheduler L M evs s = kassert (curspl s > 0) ''curspl>0'' (sched_loop L M evs s)"

definition make_runnable ::
  "('q, 'a, 'h) klib \<Rightarrow> ptr \<Rightarrow> ('q, 'h, 'z) sched_scheme \<Rightarrow> (int \<times> ('q, 'h, 'z) sched_scheme) run" where
  "make_runnable L t s =
     kassert (curspl s > 0) ''curspl>0'' (
     deref_opt (runqueue s) ''runqueue'' (\<lambda>q.
     let (r, q', h) = q_addtail L q t (kheap s)
     in Inr (r, s\<lparr>runqueue := Some q', kheap := h\<rparr>)))"

section \<open>The run queue as a list\<close>

definition ready :: "('q, 'a, 'h) klib \<Rightarrow> ('q, 'h, 'z) sched_scheme \<Rightarrow> ptr list" where
  "ready L s = (case runqueue s of None \<Rightarrow> [] | Some q \<Rightarrow> q_list L q)"

definition run_room :: "('q, 'a, 'h) klib \<Rightarrow> ('q, 'h, 'z) sched_scheme \<Rightarrow> nat" where
  "run_room L s = (case runqueue s of None \<Rightarrow> 0 | Some q \<Rightarrow> q_room L q)"

definition sched_ok :: "('q, 'a, 'h) klib \<Rightarrow> ('q, 'h, 'z) sched_scheme \<Rightarrow> bool" where
  "sched_ok L s \<longleftrightarrow> queue_laws L \<and> curspl s > 0 \<and> runqueue s \<noteq> None"

lemma make_runnable_spec:
  assumes "sched_ok L s"
  obtains r q' h where
    "make_runnable L t s = Inr (r, s\<lparr>runqueue := Some q', kheap := h\<rparr>)"
    "q_list L q' = (if r = 0 then ready L s @ [t] else ready L s)"
    "length (ready L s) < run_room L s \<Longrightarrow> r = 0"
    "run_room L s \<le> q_room L q'" "k_owned L h = k_owned L (kheap s)"
proof -
  from assms obtain q where q: "runqueue s = Some q" "queue_laws L" "curspl s > 0"
    by (auto simp: sched_ok_def)
  obtain r q' h where a: "q_addtail L q t (kheap s) = (r, q', h)" by (cases "q_addtail L q t (kheap s)")
  show thesis
    by (rule that [where r = r and q' = q' and h = h])
      (use q a q_addtail_spec [OF q(2) a] in \<open>simp_all add: make_runnable_def ready_def run_room_def\<close>)
qed

lemma make_runnable_room:
  assumes "sched_ok L s" and "length (ready L s) < run_room L s"
  obtains q' h where
    "make_runnable L t s = Inr (0, s\<lparr>runqueue := Some q', kheap := h\<rparr>)"
    "q_list L q' = ready L s @ [t]" "run_room L s \<le> q_room L q'" "k_owned L h = k_owned L (kheap s)"
  by (rule make_runnable_spec [OF assms(1), where t = t]) (use assms(2) that in \<open>auto simp del: sched.simps\<close>)

lemma scheduler_preallocate_spec:
  assumes "sched_ok L s"
  obtains r q' h where
    "scheduler_preallocate L n s = Inr (r, s\<lparr>runqueue := Some q', kheap := h\<rparr>)"
    "q_list L q' = ready L s" "run_room L s \<le> q_room L q'" "r = 0 \<Longrightarrow> n \<le> int (q_room L q')"
    "k_owned L h = k_owned L (kheap s)"
proof -
  from assms obtain q where q: "runqueue s = Some q" "queue_laws L" "curspl s > 0"
    by (auto simp: sched_ok_def)
  obtain r q' h where a: "q_preallocate L q n (kheap s) = (r, q', h)"
    by (cases "q_preallocate L q n (kheap s)")
  show thesis
    by (rule that [where r = r and q' = q' and h = h])
      (use q a q_preallocate_spec [OF q(2) a] in
        \<open>simp_all add: scheduler_preallocate_def ready_def run_room_def\<close>)
qed

lemma scheduler_ready:
  assumes "sched_ok L s" and "ready L s = t # ts"
  obtains q' where "scheduler L M evs s = Inr (Picked t (s\<lparr>runqueue := Some q'\<rparr>))"
    "q_list L q' = ts" "run_room L s \<le> q_room L q'"
proof -
  from assms obtain q where q: "runqueue s = Some q" "queue_laws L" "curspl s > 0" "q_list L q = t # ts"
    by (auto simp: sched_ok_def ready_def)
  obtain q' where q': "q_remhead L q = Some (t, q')" "q_list L q' = ts" "q_room L q \<le> q_room L q'"
    using q_remhead_Cons [OF q(2,4)] by blast
  show thesis
    by (rule that [where q' = q'])
      (use q q' in \<open>cases evs; simp add: scheduler_def take_head_def q_empty_iff run_room_def\<close>)+
qed

lemma scheduler_idle:
  assumes "sched_ok L s" and "ready L s = []"
  shows "scheduler L M [] s = Inr (StillIdle s)"
    and "scheduler L M (ev # evs) s = bnd (cpu_idle M ev s) (sched_loop L M evs)"
  using assms by (auto simp: sched_ok_def ready_def scheduler_def q_empty_iff)

section \<open>The interface of the run queue\<close>

text \<open>
  Any provider of a ready list with these laws schedules round-robin: if every thread picked is put
  back, the threads run in the order of the list, each once per round.
\<close>

fun yield_turns :: "('s \<Rightarrow> (ptr \<times> 's) option) \<Rightarrow> (ptr \<Rightarrow> 's \<Rightarrow> 's option) \<Rightarrow> nat \<Rightarrow> 's
    \<Rightarrow> (ptr list \<times> 's) option" where
  "yield_turns pick put 0 s = Some ([], s)"
| "yield_turns pick put (Suc n) s =
     (case pick s of None \<Rightarrow> None
      | Some (t, s1) \<Rightarrow> (case put t s1 of None \<Rightarrow> None
         | Some s2 \<Rightarrow> map_option (\<lambda>(ts, s3). (t # ts, s3)) (yield_turns pick put n s2)))"

locale run_queue =
  fixes ok :: "'s \<Rightarrow> bool"
    and rdy :: "'s \<Rightarrow> ptr list"
    and room :: "'s \<Rightarrow> nat"
    and pick :: "'s \<Rightarrow> (ptr \<times> 's) option"
    and put :: "ptr \<Rightarrow> 's \<Rightarrow> 's option"
  assumes pick_head: "ok s \<Longrightarrow> rdy s = t # ts \<Longrightarrow>
      \<exists>s'. pick s = Some (t, s') \<and> ok s' \<and> rdy s' = ts \<and> room s \<le> room s'"
    and put_tail: "ok s \<Longrightarrow> length (rdy s) < room s \<Longrightarrow>
      \<exists>s'. put t s = Some s' \<and> ok s' \<and> rdy s' = rdy s @ [t] \<and> room s \<le> room s'"
begin

lemma one_turn:
  assumes "ok s" and "rdy s = t # ts" and "length (rdy s) \<le> room s"
  obtains s1 s2 where "pick s = Some (t, s1)" "put t s1 = Some s2" "ok s2" "rdy s2 = ts @ [t]"
    "length (rdy s2) \<le> room s2"
proof -
  obtain s1 where s1: "pick s = Some (t, s1)" "ok s1" "rdy s1 = ts" "room s \<le> room s1"
    using pick_head assms by blast
  moreover have "length (rdy s1) < room s1" using assms s1 by simp
  ultimately obtain s2 where "put t s1 = Some s2" "ok s2" "rdy s2 = ts @ [t]" "room s1 \<le> room s2"
    using put_tail by metis
  with that s1 assms show thesis by simp
qed

lemma round_robin:
  assumes "ok s" and "length (rdy s) \<le> room s" and "n \<le> length (rdy s)"
  shows "\<exists>s'. yield_turns pick put n s = Some (take n (rdy s), s') \<and> rdy s' = rotate n (rdy s)
    \<and> ok s' \<and> length (rdy s') \<le> room s'"
  using assms
proof (induction n arbitrary: s)
  case 0
  then show ?case by simp
next
  case (Suc n)
  then obtain t ts where ts: "rdy s = t # ts" by (cases "rdy s") auto
  obtain s1 s2 where s2: "pick s = Some (t, s1)" "put t s1 = Some s2" "ok s2" "rdy s2 = ts @ [t]"
    "length (rdy s2) \<le> room s2"
    using one_turn [OF Suc.prems(1) ts Suc.prems(2)] by blast
  moreover have "n \<le> length (rdy s2)" using Suc.prems(3) ts s2(4) by simp
  ultimately obtain s3 where "yield_turns pick put n s2 = Some (take n (rdy s2), s3)"
      "rdy s3 = rotate n (rdy s2)" "ok s3" "length (rdy s3) \<le> room s3"
    using Suc.IH by blast
  moreover have "take n (rdy s2) = take n ts" using Suc.prems(3) ts s2(4) by simp
  ultimately show ?case using s2 ts by (simp add: rotate1_rotate_swap rotate_def funpow_swap1)
qed

end

text \<open>The scheduler's operations as the interface sees them.\<close>

definition sched_pick ::
  "('q, 'a, 'h) klib \<Rightarrow> machine \<Rightarrow> ('q, 'h, 'z) sched_scheme \<Rightarrow> (ptr \<times> ('q, 'h, 'z) sched_scheme) option" where
  "sched_pick L M s = (case scheduler L M [] s of Inr (Picked t s') \<Rightarrow> Some (t, s') | _ \<Rightarrow> None)"

definition sched_put ::
  "('q, 'a, 'h) klib \<Rightarrow> ptr \<Rightarrow> ('q, 'h, 'z) sched_scheme \<Rightarrow> ('q, 'h, 'z) sched_scheme option" where
  "sched_put L t s = (case make_runnable L t s of Inr (r, s') \<Rightarrow> if r = 0 then Some s' else None | Inl _ \<Rightarrow> None)"

interpretation rr: run_queue "sched_ok L" "ready L" "run_room L" "sched_pick L M" "sched_put L" for L M
proof unfold_locales
  fix s :: "('a, 'c, 'd) sched_scheme" and t ts
  assume s: "sched_ok L s"
  show "\<exists>s'. sched_pick L M s = Some (t, s') \<and> sched_ok L s' \<and> ready L s' = ts \<and> run_room L s \<le> run_room L s'"
    if r: "ready L s = t # ts"
    by (rule scheduler_ready [OF s r, where M = M and evs = "[]"])
      (use s in \<open>auto simp: sched_pick_def sched_ok_def ready_def run_room_def\<close>)
  show "\<exists>s'. sched_put L t s = Some s' \<and> sched_ok L s' \<and> ready L s' = ready L s @ [t] \<and> run_room L s \<le> run_room L s'"
    if "length (ready L s) < run_room L s"
    by (rule make_runnable_spec [OF s, where t = t])
      (use s that in \<open>auto simp: sched_put_def sched_ok_def ready_def run_room_def\<close>)
qed

section \<open>Properties\<close>

definition sched_example :: "(lseq, lheap) sched" where
  "sched_example = \<lparr>c0_status = 0xff00, curspl = 15, firstfree = 0, firstpaddr = 0x30000, lastpaddr = 0x80000,
     kheap = ([], {}), tlb = (\<lambda>i. (0, 0)), addrspaces = Map.empty, kmem = (\<lambda>a. 0),
     runqueue = Some ([0x100, 0x200, 0x300], 32)\<rparr>"

lemma sched_ok_example: "sched_ok list_klib sched_example"
  by (simp add: sched_ok_def queue_laws_list_klib sched_example_def)

text \<open>
  C38. The scheduler is round-robin: while threads only yield (each thread that \<open>scheduler\<close> picks is given
  back to \<open>make_runnable\<close>), \<open>n\<close> turns run the first \<open>n\<close> threads of the run queue in order, leave the queue
  rotated by \<open>n\<close>, and never fail for lack of room. In particular a full round runs every thread once.
\<close>

theorem scheduler_round_robin:
  assumes "sched_ok L s" and "length (ready L s) \<le> run_room L s" and "n \<le> length (ready L s)"
  shows "\<exists>s'. yield_turns (sched_pick L M) (sched_put L) n s = Some (take n (ready L s), s')
    \<and> ready L s' = rotate n (ready L s)"
  using rr.round_robin [OF assms, of M] by blast

theorem scheduler_round_robin_witness:
  "\<exists>s'. yield_turns (sched_pick list_klib sys161) (sched_put list_klib) 2 sched_example = Some ([0x100, 0x200], s')
    \<and> ready list_klib s' = [0x300, 0x100, 0x200]"
proof -
  have r: "ready list_klib sched_example = [0x100, 0x200, 0x300]" "run_room list_klib sched_example = 32"
    by (simp_all add: ready_def run_room_def sched_example_def list_klib_def)
  from scheduler_round_robin [OF sched_ok_example, of 2 sys161] show ?thesis
    by (simp add: r numeral_2_eq_2)
qed

text \<open>What it takes for the idle loop to see work: the queue stays empty through the interrupts \<open>evs\<close>.\<close>

fun idles_until :: "('q, 'a, 'h) klib \<Rightarrow> machine
     \<Rightarrow> (('q, 'h, 'z) sched_scheme \<Rightarrow> ('q, 'h, 'z) sched_scheme run) list
     \<Rightarrow> ('q, 'h, 'z) sched_scheme \<Rightarrow> ('q, 'h, 'z) sched_scheme \<Rightarrow> bool" where
  "idles_until L M [] s s' \<longleftrightarrow> s' = s"
| "idles_until L M (ev # evs) s s' \<longleftrightarrow> ready L s = [] \<and>
     (case cpu_idle M ev s of Inl _ \<Rightarrow> False | Inr s1 \<Rightarrow> runqueue s1 \<noteq> None \<and> idles_until L M evs s1 s')"

lemma sched_loop_idles_until:
  assumes "queue_laws L" and "runqueue s \<noteq> None" and "idles_until L M evs s s'"
  shows "sched_loop L M (evs @ rest) s = sched_loop L M rest s' \<and> runqueue s' \<noteq> None"
  using assms
proof (induction evs arbitrary: s)
  case Nil
  then show ?case by simp
next
  case (Cons ev evs)
  then obtain q s1 where "runqueue s = Some q" "q_list L q = []" "cpu_idle M ev s = Inr s1"
    "runqueue s1 \<noteq> None" "idles_until L M evs s1 s'"
    by (auto simp: ready_def split: sum.splits)
  with Cons.IH [of s1] Cons.prems(1) show ?case by (simp add: q_empty_iff)
qed

text \<open>
  The idle loop of \<open>scheduler\<close> neither loses a wake-up nor returns without a thread: with an empty
  queue it takes interrupts one by one, each with interrupts enabled only for the taking, and as soon
  as one of them has made a thread ready it returns the head of the queue and removes it.
\<close>

theorem scheduler_idle_wakes:
  assumes "sched_ok L s" and "idles_until L M evs s s'" and "ready L s' = t # ts"
  shows "\<exists>q'. scheduler L M (evs @ rest) s = Inr (Picked t (s'\<lparr>runqueue := Some q'\<rparr>)) \<and> q_list L q' = ts"
proof -
  from assms(1) have s: "queue_laws L" "curspl s > 0" "runqueue s \<noteq> None" by (auto simp: sched_ok_def)
  note l = sched_loop_idles_until [OF s(1,3) assms(2), of rest]
  then obtain q where q: "runqueue s' = Some q" "q_list L q = t # ts"
    using assms(3) by (auto simp: ready_def)
  obtain q' where "q_remhead L q = Some (t, q')" "q_list L q' = ts"
    using q_remhead_Cons [OF s(1) q(2)] by blast
  then have "sched_loop L M rest s' = Inr (Picked t (s'\<lparr>runqueue := Some q'\<rparr>)) \<and> q_list L q' = ts"
    using q s(1) by (cases rest) (simp_all add: take_head_def q_empty_iff)
  with l s(2) show ?thesis by (auto simp: scheduler_def)
qed

text \<open>A thread becomes ready in the second of two interrupts.\<close>

definition wake_200 :: "(lseq, lheap) sched \<Rightarrow> (lseq, lheap) sched run" where
  "wake_200 s = bnd (make_runnable list_klib 0x200 s) (\<lambda>(r, s'). Inr s')"

theorem scheduler_idle_wakes_witness:
  "\<exists>s' q'. scheduler list_klib sys161 ([Inr, wake_200] @ [Inr])
      (sched_example\<lparr>runqueue := Some ([], 32)\<rparr>) = Inr (Picked 0x200 (s'\<lparr>runqueue := Some q'\<rparr>))"
proof -
  let ?s = "sched_example\<lparr>runqueue := Some ([], 32)\<rparr>"
  let ?t = "sched_example\<lparr>runqueue := Some ([0x200], 32)\<rparr>"
  have "sched_ok list_klib ?s"
    by (simp add: sched_ok_def queue_laws_list_klib sched_example_def)
  moreover have "idles_until list_klib sys161 [Inr, wake_200] ?s ?t"
    by (simp add: cpu_idle_def interrupts_onoff_def wake_200_def make_runnable_def ready_def
        sched_example_def sys161_def list_klib_def l_add_def)
  moreover have "ready list_klib ?t = [0x200]"
    by (simp add: ready_def list_klib_def)
  ultimately show ?thesis
    using scheduler_idle_wakes [where rest = "[Inr]"] by blast
qed

lemma killall_loop_enough:
  assumes "queue_laws L" and "runqueue s = Some q" and "length (q_list L q) < n"
  shows "\<exists>q'. killall_loop L n s = Inr (s\<lparr>runqueue := Some q'\<rparr>) \<and> q_list L q' = []"
  using assms
proof (induction n arbitrary: s q)
  case 0
  then show ?case by simp
next
  case (Suc n)
  show ?case
  proof (cases "q_list L q")
    case Nil
    with Suc.prems have "killall_loop L (Suc n) s = Inr (s\<lparr>runqueue := Some q\<rparr>)"
      by (simp add: q_empty_iff)
    with Nil show ?thesis by blast
  next
    case (Cons t ts)
    obtain q1 where q1: "q_remhead L q = Some (t, q1)" "q_list L q1 = ts"
      using q_remhead_Cons [OF Suc.prems(1) Cons] by blast
    have "\<exists>q'. killall_loop L n (s\<lparr>runqueue := Some q1\<rparr>) = Inr (s\<lparr>runqueue := Some q1, runqueue := Some q'\<rparr>)
        \<and> q_list L q' = []"
      using Suc.IH [of "s\<lparr>runqueue := Some q1\<rparr>" q1] Suc.prems Cons q1 by simp
    with q1 Suc.prems Cons show ?thesis by (simp add: q_empty_iff)
  qed
qed

text \<open>
  \<open>scheduler_killall\<close> ends and empties the run queue: a number of iterations above the queue's length
  is enough, and nothing else of the state changes.
\<close>

theorem scheduler_killall_empties:
  assumes "sched_ok L s" and "length (ready L s) < fuel"
  shows "\<exists>q'. scheduler_killall L fuel s = Inr (s\<lparr>runqueue := Some q'\<rparr>) \<and> q_list L q' = []"
  using assms killall_loop_enough [of L s _ fuel]
  by (auto simp: scheduler_killall_def sched_ok_def ready_def)

theorem scheduler_killall_empties_witness:
  "\<exists>q'. scheduler_killall list_klib 4 sched_example = Inr (sched_example\<lparr>runqueue := Some q'\<rparr>)
     \<and> q_list list_klib q' = []"
  by (rule scheduler_killall_empties [OF sched_ok_example])
    (simp add: ready_def sched_example_def list_klib_def)

end
