(* ===== verification/Pcb.thy ===== *)
theory Pcb
  imports Scheduler
begin

text \<open>
  The machine-dependent half of the thread system: process control blocks (\<^verbatim>\<open>kern/mips/pcb.c\<close>) and the
  assembly routines \<open>mips_switch\<close> (\<^verbatim>\<open>switch.S\<close>) and \<open>mips_threadstart\<close> (\<^verbatim>\<open>threadstart.S\<close>), which save and
  restore the callee-saved registers in a switch frame on the kernel stack.
\<close>

section \<open>Words in memory\<close>

text \<open>The machine is big-endian; these are \<open>sw\<close> and \<open>lw\<close> on byte-addressed memory.\<close>

definition store_word :: "u32 \<Rightarrow> u32 \<Rightarrow> (u32 \<Rightarrow> byte) \<Rightarrow> (u32 \<Rightarrow> byte)" where
  "store_word a w m = m(a := ucast (drop_bit 24 w), a + 1 := ucast (drop_bit 16 w),
     a + 2 := ucast (drop_bit 8 w), a + 3 := ucast w)"

definition load_word :: "(u32 \<Rightarrow> byte) \<Rightarrow> u32 \<Rightarrow> u32" where
  "load_word m a = push_bit 24 (ucast (m a)) OR push_bit 16 (ucast (m (a + 1)))
     OR push_bit 8 (ucast (m (a + 2))) OR ucast (m (a + 3))"

lemma word_from_bytes:
  "push_bit 24 (ucast (ucast (drop_bit 24 w) :: byte)) OR push_bit 16 (ucast (ucast (drop_bit 16 w) :: byte))
     OR push_bit 8 (ucast (ucast (drop_bit 8 w) :: byte)) OR ucast (ucast w :: byte) = (w :: u32)"
proof (rule bit_word_eqI)
  fix n assume "n < LENGTH(32)"
  then consider "n < 8" | "8 \<le> n" "n < 16" | "16 \<le> n" "n < 24" | "24 \<le> n" "n < 32" by fastforce
  then show "bit (push_bit 24 (ucast (ucast (drop_bit 24 w) :: byte)) OR push_bit 16 (ucast (ucast (drop_bit 16 w) :: byte))
     OR push_bit 8 (ucast (ucast (drop_bit 8 w) :: byte)) OR ucast (ucast w :: byte) :: u32) n = bit w n"
    by cases (auto simp: bit_simps)
qed

lemma load_store_same [simp]: "load_word (store_word a w m) a = w"
  by (simp add: load_word_def store_word_def word_from_bytes)

lemma load_store_other:
  assumes "\<forall>i \<in> {0, 1, 2, 3}. \<forall>j \<in> {0, 1, 2, 3}. a + i \<noteq> b + j"
  shows "load_word (store_word b w m) a = load_word m a"
  using assms by (simp add: load_word_def store_word_def)

section \<open>Registers and control blocks\<close>

text \<open>The registers that the switch code touches.\<close>

record regs =
  R_s0 :: u32
  R_s1 :: u32
  R_s2 :: u32
  R_s3 :: u32
  R_s4 :: u32
  R_s5 :: u32
  R_s6 :: u32
  R_s7 :: u32
  R_s8 :: u32
  R_gp :: u32
  R_ra :: u32
  R_sp :: u32
  R_a0 :: u32
  R_a1 :: u32
  R_a2 :: u32

record pcb =
  pcb_switchstack :: u32
  pcb_kstack :: u32
  pcb_ininterrupt :: u32
  pcb_badfaultfunc :: ptr

record ('q, 'h) md = "('q, 'h) sched" +
  regs :: regs
  curkstack :: u32
  in_interrupt :: s32

definition md_initpcb0 :: "('q, 'h, 'z) md_scheme \<Rightarrow> pcb" where
  "md_initpcb0 s = \<lparr>pcb_switchstack = 0, pcb_kstack = curkstack s, pcb_ininterrupt = 0, pcb_badfaultfunc = NULL\<rparr>"

text \<open>The size of \<open>struct switchframe\<close>: the eleven words that \<open>mips_switch\<close> saves.\<close>

definition switchframe_size :: u32 where "switchframe_size = 44"

definition md_initpcb ::
  "machine \<Rightarrow> ptr \<Rightarrow> u32 \<Rightarrow> u32 \<Rightarrow> u32 \<Rightarrow> ('q, 'h, 'z) md_scheme \<Rightarrow> pcb \<times> ('q, 'h, 'z) md_scheme" where
  "md_initpcb M stack data1 data2 func s =
     (let stacktop = stack + STACK_SIZE M;
          sf = stacktop - switchframe_size;
          p = \<lparr>pcb_switchstack = sf, pcb_kstack = stacktop, pcb_ininterrupt = 0, pcb_badfaultfunc = NULL\<rparr>;
          m0 = (\<lambda>a. if a - sf < switchframe_size then 0 else kmem s a);
          m1 = store_word sf data1 m0;
          m2 = store_word (sf + 4) data2 m1;
          m3 = store_word (sf + 8) func m2;
          m4 = store_word (sf + 40) (mips_threadstart_addr M) m3
      in (p, s\<lparr>kmem := m4\<rparr>))"

text \<open>The frame that \<open>mips_switch\<close> writes below the stack pointer and the one it reads.\<close>

definition save_frame :: "u32 \<Rightarrow> regs \<Rightarrow> (u32 \<Rightarrow> byte) \<Rightarrow> (u32 \<Rightarrow> byte)" where
  "save_frame sp r m =
     store_word sp (R_s0 r) (store_word (sp + 4) (R_s1 r) (store_word (sp + 8) (R_s2 r)
     (store_word (sp + 12) (R_s3 r) (store_word (sp + 16) (R_s4 r) (store_word (sp + 20) (R_s5 r)
     (store_word (sp + 24) (R_s6 r) (store_word (sp + 28) (R_s7 r) (store_word (sp + 32) (R_s8 r)
     (store_word (sp + 36) (R_gp r) (store_word (sp + 40) (R_ra r) m))))))))))"

definition load_frame :: "u32 \<Rightarrow> (u32 \<Rightarrow> byte) \<Rightarrow> regs \<Rightarrow> regs" where
  "load_frame sp m r =
     r\<lparr>R_s0 := load_word m sp, R_s1 := load_word m (sp + 4), R_s2 := load_word m (sp + 8),
       R_s3 := load_word m (sp + 12), R_s4 := load_word m (sp + 16), R_s5 := load_word m (sp + 20),
       R_s6 := load_word m (sp + 24), R_s7 := load_word m (sp + 28), R_s8 := load_word m (sp + 32),
       R_gp := load_word m (sp + 36), R_ra := load_word m (sp + 40), R_sp := sp + 44\<rparr>"

text \<open>
  \<open>mips_switch(old, nu)\<close> for two different control blocks: the new contents of \<open>*old\<close>, and the state in
  which the processor continues, at the address in \<open>ra\<close>. (\<open>addi\<close> would trap if the stack pointer
  crossed the sign boundary; a kernel stack pointer is nowhere near it.)
\<close>

definition mips_switch ::
  "pcb \<Rightarrow> pcb \<Rightarrow> ('q, 'h, 'z) md_scheme \<Rightarrow> pcb \<times> ('q, 'h, 'z) md_scheme" where
  "mips_switch old nu s =
     (let sp = R_sp (regs s) - 44;
          m = save_frame sp (regs s) (kmem s);
          sp' = pcb_switchstack nu
      in (old\<lparr>pcb_switchstack := sp\<rparr>, s\<lparr>kmem := m, regs := load_frame sp' m (regs s)\<rparr>))"

text \<open>\<open>mips_threadstart\<close>: the registers with which it jumps to \<open>mi_threadstart\<close>.\<close>

definition mips_threadstart :: "regs \<Rightarrow> regs" where
  "mips_threadstart r = r\<lparr>R_sp := R_sp r - 16, R_ra := 0, R_a0 := R_s0 r, R_a1 := R_s1 r, R_a2 := R_s2 r\<rparr>"

section \<open>Frames round-trip\<close>

text \<open>Two memories agree on the frame at \<open>sp\<close>.\<close>

definition same_frame :: "u32 \<Rightarrow> (u32 \<Rightarrow> byte) \<Rightarrow> (u32 \<Rightarrow> byte) \<Rightarrow> bool" where
  "same_frame sp m m' \<longleftrightarrow> (\<forall>a. a - sp < switchframe_size \<longrightarrow> m' a = m a)"

lemma same_frame_load_word:
  assumes "same_frame sp m m'" and "k \<le> 40"
  shows "load_word m' (sp + k) = load_word m (sp + k)"
proof -
  have "k + i < 44" if "i < 4" for i :: u32
    using assms(2) that by (simp add: word_less_nat_alt word_le_nat_alt unat_word_ariths)
  then have "m' (sp + k + i) = m (sp + k + i)" if "i < 4" for i
    using assms(1) that by (simp add: same_frame_def switchframe_size_def algebra_simps)
  from this [of 0] this [of 1] this [of 2] this [of 3] show ?thesis by (simp add: load_word_def)
qed

lemma load_frame_same:
  assumes "same_frame sp m m'"
  shows "load_frame sp m' r = load_frame sp m r"
  using same_frame_load_word [OF assms, of 0]
  by (simp add: load_frame_def same_frame_load_word [OF assms])

lemma load_save_frame:
  "load_frame sp (save_frame sp r m) r' =
     r'\<lparr>R_s0 := R_s0 r, R_s1 := R_s1 r, R_s2 := R_s2 r, R_s3 := R_s3 r, R_s4 := R_s4 r, R_s5 := R_s5 r,
        R_s6 := R_s6 r, R_s7 := R_s7 r, R_s8 := R_s8 r, R_gp := R_gp r, R_ra := R_ra r, R_sp := sp + 44\<rparr>"
  by (simp add: load_frame_def save_frame_def load_store_other add.assoc)

section \<open>Properties\<close>

text \<open>Both from one concrete state: a thread with stack pointer \<open>0x80004000\<close> and a new stack at \<open>0x80005000\<close>.\<close>

definition regs_example :: regs where
  "regs_example = \<lparr>R_s0 = 10, R_s1 = 11, R_s2 = 12, R_s3 = 13, R_s4 = 14, R_s5 = 15, R_s6 = 16, R_s7 = 17,
     R_s8 = 18, R_gp = 28, R_ra = 31, R_sp = 0x80004000, R_a0 = 4, R_a1 = 5, R_a2 = 6\<rparr>"

definition md_example :: "(lseq, lheap) md" where
  "md_example = sched.extend sched_example \<lparr>regs = regs_example, curkstack = 0x80004000, in_interrupt = 0\<rparr>"

lemma regs_md_example [simp]: "regs md_example = regs_example"
  by (simp add: md_example_def sched.extend_def)

lemma save_frame_outside:
  assumes "\<not> a - sp < switchframe_size"
  shows "save_frame sp r m a = m a"
proof -
  have "a \<noteq> sp + k" if "k < 44" for k
    using assms that by (auto simp: switchframe_size_def)
  from this [of 0] show ?thesis
    by (simp add: save_frame_def store_word_def add.assoc \<open>\<And>k. k < 44 \<Longrightarrow> a \<noteq> sp + k\<close>)
qed

lemma frames_apart:
  fixes sp sp' :: u32
  assumes "44 \<le> sp - sp'" and "sp - sp' \<le> - 44" and "a - sp < 44"
  shows "\<not> a - sp' < 44"
proof -
  have "unat (a - sp) < 44" "44 \<le> unat (sp - sp')" "unat (sp - sp') \<le> 2 ^ 32 - 44"
    using assms by (simp_all add: word_less_nat_alt word_le_nat_alt)
  moreover have "unat (a - sp') = unat (a - sp) + unat (sp - sp')"
    using calculation by (subst unat_add_no_wrap [symmetric]) simp_all
  ultimately show ?thesis by (simp add: word_less_nat_alt)
qed

text \<open>
  C23. A context switch is transparent to the thread that is switched out: when the processor later
  switches back to it, with its switch frame untouched in between, all callee-saved registers, the
  global pointer, the return address and the stack pointer are those of the moment it was switched out.
\<close>

theorem mips_switch_roundtrip:
  assumes "mips_switch old nu s = (old', s')"
    and "same_frame (pcb_switchstack old') (kmem s') (save_frame (R_sp (regs t) - 44) (regs t) (kmem t))"
    and "mips_switch other old' t = (other', t')"
  shows "regs t' = (regs s)\<lparr>R_a0 := R_a0 (regs t), R_a1 := R_a1 (regs t), R_a2 := R_a2 (regs t)\<rparr>"
proof -
  let ?sp = "R_sp (regs s) - 44"
  have o: "pcb_switchstack old' = ?sp" "kmem s' = save_frame ?sp (regs s) (kmem s)"
    using assms(1) by (auto simp: mips_switch_def Let_def)
  have "regs t' = load_frame ?sp (kmem s') (regs t)"
    using assms(3) load_frame_same [OF assms(2)] o by (auto simp: mips_switch_def Let_def)
  then show ?thesis by (simp add: o load_save_frame)
qed

theorem mips_switch_roundtrip_witness:
  "let p = \<lparr>pcb_switchstack = 0x80009000, pcb_kstack = 0, pcb_ininterrupt = 0, pcb_badfaultfunc = 0\<rparr>;
       (p', s1) = mips_switch p p md_example;
       (q', s2) = mips_switch p p' (s1\<lparr>regs := (regs s1)\<lparr>R_s0 := 99\<rparr>\<rparr>)
   in regs s2 = regs_example"
proof -
  let ?p = "\<lparr>pcb_switchstack = 0x80009000, pcb_kstack = 0, pcb_ininterrupt = 0, pcb_badfaultfunc = 0\<rparr>"
  obtain p' s1 where p: "mips_switch ?p ?p md_example = (p', s1)" by fastforce
  let ?t = "s1\<lparr>regs := (regs s1)\<lparr>R_s0 := 99\<rparr>\<rparr>"
  obtain q' s2 where t: "mips_switch ?p p' ?t = (q', s2)" by fastforce
  have r: "R_sp (regs s1) = 0x8000902c" "pcb_switchstack p' = 0x80003fd4"
      "R_a0 (regs s1) = 4" "R_a1 (regs s1) = 5" "R_a2 (regs s1) = 6"
    using p by (auto simp: mips_switch_def Let_def regs_example_def load_frame_def)
  have "same_frame (pcb_switchstack p') (kmem s1) (save_frame (R_sp (regs ?t) - 44) (regs ?t) (kmem ?t))"
    unfolding same_frame_def r
    using frames_apart [of "0x80003fd4" "0x80009000"]
    by (auto intro!: save_frame_outside simp: switchframe_size_def r)
  from mips_switch_roundtrip [OF p this t] show ?thesis
    by (simp add: p t r Let_def) (simp add: regs_example_def)
qed

text \<open>
  A new thread starts where it should: after \<open>md_initpcb\<close>, switching to the new control block (the
  frame on the new stack being intact) and running \<open>mips_threadstart\<close> arrives at \<open>mi_threadstart\<close> with
  the three arguments of \<open>thread_fork\<close>, on the top of the new stack.
\<close>

theorem md_initpcb_starts:
  assumes "md_initpcb M stack data1 data2 func s = (p, s1)"
    and "same_frame (pcb_switchstack p) (kmem s1) (save_frame (R_sp (regs t) - 44) (regs t) (kmem t))"
    and "mips_switch other p t = (other', t')"
  shows "R_ra (regs t') = mips_threadstart_addr M \<and> R_sp (regs t') = stack + STACK_SIZE M
    \<and> (let r = mips_threadstart (regs t') in R_a0 r = data1 \<and> R_a1 r = data2 \<and> R_a2 r = func \<and> R_ra r = 0)"
proof -
  let ?sf = "stack + STACK_SIZE M - 44"
  have p: "pcb_switchstack p = ?sf"
    using assms(1) by (auto simp: md_initpcb_def Let_def switchframe_size_def)
  have k: "load_word (kmem s1) ?sf = data1" "load_word (kmem s1) (?sf + 4) = data2"
      "load_word (kmem s1) (?sf + 8) = func" "load_word (kmem s1) (?sf + 40) = mips_threadstart_addr M"
    using assms(1)
    by (auto simp: md_initpcb_def Let_def switchframe_size_def load_store_other add.assoc)
  have "regs t' = load_frame ?sf (kmem s1) (regs t)"
    using assms(3) load_frame_same [OF assms(2)] p by (auto simp: mips_switch_def Let_def)
  then show ?thesis
    using k by (simp add: load_frame_def mips_threadstart_def)
qed

theorem md_initpcb_starts_witness:
  "let (p, s1) = md_initpcb sys161 0x80005000 1 2 3 md_example;
       (other', t') = mips_switch \<lparr>pcb_switchstack = 0, pcb_kstack = 0, pcb_ininterrupt = 0, pcb_badfaultfunc = 0\<rparr> p s1
   in R_ra (regs t') = 0x80010000 \<and> R_sp (regs t') = 0x80006000 \<and> R_a2 (mips_threadstart (regs t')) = 3"
proof -
  obtain p s1 where p: "md_initpcb sys161 0x80005000 1 2 3 md_example = (p, s1)" by fastforce
  let ?o = "\<lparr>pcb_switchstack = 0, pcb_kstack = 0, pcb_ininterrupt = 0, pcb_badfaultfunc = 0\<rparr>"
  obtain o' t' where t: "mips_switch ?o p s1 = (o', t')" by fastforce
  have r: "regs s1 = regs_example" "pcb_switchstack p = 0x80005fd4"
    using p by (auto simp: md_initpcb_def Let_def switchframe_size_def sys161_def)
  have "same_frame (pcb_switchstack p) (kmem s1) (save_frame (R_sp (regs s1) - 44) (regs s1) (kmem s1))"
    unfolding same_frame_def r
    using frames_apart [of "0x80005fd4" "0x80003fd4"]
    by (auto intro!: save_frame_outside simp: switchframe_size_def regs_example_def)
  from md_initpcb_starts [OF p this t] have "R_ra (regs t') = 0x80010000 \<and> R_sp (regs t') = 0x80006000
      \<and> R_a2 (mips_threadstart (regs t')) = 3"
    by (simp add: sys161_def Let_def)
  then show ?thesis by (simp add: p t)
qed

end
