(* ===== verification/Thread.thy ===== *)
theory Thread
  imports Pcb
begin

text \<open>
  The core thread system, \<^verbatim>\<open>kern/thread/thread.c\<close> with \<^verbatim>\<open>thread.h\<close> and \<open>md_switch\<close> of \<^verbatim>\<open>pcb.c\<close>: creation,
  destruction, fork, exit, yield, sleep and wake-up, and the context switch \<open>mi_switch\<close>.

  A call that switches away does not return to its caller before the thread runs again, so the
  switching operations return an \<open>outcome\<close>: \<open>Returned\<close> in the calling thread, \<open>Switched\<close> to another
  thread's registers (which continues at its own \<open>ra\<close>: in \<open>mi_switch_resume\<close>, or in \<open>mips_threadstart\<close>
  for a thread that never ran), or \<open>Idling\<close> with no thread to run.
\<close>

section \<open>State\<close>

datatype threadstate = S_RUN | S_READY | S_SLEEP | S_ZOMB

record thread =
  t_pcb :: pcb
  t_name :: ptr
  t_sleepaddr :: ptr
  t_stack :: ptr
  pid :: s32
  exit_status :: s32
  parent :: ptr
  pros_exit :: s32
  numchilds :: s32
  t_vmspace :: ptr
  t_cwd :: ptr

text \<open>\<open>threads\<close> and \<open>tables\<close> are the stores of \<open>struct thread\<close> objects and of process tables.\<close>

record ('q, 'a, 'h) kern = "('q, 'h) md" +
  curthread :: ptr
  sleepers :: "'a option"
  zombies :: "'a option"
  numthreads :: s32
  numprocesses :: s32
  full_process_table :: ptr
  tables :: "ptr \<rightharpoonup> ptr list"
  threads :: "ptr \<rightharpoonup> thread"

datatype 's outcome = Returned 's | Switched 's | Idling 's

section \<open>Creation and destruction\<close>

definition fptInitialize ::
  "('q, 'a, 'h) klib \<Rightarrow> ('q, 'a, 'h, 'z) kern_scheme \<Rightarrow> ('q, 'a, 'h, 'z) kern_scheme run" where
  "fptInitialize L s =
     (let (p, h) = kmalloc L (128 * 4) (kheap s)
      in if p = NULL then Inl (BadDeref ''full_process_table'')
         else Inr (s\<lparr>kheap := h, full_process_table := p, tables := (tables s)(p \<mapsto> replicate 128 NULL)\<rparr>))"

text \<open>A new structure; its control block is filled in by the caller.\<close>

definition new_thread :: "ptr \<Rightarrow> thread" where
  "new_thread nm = \<lparr>t_pcb = \<lparr>pcb_switchstack = 0, pcb_kstack = 0, pcb_ininterrupt = 0, pcb_badfaultfunc = 0\<rparr>,
     t_name = nm, t_sleepaddr = NULL, t_stack = NULL, pid = 0, exit_status = -1, parent = NULL,
     pros_exit = 0, numchilds = 0, t_vmspace = NULL, t_cwd = NULL\<rparr>"

definition thread_create ::
  "('q, 'a, 'h) klib \<Rightarrow> machine \<Rightarrow> string \<Rightarrow> ('q, 'a, 'h, 'z) kern_scheme
     \<Rightarrow> (ptr \<times> ('q, 'a, 'h, 'z) kern_scheme) run" where
  "thread_create L M name s =
     (let (p, h1) = kmalloc L (sizeof_thread M) (kheap s)
      in if p = NULL then Inr (NULL, s\<lparr>kheap := h1\<rparr>) else
      let (nm, h2) = kstrdup L name h1
      in if nm = NULL then Inr (NULL, s\<lparr>kheap := kfree L p h2\<rparr>) else
      let s1 = s\<lparr>kheap := h2, threads := (threads s)(p \<mapsto> new_thread nm)\<rparr>
      in if numprocesses s1 = 0 then bnd (fptInitialize L s1) (\<lambda>s2. Inr (p, s2)) else Inr (p, s1))"

definition thread_destroy ::
  "('q, 'a, 'h) klib \<Rightarrow> ptr \<Rightarrow> ('q, 'a, 'h, 'z) kern_scheme \<Rightarrow> ('q, 'a, 'h, 'z) kern_scheme run" where
  "thread_destroy L p s =
     kassert (p \<noteq> curthread s) ''thread != curthread'' (
     deref (threads s) p ''thread'' (\<lambda>t.
     kassert (t_vmspace t = NULL) ''t_vmspace==NULL'' (
     kassert (t_cwd t = NULL) ''t_cwd==NULL'' (
     let h1 = (if t_stack t \<noteq> NULL then kfree L (t_stack t) (kheap s) else kheap s);
         h2 = kfree L (t_name t) h1;
         h3 = kfree L p h2
     in Inr (s\<lparr>kheap := h3, threads := (threads s)(p := None)\<rparr>)))))"

primrec exorcise_loop ::
  "('q, 'a, 'h) klib \<Rightarrow> 'a \<Rightarrow> nat list \<Rightarrow> ('q, 'a, 'h, 'z) kern_scheme \<Rightarrow> ('q, 'a, 'h, 'z) kern_scheme run" where
  "exorcise_loop L zs [] s = Inr s"
| "exorcise_loop L zs (i # is) s =
     (let z = array_getguy L zs (int i)
      in kassert (z \<noteq> curthread s) ''z!=curthread'' (
         bnd (thread_destroy L z s) (exorcise_loop L zs is)))"

definition exorcise ::
  "('q, 'a, 'h) klib \<Rightarrow> ('q, 'a, 'h, 'z) kern_scheme \<Rightarrow> ('q, 'a, 'h, 'z) kern_scheme run" where
  "exorcise L s =
     kassert (curspl s > 0) ''curspl>0'' (
     deref_opt (zombies s) ''zombies'' (\<lambda>zs.
     bnd (exorcise_loop L zs [0..<nat (array_getnum L zs)] s) (\<lambda>s1.
     let (result, zs', h) = array_setsize L zs 0 (kheap s1)
     in kassert (result = 0) ''result==0'' (Inr (s1\<lparr>zombies := Some zs', kheap := h\<rparr>)))))"

section \<open>Start-up and shutdown\<close>

text \<open>The loop of \<open>thread_killall\<close> only prints the names of the threads it drops.\<close>

primrec drop_loop ::
  "('q, 'a, 'h) klib \<Rightarrow> 'a \<Rightarrow> nat list \<Rightarrow> ('q, 'a, 'h, 'z) kern_scheme \<Rightarrow> ('q, 'a, 'h, 'z) kern_scheme run" where
  "drop_loop L a [] s = Inr s"
| "drop_loop L a (i # is) s = deref (threads s) (array_getguy L a (int i)) ''t'' (\<lambda>t. drop_loop L a is s)"

definition thread_killall ::
  "('q, 'a, 'h) klib \<Rightarrow> ('q, 'a, 'h, 'z) kern_scheme \<Rightarrow> ('q, 'a, 'h, 'z) kern_scheme run" where
  "thread_killall L s =
     kassert (curspl s > 0) ''curspl>0'' (
     deref_opt (sleepers s) ''sleepers'' (\<lambda>a.
     bnd (drop_loop L a [0..<nat (array_getnum L a)] s) (\<lambda>s1.
     let (result, a', h) = array_setsize L a 0 (kheap s1)
     in kassert (result = 0) ''result==0'' (Inr (s1\<lparr>sleepers := Some a', kheap := h\<rparr>)))))"

definition thread_panic ::
  "('q, 'a, 'h) klib \<Rightarrow> nat \<Rightarrow> ('q, 'a, 'h, 'z) kern_scheme \<Rightarrow> ('q, 'a, 'h, 'z) kern_scheme run" where
  "thread_panic L fuel s =
     kassert (curspl s > 0) ''curspl > 0'' (bnd (thread_killall L s) (scheduler_killall L fuel))"

definition thread_bootstrap ::
  "('q, 'a, 'h) klib \<Rightarrow> machine \<Rightarrow> ('q, 'a, 'h, 'z) kern_scheme \<Rightarrow> (ptr \<times> ('q, 'a, 'h, 'z) kern_scheme) run" where
  "thread_bootstrap L M s =
     (let (sl, h1) = array_create L (kheap s)
      in if sl = None then Inl (Panic ''Cannot create sleepers array'') else
      let (zo, h2) = array_create L h1
      in if zo = None then Inl (Panic ''Cannot create zombies array'') else
      bnd (thread_create L M ''<boot/menu>'' (s\<lparr>kheap := h2, sleepers := sl, zombies := zo\<rparr>)) (\<lambda>(me, s1).
      if me = NULL then Inl (Panic ''thread_bootstrap: Out of memory'') else
      deref (threads s1) me ''me'' (\<lambda>t.
      Inr (me, s1\<lparr>threads := (threads s1)(me \<mapsto> t\<lparr>t_pcb := md_initpcb0 s1\<rparr>), curthread := me, numthreads := 1\<rparr>))))"

definition thread_shutdown ::
  "('q, 'a, 'h) klib \<Rightarrow> ('q, 'a, 'h, 'z) kern_scheme \<Rightarrow> ('q, 'a, 'h, 'z) kern_scheme run" where
  "thread_shutdown L s =
     deref_opt (sleepers s) ''sleepers'' (\<lambda>a.
     deref_opt (zombies s) ''zombies'' (\<lambda>z.
     Inr (s\<lparr>sleepers := None, zombies := None, kheap := array_destroy L z (array_destroy L a (kheap s))\<rparr>)))"

section \<open>Fork\<close>

definition put_magic :: "ptr \<Rightarrow> (u32 \<Rightarrow> byte) \<Rightarrow> (u32 \<Rightarrow> byte)" where
  "put_magic stk m = m(stk := 0xae, stk + 1 := 0x11, stk + 2 := 0xda, stk + 3 := 0x33)"

text \<open>The part with interrupts off: room for one more thread everywhere, then the run queue.\<close>

definition fork_enqueue ::
  "('q, 'a, 'h) klib \<Rightarrow> ptr \<Rightarrow> ('q, 'a, 'h, 'z) kern_scheme \<Rightarrow> (int \<times> ('q, 'a, 'h, 'z) kern_scheme) run" where
  "fork_enqueue L p s =
     deref_opt (sleepers s) ''sleepers'' (\<lambda>a.
     let (r1, a', h1) = array_preallocate L a (sint (numthreads s + 1)) (kheap s);
         s1 = s\<lparr>sleepers := Some a', kheap := h1\<rparr>
     in if r1 \<noteq> 0 then Inr (r1, s1) else
     deref_opt (zombies s1) ''zombies'' (\<lambda>z.
     let (r2, z', h2) = array_preallocate L z (sint (numthreads s1 + 1)) (kheap s1);
         s2 = s1\<lparr>zombies := Some z', kheap := h2\<rparr>
     in if r2 \<noteq> 0 then Inr (r2, s2) else
     bnd (scheduler_preallocate L (sint (numthreads s2 + 1)) s2) (\<lambda>(r3, s3).
     if r3 \<noteq> 0 then Inr (r3, s3) else
     bnd (make_runnable L p s3) (\<lambda>(r4, s4).
     if r4 \<noteq> 0 then Inr (r4, s4) else Inr (0, s4\<lparr>numthreads := numthreads s4 + 1\<rparr>)))))"

text \<open>The clean-up after the label \<open>fail\<close>.\<close>

definition fork_fail ::
  "('q, 'a, 'h) klib \<Rightarrow> ptr \<Rightarrow> ('q, 'a, 'h, 'z) kern_scheme \<Rightarrow> ('q, 'a, 'h, 'z) kern_scheme run" where
  "fork_fail L p s =
     deref (threads s) p ''newguy'' (\<lambda>t.
     let h1 = (if t_cwd t \<noteq> NULL then VOP_DECREF L (t_cwd t) (kheap s) else kheap s);
         h2 = kfree L p (kfree L (t_name t) (kfree L (t_stack t) h1))
     in Inr (s\<lparr>kheap := h2, threads := (threads s)(p := None)\<rparr>))"

text \<open>
  Returns the error code and, on success, the new thread (what the code stores through \<open>ret\<close>). A null
  \<open>curthread\<close> is caught when its directory is read.
\<close>

definition thread_fork ::
  "('q, 'a, 'h) klib \<Rightarrow> machine \<Rightarrow> string \<Rightarrow> u32 \<Rightarrow> u32 \<Rightarrow> u32 \<Rightarrow> ('q, 'a, 'h, 'z) kern_scheme
     \<Rightarrow> ((int \<times> ptr option) \<times> ('q, 'a, 'h, 'z) kern_scheme) run" where
  "thread_fork L M name data1 data2 func s =
     bnd (thread_create L M name s) (\<lambda>(p, s1).
     if p = NULL then Inr ((ENOMEM, None), s1) else
     deref (threads s1) p ''newguy'' (\<lambda>t.
     let (stk, h) = kmalloc L (unat (STACK_SIZE M)) (kheap s1)
     in if stk = NULL then
          Inr ((ENOMEM, None), s1\<lparr>kheap := kfree L p (kfree L (t_name t) h), threads := (threads s1)(p := None)\<rparr>)
     else
     deref (threads s1) (curthread s1) ''curthread'' (\<lambda>cur.
     let h' = (if t_cwd cur \<noteq> NULL then VOP_INCREF L (t_cwd cur) h else h);
         s2 = s1\<lparr>kheap := h', kmem := put_magic stk (kmem s1)\<rparr>;
         (pcb', s3) = md_initpcb M stk data1 data2 func s2;
         t' = t\<lparr>t_stack := stk, t_cwd := t_cwd cur, t_pcb := pcb'\<rparr>;
         (spl, s4) = splhigh M (s3\<lparr>threads := (threads s3)(p \<mapsto> t')\<rparr>)
     in bnd (fork_enqueue L p s4) (\<lambda>(result, s5).
        let (_, s6) = splx M spl s5
        in if result = 0 then Inr ((0, Some p), s6)
           else bnd (fork_fail L p s6) (\<lambda>s7. Inr ((result, None), s7))))))"

section \<open>The context switch\<close>

definition check_magic ::
  "thread \<Rightarrow> ('q, 'a, 'h, 'z) kern_scheme \<Rightarrow> 'r run \<Rightarrow> 'r run" where
  "check_magic t s k =
     kassert (kmem s (t_stack t) = 0xae) ''t_stack[0]'' (
     kassert (kmem s (t_stack t + 1) = 0x11) ''t_stack[1]'' (
     kassert (kmem s (t_stack t + 2) = 0xda) ''t_stack[2]'' (
     kassert (kmem s (t_stack t + 3) = 0x33) ''t_stack[3]'' k)))"

text \<open>
  \<open>md_switch(&old->t_pcb, &nu->t_pcb)\<close>, with the call of \<open>mips_switch\<close> leaving its return address in
  \<open>ra\<close>. The result says whether the processor switched.
\<close>

definition md_switch ::
  "machine \<Rightarrow> ptr \<Rightarrow> ptr \<Rightarrow> ('q, 'a, 'h, 'z) kern_scheme \<Rightarrow> (bool \<times> ('q, 'a, 'h, 'z) kern_scheme) run" where
  "md_switch M old nu s =
     (if old = nu then Inr (False, s) else
      deref (threads s) old ''old'' (\<lambda>to.
      deref (threads s) nu ''nu'' (\<lambda>tn.
      let old1 = (t_pcb to)\<lparr>pcb_kstack := curkstack s, pcb_ininterrupt := in_interrupt s\<rparr>;
          s1 = s\<lparr>curkstack := pcb_kstack (t_pcb tn), in_interrupt := pcb_ininterrupt (t_pcb tn),
                 regs := (regs s)\<lparr>R_ra := md_switch_return M\<rparr>\<rparr>;
          (old2, s2) = mips_switch old1 (t_pcb tn) s1
      in Inr (True, s2\<lparr>threads := (threads s2)(old \<mapsto> to\<lparr>t_pcb := old2\<rparr>)\<rparr>))))"

text \<open>Stashing the current thread on the list for its next state.\<close>

definition park ::
  "('q, 'a, 'h) klib \<Rightarrow> threadstate \<Rightarrow> ptr \<Rightarrow> ('q, 'a, 'h, 'z) kern_scheme \<Rightarrow> ('q, 'a, 'h, 'z) kern_scheme run" where
  "park L nextstate cur s =
     bnd (if nextstate = S_READY then make_runnable L cur s
          else if nextstate = S_SLEEP then
            deref_opt (sleepers s) ''sleepers'' (\<lambda>a.
            let (r, a', h) = array_add L a cur (kheap s) in Inr (r, s\<lparr>sleepers := Some a', kheap := h\<rparr>))
          else
            kassert (nextstate = S_ZOMB) ''nextstate==S_ZOMB'' (
            deref_opt (zombies s) ''zombies'' (\<lambda>a.
            let (r, a', h) = array_add L a cur (kheap s) in Inr (r, s\<lparr>zombies := Some a', kheap := h\<rparr>))))
       (\<lambda>(result, s1). kassert (result = 0) ''result==0'' (Inr s1))"

text \<open>The part of \<open>mi_switch\<close> after \<open>md_switch\<close>, which a thread runs when it is switched to again.\<close>

definition mi_switch_resume ::
  "('q, 'a, 'h) klib \<Rightarrow> machine \<Rightarrow> ('q, 'a, 'h, 'z) kern_scheme \<Rightarrow> ('q, 'a, 'h, 'z) kern_scheme run" where
  "mi_switch_resume L M s =
     bnd (exorcise L s) (\<lambda>s1.
     deref (threads s1) (curthread s1) ''curthread'' (\<lambda>t.
     Inr (if t_vmspace t \<noteq> NULL then as_activate M (t_vmspace t) s1 else s1)))"

text \<open>The part of \<open>mi_switch\<close> from the call of the scheduler on; \<open>cur\<close> is already on a list.\<close>

definition mi_switch_pick ::
  "('q, 'a, 'h) klib \<Rightarrow> machine
     \<Rightarrow> (('q, 'a, 'h, 'z) kern_scheme \<Rightarrow> ('q, 'a, 'h, 'z) kern_scheme run) list
     \<Rightarrow> ptr \<Rightarrow> ('q, 'a, 'h, 'z) kern_scheme \<Rightarrow> ('q, 'a, 'h, 'z) kern_scheme outcome run" where
  "mi_switch_pick L M evs cur s =
     bnd (scheduler L M evs s) (\<lambda>pk. case pk of
       StillIdle s1 \<Rightarrow> Inr (Idling s1)
     | Picked nxt s1 \<Rightarrow>
         bnd (md_switch M cur nxt (s1\<lparr>curthread := nxt\<rparr>)) (\<lambda>(switched, s2).
         if switched then Inr (Switched s2)
         else bnd (mi_switch_resume L M s2) (\<lambda>s3. Inr (Returned s3))))"

definition mi_switch ::
  "('q, 'a, 'h) klib \<Rightarrow> machine
     \<Rightarrow> (('q, 'a, 'h, 'z) kern_scheme \<Rightarrow> ('q, 'a, 'h, 'z) kern_scheme run) list
     \<Rightarrow> threadstate \<Rightarrow> ('q, 'a, 'h, 'z) kern_scheme \<Rightarrow> ('q, 'a, 'h, 'z) kern_scheme outcome run" where
  "mi_switch L M evs nextstate s =
     kassert (curspl s > 0) ''curspl>0'' (
     if curthread s = NULL then Inr (Returned s) else
     deref (threads s) (curthread s) ''curthread'' (\<lambda>t.
     (if t_stack t \<noteq> NULL then check_magic t s else id) (
     let cur = curthread s
     in bnd (park L nextstate cur (s\<lparr>curthread := NULL\<rparr>)) (mi_switch_pick L M evs cur))))"

section \<open>Exit, yield, sleep, wake-up\<close>

text \<open>What the caller of \<open>mi_switch\<close> does when it comes back at once.\<close>

definition on_return :: "('s \<Rightarrow> 's run) \<Rightarrow> 's outcome \<Rightarrow> 's outcome run" where
  "on_return k out = (case out of Returned s \<Rightarrow> bnd (k s) (\<lambda>s'. Inr (Returned s')) | _ \<Rightarrow> Inr out)"

text \<open>What \<open>thread_exit\<close> gives back at once: the address space and the current directory.\<close>

definition exit_cleanup ::
  "('q, 'a, 'h) klib \<Rightarrow> thread \<Rightarrow> ('q, 'a, 'h, 'z) kern_scheme \<Rightarrow> ('q, 'a, 'h, 'z) kern_scheme" where
  "exit_cleanup L t s =
     (let t1 = t\<lparr>t_vmspace := NULL\<rparr>;
          s1 = (if t_vmspace t \<noteq> NULL
                then as_destroy L (t_vmspace t) (s\<lparr>threads := (threads s)(curthread s \<mapsto> t1)\<rparr>) else s)
      in if t_cwd t1 \<noteq> NULL
         then s1\<lparr>kheap := VOP_DECREF L (t_cwd t1) (kheap s1),
                 threads := (threads s1)(curthread s1 \<mapsto> t1\<lparr>t_cwd := NULL\<rparr>)\<rparr>
         else s1)"

definition thread_exit ::
  "('q, 'a, 'h) klib \<Rightarrow> machine
     \<Rightarrow> (('q, 'a, 'h, 'z) kern_scheme \<Rightarrow> ('q, 'a, 'h, 'z) kern_scheme run) list
     \<Rightarrow> ('q, 'a, 'h, 'z) kern_scheme \<Rightarrow> ('q, 'a, 'h, 'z) kern_scheme outcome run" where
  "thread_exit L M evs s =
     deref (threads s) (curthread s) ''curthread'' (\<lambda>t.
     (if t_stack t \<noteq> NULL then check_magic t s else id) (
     let s1 = exit_cleanup L t (snd (splhigh M s))
     in kassert (sint (numthreads s1) > 0) ''numthreads>0'' (
        bnd (mi_switch L M evs S_ZOMB (s1\<lparr>numthreads := numthreads s1 - 1\<rparr>))
          (on_return (\<lambda>s2. Inl (Panic ''Thread came back from the dead!''))))))"

definition thread_yield ::
  "('q, 'a, 'h) klib \<Rightarrow> machine
     \<Rightarrow> (('q, 'a, 'h, 'z) kern_scheme \<Rightarrow> ('q, 'a, 'h, 'z) kern_scheme run) list
     \<Rightarrow> ('q, 'a, 'h, 'z) kern_scheme \<Rightarrow> ('q, 'a, 'h, 'z) kern_scheme outcome run" where
  "thread_yield L M evs s =
     (let (spl, s1) = splhigh M s
      in kassert (sleepers s1 \<noteq> None) ''sleepers != NULL'' (
         bnd (mi_switch L M evs S_READY s1) (on_return (\<lambda>s2. Inr (snd (splx M spl s2))))))"

definition thread_yield_resume ::
  "('q, 'a, 'h) klib \<Rightarrow> machine \<Rightarrow> int \<Rightarrow> ('q, 'a, 'h, 'z) kern_scheme \<Rightarrow> ('q, 'a, 'h, 'z) kern_scheme run" where
  "thread_yield_resume L M spl s = bnd (mi_switch_resume L M s) (\<lambda>s1. Inr (snd (splx M spl s1)))"

definition clear_sleepaddr :: "('q, 'a, 'h, 'z) kern_scheme \<Rightarrow> ('q, 'a, 'h, 'z) kern_scheme run" where
  "clear_sleepaddr s =
     deref (threads s) (curthread s) ''curthread'' (\<lambda>t.
     Inr (s\<lparr>threads := (threads s)(curthread s \<mapsto> t\<lparr>t_sleepaddr := NULL\<rparr>)\<rparr>))"

definition thread_sleep ::
  "('q, 'a, 'h) klib \<Rightarrow> machine
     \<Rightarrow> (('q, 'a, 'h, 'z) kern_scheme \<Rightarrow> ('q, 'a, 'h, 'z) kern_scheme run) list
     \<Rightarrow> ptr \<Rightarrow> ('q, 'a, 'h, 'z) kern_scheme \<Rightarrow> ('q, 'a, 'h, 'z) kern_scheme outcome run" where
  "thread_sleep L M evs addr s =
     kassert (in_interrupt s = 0) ''in_interrupt==0'' (
     deref (threads s) (curthread s) ''curthread'' (\<lambda>t.
     bnd (mi_switch L M evs S_SLEEP (s\<lparr>threads := (threads s)(curthread s \<mapsto> t\<lparr>t_sleepaddr := addr\<rparr>)\<rparr>))
       (on_return clear_sleepaddr)))"

definition thread_sleep_resume ::
  "('q, 'a, 'h) klib \<Rightarrow> machine \<Rightarrow> ('q, 'a, 'h, 'z) kern_scheme \<Rightarrow> ('q, 'a, 'h, 'z) kern_scheme run" where
  "thread_sleep_resume L M s = bnd (mi_switch_resume L M s) clear_sleepaddr"

text \<open>
  The wake-up loop. Each iteration either removes the thread at index \<open>i\<close> or moves on, so the number
  of sleepers bounds the iterations (\<open>thread_wakeup_moves\<close> shows that this bound is enough).
\<close>

primrec wakeup_loop ::
  "('q, 'a, 'h) klib \<Rightarrow> ptr \<Rightarrow> nat \<Rightarrow> int \<Rightarrow> ('q, 'a, 'h, 'z) kern_scheme \<Rightarrow> ('q, 'a, 'h, 'z) kern_scheme run" where
  "wakeup_loop L addr 0 i s = Inl OutOfFuel"
| "wakeup_loop L addr (Suc n) i s =
     deref_opt (sleepers s) ''sleepers'' (\<lambda>a.
     if i < array_getnum L a then
       let t = array_getguy L a i
       in deref (threads s) t ''t'' (\<lambda>tt.
          if t_sleepaddr tt = addr then
            bnd (make_runnable L t (s\<lparr>sleepers := Some (array_remove L a i)\<rparr>)) (\<lambda>(result, s1).
            kassert (result = 0) ''result==0'' (wakeup_loop L addr n (i - 1 + 1) s1))
          else wakeup_loop L addr n (i + 1) s)
     else Inr s)"

definition thread_wakeup ::
  "('q, 'a, 'h) klib \<Rightarrow> ptr \<Rightarrow> ('q, 'a, 'h, 'z) kern_scheme \<Rightarrow> ('q, 'a, 'h, 'z) kern_scheme run" where
  "thread_wakeup L addr s =
     kassert (curspl s > 0) ''curspl>0'' (
     deref_opt (sleepers s) ''sleepers'' (\<lambda>a.
     wakeup_loop L addr (Suc (nat (array_getnum L a))) 0 s))"

primrec hassleepers_loop ::
  "('q, 'a, 'h) klib \<Rightarrow> ptr \<Rightarrow> 'a \<Rightarrow> nat list \<Rightarrow> ('q, 'a, 'h, 'z) kern_scheme \<Rightarrow> int run" where
  "hassleepers_loop L addr a [] s = Inr 0"
| "hassleepers_loop L addr a (i # is) s =
     deref (threads s) (array_getguy L a (int i)) ''t'' (\<lambda>t.
     if t_sleepaddr t = addr then Inr 1 else hassleepers_loop L addr a is s)"

definition thread_hassleepers ::
  "('q, 'a, 'h) klib \<Rightarrow> ptr \<Rightarrow> ('q, 'a, 'h, 'z) kern_scheme \<Rightarrow> int run" where
  "thread_hassleepers L addr s =
     kassert (curspl s > 0) ''curspl>0'' (
     deref_opt (sleepers s) ''sleepers'' (\<lambda>a.
     hassleepers_loop L addr a [0..<nat (array_getnum L a)] s))"

text \<open>
  A new thread: \<open>mi_threadstart\<close> up to the call of its function, and the whole of it for a function
  that runs to its end without giving up the processor. (The option to yield a random number of times
  first, \<^verbatim>\<open>OPT_SYNCHPROBS\<close>, is a build option and off here.)
\<close>

definition mi_threadstart_enter ::
  "machine \<Rightarrow> ('q, 'a, 'h, 'z) kern_scheme \<Rightarrow> ('q, 'a, 'h, 'z) kern_scheme run" where
  "mi_threadstart_enter M s =
     deref (threads s) (curthread s) ''curthread'' (\<lambda>t.
     Inr (snd (spl0 M (if t_vmspace t \<noteq> NULL then as_activate M (t_vmspace t) s else s))))"

definition mi_threadstart ::
  "('q, 'a, 'h) klib \<Rightarrow> machine
     \<Rightarrow> (('q, 'a, 'h, 'z) kern_scheme \<Rightarrow> ('q, 'a, 'h, 'z) kern_scheme run) list
     \<Rightarrow> u32 \<Rightarrow> u32 \<Rightarrow> (u32 \<Rightarrow> u32 \<Rightarrow> ('q, 'a, 'h, 'z) kern_scheme \<Rightarrow> ('q, 'a, 'h, 'z) kern_scheme run)
     \<Rightarrow> ('q, 'a, 'h, 'z) kern_scheme \<Rightarrow> ('q, 'a, 'h, 'z) kern_scheme outcome run" where
  "mi_threadstart L M evs data1 data2 func s =
     bnd (mi_threadstart_enter M s) (\<lambda>s1. bnd (func data1 data2 s1) (thread_exit L M evs))"

end
