(* ===== verification/Thread_Inv.thy ===== *)
theory Thread_Inv
  imports Thread "HOL-Library.Multiset"
begin

text \<open>
  The invariant of the thread system and what each operation does to it. The main result is that the
  assertions of \<open>mi_switch\<close>, \<open>thread_wakeup\<close> and \<open>thread_destroy\<close> never fail: \<open>thread_fork\<close> makes room for
  every thread on every list in advance, and no thread is ever on two lists.
\<close>

section \<open>The lists of threads\<close>

definition slp :: "('q, 'a, 'h) klib \<Rightarrow> ('q, 'a, 'h, 'z) kern_scheme \<Rightarrow> ptr list" where
  "slp L s = (case sleepers s of None \<Rightarrow> [] | Some a \<Rightarrow> a_list L a)"

definition zmb :: "('q, 'a, 'h) klib \<Rightarrow> ('q, 'a, 'h, 'z) kern_scheme \<Rightarrow> ptr list" where
  "zmb L s = (case zombies s of None \<Rightarrow> [] | Some a \<Rightarrow> a_list L a)"

definition slp_room :: "('q, 'a, 'h) klib \<Rightarrow> ('q, 'a, 'h, 'z) kern_scheme \<Rightarrow> nat" where
  "slp_room L s = (case sleepers s of None \<Rightarrow> 0 | Some a \<Rightarrow> a_room L a)"

definition zmb_room :: "('q, 'a, 'h) klib \<Rightarrow> ('q, 'a, 'h, 'z) kern_scheme \<Rightarrow> nat" where
  "zmb_room L s = (case zombies s of None \<Rightarrow> 0 | Some a \<Rightarrow> a_room L a)"

definition running :: "('q, 'a, 'h, 'z) kern_scheme \<Rightarrow> ptr list" where
  "running s = (if curthread s = NULL then [] else [curthread s])"

definition live :: "('q, 'a, 'h) klib \<Rightarrow> ('q, 'a, 'h, 'z) kern_scheme \<Rightarrow> ptr list" where
  "live L s = running s @ ready L s @ slp L s"

lemmas view_defs = ready_def run_room_def slp_def zmb_def slp_room_def zmb_room_def running_def live_def

section \<open>Ownership of heap blocks\<close>

text \<open>The heap blocks that belong to a thread, without the null pointers.\<close>

definition thread_blocks :: "ptr \<Rightarrow> thread \<Rightarrow> ptr list" where
  "thread_blocks p t = filter (\<lambda>b. b \<noteq> NULL) [p, t_name t, t_stack t, t_vmspace t]"

text \<open>Every thread owns its blocks, and owns them alone.\<close>

definition blocks_ok :: "ptr set \<Rightarrow> (ptr \<rightharpoonup> thread) \<Rightarrow> bool" where
  "blocks_ok own T \<longleftrightarrow> T NULL = None
     \<and> (\<forall>p t. T p = Some t \<longrightarrow> distinct (thread_blocks p t) \<and> set (thread_blocks p t) \<subseteq> own)
     \<and> (\<forall>p q t u. T p = Some t \<and> T q = Some u \<and> p \<noteq> q \<longrightarrow> set (thread_blocks p t) \<inter> set (thread_blocks q u) = {})"

lemma blocks_okD:
  assumes "blocks_ok own T" and "T p = Some t"
  shows "distinct (thread_blocks p t)" and "set (thread_blocks p t) \<subseteq> own" and "p \<noteq> NULL"
  using assms by (auto simp: blocks_ok_def)

lemma blocks_ok_apart:
  assumes "blocks_ok own T" and "T p = Some t" and "T q = Some u" and "p \<noteq> q"
  shows "set (thread_blocks p t) \<inter> set (thread_blocks q u) = {}"
  using assms unfolding blocks_ok_def by blast

lemma blocks_ok_self: "blocks_ok own T \<Longrightarrow> T p = Some t \<Longrightarrow> p \<in> own"
  using blocks_okD [of own T p t] by (auto simp: thread_blocks_def)

text \<open>A thread gives up some of its blocks, or changes fields that are not blocks.\<close>

lemma blocks_ok_shrink:
  assumes ok: "blocks_ok own T" and p: "T p = Some t"
    and t': "set (thread_blocks p t') \<subseteq> set (thread_blocks p t)" "distinct (thread_blocks p t')"
  shows "blocks_ok (own - (set (thread_blocks p t) - set (thread_blocks p t'))) (T(p \<mapsto> t'))"
  unfolding blocks_ok_def
proof (intro conjI allI impI)
  show "(T(p \<mapsto> t')) NULL = None" using ok p by (auto simp: blocks_ok_def)
next
  fix q u assume "(T(p \<mapsto> t')) q = Some u"
  then show "distinct (thread_blocks q u)" using blocks_okD [OF ok] t' by (auto split: if_splits)
next
  fix q u assume q: "(T(p \<mapsto> t')) q = Some u"
  show "set (thread_blocks q u) \<subseteq> own - (set (thread_blocks p t) - set (thread_blocks p t'))"
  proof (cases "q = p")
    case True
    with q t' blocks_okD [OF ok p] show ?thesis by auto
  next
    case False
    with q blocks_okD [OF ok, of q u] blocks_ok_apart [OF ok p, of q u] show ?thesis by auto
  qed
next
  fix a b u v assume h: "(T(p \<mapsto> t')) a = Some u \<and> (T(p \<mapsto> t')) b = Some v \<and> a \<noteq> b"
  then have "T a = Some u \<or> a = p \<and> u = t'" "T b = Some v \<or> b = p \<and> v = t'" by (auto split: if_splits)
  with h t' p blocks_ok_apart [OF ok] show "set (thread_blocks a u) \<inter> set (thread_blocks b v) = {}"
    by (auto split: if_splits) (blast+)
qed

lemma blocks_ok_same:
  assumes "blocks_ok own T" and "T p = Some t" and "thread_blocks p t' = thread_blocks p t"
  shows "blocks_ok own (T(p \<mapsto> t'))"
  using blocks_ok_shrink [OF assms(1,2), of t'] blocks_okD [OF assms(1,2)] assms(3) by simp

lemma blocks_ok_add:
  assumes ok: "blocks_ok own T" and p: "p \<noteq> NULL" "distinct (thread_blocks p t)"
    and new: "set (thread_blocks p t) \<inter> own = {}" "own \<union> set (thread_blocks p t) \<subseteq> own'"
  shows "blocks_ok own' (T(p \<mapsto> t))"
  unfolding blocks_ok_def
proof (intro conjI allI impI)
  show "(T(p \<mapsto> t)) NULL = None" using ok p by (auto simp: blocks_ok_def)
next
  fix q u assume "(T(p \<mapsto> t)) q = Some u"
  then show "distinct (thread_blocks q u)" using blocks_okD [OF ok] p by (auto split: if_splits)
next
  fix q u assume "(T(p \<mapsto> t)) q = Some u"
  then show "set (thread_blocks q u) \<subseteq> own'"
    using blocks_okD(2) [OF ok, of q u] new by (auto split: if_splits)
next
  fix a b u v assume h: "(T(p \<mapsto> t)) a = Some u \<and> (T(p \<mapsto> t)) b = Some v \<and> a \<noteq> b"
  then show "set (thread_blocks a u) \<inter> set (thread_blocks b v) = {}"
    using blocks_ok_apart [OF ok, of a u b v] blocks_okD(2) [OF ok, of a u] blocks_okD(2) [OF ok, of b v] new
    by (auto split: if_splits)
qed

lemma blocks_ok_remove:
  assumes ok: "blocks_ok own T" and p: "T p = Some t"
  shows "blocks_ok (own - set (thread_blocks p t)) (T(p := None))"
  unfolding blocks_ok_def
proof (intro conjI allI impI)
  show "(T(p := None)) NULL = None" using ok by (simp add: blocks_ok_def)
next
  fix q u assume "(T(p := None)) q = Some u"
  then show "distinct (thread_blocks q u)" using blocks_okD [OF ok] by (auto split: if_splits)
next
  fix q u assume "(T(p := None)) q = Some u"
  then have "T q = Some u" "q \<noteq> p" by (auto split: if_splits)
  then show "set (thread_blocks q u) \<subseteq> own - set (thread_blocks p t)"
    using blocks_okD [OF ok, of q u] blocks_ok_apart [OF ok p, of q u] by auto
next
  fix a b u v assume "(T(p := None)) a = Some u \<and> (T(p := None)) b = Some v \<and> a \<noteq> b"
  then show "set (thread_blocks a u) \<inter> set (thread_blocks b v) = {}"
    using blocks_ok_apart [OF ok, of a u b v] by (auto split: if_splits)
qed

lemma blocks_ok_mono:
  assumes "blocks_ok own T" and "own \<subseteq> own'"
  shows "blocks_ok own' T"
  using assms unfolding blocks_ok_def by (meson subset_trans)

section \<open>The invariant\<close>

definition thread_inv :: "('q, 'a, 'h) klib \<Rightarrow> ('q, 'a, 'h, 'z) kern_scheme \<Rightarrow> bool" where
  "thread_inv L s \<longleftrightarrow> klib_laws L \<and> runqueue s \<noteq> None \<and> sleepers s \<noteq> None \<and> zombies s \<noteq> None
     \<and> distinct (live L s @ zmb L s) \<and> set (live L s @ zmb L s) \<subseteq> dom (threads s)
     \<and> blocks_ok (k_owned L (kheap s)) (threads s)
     \<and> sint (numthreads s) = int (length (live L s))
     \<and> (\<forall>z \<in> set (zmb L s). \<exists>t. threads s z = Some t \<and> t_vmspace t = NULL \<and> t_cwd t = NULL)"

text \<open>What \<open>thread_fork\<close> prepares: room for every live thread in the run queue and among the sleepers.\<close>

definition rooms_ok :: "('q, 'a, 'h) klib \<Rightarrow> ('q, 'a, 'h, 'z) kern_scheme \<Rightarrow> bool" where
  "rooms_ok L s \<longleftrightarrow> sint (numthreads s) \<le> int (run_room L s) \<and> sint (numthreads s) \<le> int (slp_room L s)"

lemma thread_inv_frame [simp]:
  "thread_inv L (s\<lparr>c0_status := x1\<rparr>) = thread_inv L s"
  "thread_inv L (s\<lparr>curspl := x2\<rparr>) = thread_inv L s"
  "thread_inv L (s\<lparr>tlb := x3\<rparr>) = thread_inv L s"
  "thread_inv L (s\<lparr>kmem := x4\<rparr>) = thread_inv L s"
  "thread_inv L (s\<lparr>regs := x5\<rparr>) = thread_inv L s"
  "thread_inv L (s\<lparr>curkstack := x6\<rparr>) = thread_inv L s"
  "thread_inv L (s\<lparr>in_interrupt := x7\<rparr>) = thread_inv L s"
  "thread_inv L (s\<lparr>addrspaces := x8\<rparr>) = thread_inv L s"
  by (simp_all add: thread_inv_def view_defs)

lemma rooms_ok_frame [simp]:
  "rooms_ok L (s\<lparr>c0_status := x1\<rparr>) = rooms_ok L s"
  "rooms_ok L (s\<lparr>curspl := x2\<rparr>) = rooms_ok L s"
  "rooms_ok L (s\<lparr>tlb := x3\<rparr>) = rooms_ok L s"
  "rooms_ok L (s\<lparr>kmem := x4\<rparr>) = rooms_ok L s"
  "rooms_ok L (s\<lparr>regs := x5\<rparr>) = rooms_ok L s"
  "rooms_ok L (s\<lparr>curkstack := x6\<rparr>) = rooms_ok L s"
  "rooms_ok L (s\<lparr>in_interrupt := x7\<rparr>) = rooms_ok L s"
  "rooms_ok L (s\<lparr>addrspaces := x8\<rparr>) = rooms_ok L s"
  "rooms_ok L (s\<lparr>threads := x9\<rparr>) = rooms_ok L s"
  "rooms_ok L (s\<lparr>curthread := x10\<rparr>) = rooms_ok L s"
  "rooms_ok L (s\<lparr>kheap := x11\<rparr>) = rooms_ok L s"
  by (simp_all add: rooms_ok_def view_defs)

lemma splx_shape: "\<exists>x. snd (splx M n s) = s\<lparr>c0_status := x, curspl := n\<rparr>"
  by (cases "n < 0") (auto simp: splx_eq interrupts_on_def interrupts_off_def intro: exI [of _ "c0_status s"])

lemma thread_inv_splx [simp]:
  "thread_inv L (snd (splx M n s)) = thread_inv L s" "thread_inv L (snd (splhigh M s)) = thread_inv L s"
  "rooms_ok L (snd (splx M n s)) = rooms_ok L s" "rooms_ok L (snd (splhigh M s)) = rooms_ok L s"
  using splx_shape [of M n s] splx_shape [of M "SPL_HIGH M" s] by (auto simp: splhigh_def)

lemma as_activate_shape: "\<exists>x t. as_activate M p s = s\<lparr>c0_status := x, tlb := t\<rparr>"
proof -
  obtain x where x: "snd (splhigh M s) = s\<lparr>c0_status := x, curspl := SPL_HIGH M\<rparr>"
    using splx_shape unfolding splhigh_def by blast
  let ?t = "(snd (splhigh M s))\<lparr>tlb := (\<lambda>i. if i < NUM_TLB M then (TLBHI_INVALID M i, TLBLO_INVALID M) else tlb (snd (splhigh M s)) i)\<rparr>"
  obtain y where "snd (splx M (curspl s) ?t) = ?t\<lparr>c0_status := y, curspl := curspl s\<rparr>"
    using splx_shape by blast
  moreover have "as_activate M p s = snd (splx M (curspl s) ?t)"
    by (simp add: as_activate_def split_beta Let_def fold_TLB_Write)
  ultimately show ?thesis using x by (intro exI [of _ y] exI [of _ "tlb ?t"]) simp
qed

section \<open>Parking a thread\<close>

lemma park_ready_spec:
  assumes "queue_laws L" and "curspl s > 0" and "runqueue s \<noteq> None" and "length (ready L s) < run_room L s"
  obtains q h where "park L S_READY cur s = Inr (s\<lparr>runqueue := Some q, kheap := h\<rparr>)"
    "q_list L q = ready L s @ [cur]" "run_room L s \<le> q_room L q" "k_owned L h = k_owned L (kheap s)"
proof -
  have "sched_ok L s" using assms by (simp add: sched_ok_def)
  then obtain r q h where "make_runnable L cur s = Inr (r, s\<lparr>runqueue := Some q, kheap := h\<rparr>)"
    "q_list L q = (if r = 0 then ready L s @ [cur] else ready L s)" "r = 0"
    "run_room L s \<le> q_room L q" "k_owned L h = k_owned L (kheap s)"
    using assms(4) make_runnable_spec [of L s cur] by metis
  then show thesis by (intro that [where q = q and h = h]) (simp_all add: park_def)
qed

lemma park_sleep_spec:
  assumes "array_laws L" and "sleepers s \<noteq> None" and "length (slp L s) < slp_room L s"
  obtains a h where "park L S_SLEEP cur s = Inr (s\<lparr>sleepers := Some a, kheap := h\<rparr>)"
    "a_list L a = slp L s @ [cur]" "slp_room L s \<le> a_room L a" "k_owned L h = k_owned L (kheap s)"
proof -
  obtain a0 where a0: "sleepers s = Some a0" using assms by auto
  obtain r a h where a: "array_add L a0 cur (kheap s) = (r, a, h)" by (cases "array_add L a0 cur (kheap s)")
  from array_add_spec [OF assms(1) a] assms(3) a0 a show thesis
    by (intro that [where a = a and h = h]) (simp_all add: park_def view_defs)
qed

lemma park_zomb_spec:
  assumes "array_laws L" and "zombies s \<noteq> None" and "length (zmb L s) < zmb_room L s"
  obtains a h where "park L S_ZOMB cur s = Inr (s\<lparr>zombies := Some a, kheap := h\<rparr>)"
    "a_list L a = zmb L s @ [cur]" "zmb_room L s \<le> a_room L a" "k_owned L h = k_owned L (kheap s)"
proof -
  obtain a0 where a0: "zombies s = Some a0" using assms by auto
  obtain r a h where a: "array_add L a0 cur (kheap s) = (r, a, h)" by (cases "array_add L a0 cur (kheap s)")
  from array_add_spec [OF assms(1) a] assms(3) a0 a show thesis
    by (intro that [where a = a and h = h]) (simp_all add: park_def view_defs)
qed

section \<open>Disposing of zombies\<close>

lemma blocks_ok_null: "blocks_ok (own - {NULL}) T \<longleftrightarrow> blocks_ok own T"
  by (auto simp: blocks_ok_def thread_blocks_def)

lemma thread_destroy_spec:
  assumes "heap_laws L" and "threads s p = Some t" and "p \<noteq> curthread s" and "t_vmspace t = NULL" "t_cwd t = NULL"
  obtains h where "thread_destroy L p s = Inr (s\<lparr>kheap := h, threads := (threads s)(p := None)\<rparr>)"
    "k_owned L h - {NULL} = k_owned L (kheap s) - {NULL} - set (thread_blocks p t)"
proof (rule that)
  let ?h1 = "if t_stack t \<noteq> NULL then kfree L (t_stack t) (kheap s) else kheap s"
  let ?h = "kfree L p (kfree L (t_name t) ?h1)"
  show "thread_destroy L p s = Inr (s\<lparr>kheap := ?h, threads := (threads s)(p := None)\<rparr>)"
    using assms by (simp add: thread_destroy_def)
  show "k_owned L ?h - {NULL} = k_owned L (kheap s) - {NULL} - set (thread_blocks p t)"
    using assms by (auto simp: kfree_owned thread_blocks_def)
qed

text \<open>The blocks of a list of threads.\<close>

definition blocks_of :: "(ptr \<rightharpoonup> thread) \<Rightarrow> ptr list \<Rightarrow> ptr set" where
  "blocks_of T ps = (\<Union>p \<in> set ps. case T p of None \<Rightarrow> {} | Some t \<Rightarrow> set (thread_blocks p t))"

lemma blocks_of_Cons:
  assumes "T p = Some t" and "p \<notin> set ps"
  shows "blocks_of T (p # ps) = set (thread_blocks p t) \<union> blocks_of (T(p := None)) ps"
proof -
  have "(T(p := None)) q = T q" if "q \<in> set ps" for q using assms(2) that by auto
  then have "blocks_of (T(p := None)) ps = blocks_of T ps"
    unfolding blocks_of_def by (intro SUP_cong) simp_all
  with assms(1) show ?thesis by (simp add: blocks_of_def)
qed

definition dead :: "(ptr \<rightharpoonup> thread) \<Rightarrow> ptr \<Rightarrow> bool" where
  "dead T z \<longleftrightarrow> (\<exists>t. T z = Some t \<and> t_vmspace t = NULL \<and> t_cwd t = NULL)"

lemma exorcise_loop_spec:
  assumes "heap_laws L" and "blocks_ok (k_owned L (kheap s)) (threads s)"
    and "map (\<lambda>i. array_getguy L zs (int i)) is = ps" and "distinct ps"
    and "\<forall>z \<in> set ps. dead (threads s) z \<and> z \<noteq> curthread s"
  shows "\<exists>h. exorcise_loop L zs is s = Inr (s\<lparr>kheap := h, threads := (threads s) |` (- set ps)\<rparr>)
      \<and> blocks_ok (k_owned L h) ((threads s) |` (- set ps))
      \<and> k_owned L h - {NULL} = k_owned L (kheap s) - {NULL} - blocks_of (threads s) ps"
  using assms
proof (induction "is" arbitrary: s ps)
  case Nil
  then show ?case by (auto simp: blocks_of_def intro!: exI [of _ "kheap s"])
next
  case (Cons i "is")
  obtain z ps' where ps: "ps = z # ps'" "array_getguy L zs (int i) = z" "z \<notin> set ps'"
      "map (\<lambda>i. array_getguy L zs (int i)) is = ps'" "distinct ps'"
    using Cons.prems(3,4) by (cases ps) auto
  obtain t where t: "threads s z = Some t" "t_vmspace t = NULL" "t_cwd t = NULL" "z \<noteq> curthread s"
    using Cons.prems(5) ps by (auto simp: dead_def)
  obtain h where h: "thread_destroy L z s = Inr (s\<lparr>kheap := h, threads := (threads s)(z := None)\<rparr>)"
      "k_owned L h - {NULL} = k_owned L (kheap s) - {NULL} - set (thread_blocks z t)"
    using thread_destroy_spec [OF Cons.prems(1) t(1,4,2,3)] by blast
  let ?s = "s\<lparr>kheap := h, threads := (threads s)(z := None)\<rparr>"
  have "blocks_ok (k_owned L h) ((threads s)(z := None))"
    using blocks_ok_remove [of "k_owned L (kheap s) - {NULL}" "threads s"] Cons.prems(2) t(1) h(2)
    by (metis blocks_ok_null)
  then have ok: "blocks_ok (k_owned L (kheap ?s)) (threads ?s)" by simp
  have "\<forall>y \<in> set ps'. dead (threads ?s) y \<and> y \<noteq> curthread ?s"
    using Cons.prems(5) ps by (auto simp: dead_def)
  from Cons.IH [OF Cons.prems(1) ok ps(4,5) this]
  obtain h' where h': "exorcise_loop L zs is ?s = Inr (?s\<lparr>kheap := h', threads := (threads ?s) |` (- set ps')\<rparr>)"
      "blocks_ok (k_owned L h') ((threads ?s) |` (- set ps'))"
      "k_owned L h' - {NULL} = k_owned L (kheap ?s) - {NULL} - blocks_of (threads ?s) ps'" by blast
  moreover have "((threads s)(z := None)) |` (- set ps') = threads s |` (- set ps)"
    by (auto simp: restrict_map_def fun_eq_iff ps)
  ultimately show ?case using h t ps blocks_of_Cons [of "threads s" z t ps']
    by (intro exI [of _ h']) (auto simp: Let_def)
qed

lemma exorcise_spec:
  assumes "klib_laws L" and "blocks_ok (k_owned L (kheap s)) (threads s)" and "curspl s > 0"
    and "zombies s \<noteq> None" and "distinct (zmb L s)" and "\<forall>z \<in> set (zmb L s). dead (threads s) z \<and> z \<noteq> curthread s"
  obtains a h where
    "exorcise L s = Inr (s\<lparr>zombies := Some a, kheap := h, threads := (threads s) |` (- set (zmb L s))\<rparr>)"
    "a_list L a = []" "zmb_room L s \<le> a_room L a" "blocks_ok (k_owned L h) ((threads s) |` (- set (zmb L s)))"
    "k_owned L h - {NULL} = k_owned L (kheap s) - {NULL} - blocks_of (threads s) (zmb L s)"
proof -
  obtain zs where zs: "zombies s = Some zs" "a_list L zs = zmb L s" using assms(4) by (auto simp: zmb_def)
  have laws: "array_laws L" using assms(1) by (simp add: klib_laws_def)
  let ?is = "[0..<length (zmb L s)]"
  have m: "map (\<lambda>i. array_getguy L zs (int i)) ?is = zmb L s"
  proof -
    have "map (\<lambda>i. array_getguy L zs (int i)) ?is = map ((!) (zmb L s)) ?is"
      using zs(2) array_getguy_nth [OF laws, of _ zs] by (intro map_cong) simp_all
    then show ?thesis by (simp only: map_nth)
  qed
  obtain h where h: "exorcise_loop L zs ?is s = Inr (s\<lparr>kheap := h, threads := (threads s) |` (- set (zmb L s))\<rparr>)"
      "blocks_ok (k_owned L h) ((threads s) |` (- set (zmb L s)))"
      "k_owned L h - {NULL} = k_owned L (kheap s) - {NULL} - blocks_of (threads s) (zmb L s)"
    using exorcise_loop_spec [OF _ assms(2) m assms(5,6)] assms(1) by (auto simp: klib_laws_def)
  obtain r a h' where a: "array_setsize L zs 0 h = (r, a, h')" by (cases "array_setsize L zs 0 h")
  with array_setsize_spec [OF laws, of zs 0 h r a h']
  have "r = 0" "a_list L a = []" "a_room L zs \<le> a_room L a" "k_owned L h' = k_owned L h" by simp_all
  with h a zs assms(3) show thesis
    by (intro that [where a = a and h = h'])
      (simp_all add: exorcise_def array_getnum_length [OF laws] zmb_room_def)
qed

section \<open>Waking up\<close>

definition sleeps_on :: "(ptr \<rightharpoonup> thread) \<Rightarrow> ptr \<Rightarrow> ptr \<Rightarrow> bool" where
  "sleeps_on T addr p \<longleftrightarrow> (case T p of None \<Rightarrow> False | Some t \<Rightarrow> t_sleepaddr t = addr)"

text \<open>One iteration: the thread after \<open>xs\<close> is examined.\<close>

lemma wakeup_step_skip:
  assumes "array_laws L" and "sleepers s = Some a" and "a_list L a = xs @ y # ys"
    and "threads s y = Some t" and "t_sleepaddr t \<noteq> addr"
  shows "wakeup_loop L addr (Suc n) (int (length xs)) s = wakeup_loop L addr n (int (length (xs @ [y]))) s"
  using assms array_getguy_nth [OF assms(1), of "length xs" a] array_getnum_length [OF assms(1), of a]
  by (simp add: add.commute)

lemma wakeup_step_wake:
  assumes "klib_laws L" and "curspl s > 0" and "runqueue s \<noteq> None" and "sleepers s = Some a"
    and "a_list L a = xs @ y # ys" and "sleeps_on (threads s) addr y" and "length (ready L s) < run_room L s"
  obtains a' q h where
    "wakeup_loop L addr (Suc n) (int (length xs)) s
       = wakeup_loop L addr n (int (length xs)) (s\<lparr>sleepers := Some a', runqueue := Some q, kheap := h\<rparr>)"
    "a_list L a' = xs @ ys" "a_room L a \<le> a_room L a'"
    "q_list L q = ready L s @ [y]" "run_room L s \<le> q_room L q" "k_owned L h = k_owned L (kheap s)"
proof -
  have laws: "array_laws L" "queue_laws L" using assms(1) by (auto simp: klib_laws_def)
  obtain t where t: "threads s y = Some t" "t_sleepaddr t = addr"
    using assms(6) by (auto simp: sleeps_on_def split: option.splits)
  let ?a = "array_remove L a (int (length xs))"
  have a: "a_list L ?a = xs @ ys" "a_room L a \<le> a_room L ?a"
    using array_remove_spec [OF laws(1), of "length xs" a] assms(5) by simp_all
  have y: "array_getguy L a (int (length xs)) = y" "int (length xs) < array_getnum L a"
    using array_getguy_nth [OF laws(1), of "length xs" a] array_getnum_length [OF laws(1), of a] assms(5)
    by simp_all
  let ?s = "s\<lparr>sleepers := Some ?a\<rparr>"
  have ok: "sched_ok L ?s" using assms(2,3) laws by (simp add: sched_ok_def)
  have v: "ready L ?s = ready L s" "run_room L ?s = run_room L s" by (simp_all add: view_defs)
  obtain q h where "make_runnable L y ?s = Inr (0, ?s\<lparr>runqueue := Some q, kheap := h\<rparr>)"
      "q_list L q = ready L ?s @ [y]" "run_room L ?s \<le> q_room L q" "k_owned L h = k_owned L (kheap ?s)"
    by (rule make_runnable_room [OF ok, where t = y]) (use assms(7) v in simp)
  with a y t assms(4) v show thesis
    by (intro that [where a' = ?a and q = q and h = h]) simp_all
qed

lemma wakeup_loop_spec:
  assumes "klib_laws L" and "curspl s > 0" and "runqueue s \<noteq> None" and "sleepers s = Some a"
    and "a_list L a = xs @ ys" and "set ys \<subseteq> dom (threads s)" and "length ys < n"
    and "length (ready L s) + length (filter (sleeps_on (threads s) addr) ys) \<le> run_room L s"
  shows "\<exists>a' q h. wakeup_loop L addr n (int (length xs)) s = Inr (s\<lparr>sleepers := Some a', runqueue := Some q, kheap := h\<rparr>)
    \<and> a_list L a' = xs @ filter (\<lambda>y. \<not> sleeps_on (threads s) addr y) ys \<and> a_room L a \<le> a_room L a'
    \<and> q_list L q = ready L s @ filter (sleeps_on (threads s) addr) ys \<and> run_room L s \<le> q_room L q
    \<and> k_owned L h = k_owned L (kheap s)"
  using assms
proof (induction n arbitrary: s a xs ys)
  case 0
  then show ?case by simp
next
  case (Suc n)
  have laws: "array_laws L" using Suc.prems(1) by (simp add: klib_laws_def)
  show ?case
  proof (cases ys)
    case Nil
    obtain q where q: "runqueue s = Some q" using Suc.prems(3) by auto
    have "wakeup_loop L addr (Suc n) (int (length xs)) s = Inr (s\<lparr>sleepers := Some a, runqueue := Some q, kheap := kheap s\<rparr>)"
      using Suc.prems(4,5) Nil q array_getnum_length [OF laws, of a] by simp
    then show ?thesis using Suc.prems(5) Nil q
      by (intro exI [of _ a] exI [of _ q] exI [of _ "kheap s"]) (simp del: wakeup_loop.simps add: view_defs)
  next
    case (Cons y zs)
    obtain t where t: "threads s y = Some t" using Suc.prems(6) Cons by auto
    show ?thesis
    proof (cases "t_sleepaddr t = addr")
      case False
      then have "wakeup_loop L addr (Suc n) (int (length xs)) s = wakeup_loop L addr n (int (length (xs @ [y]))) s"
        using wakeup_step_skip [OF laws Suc.prems(4)] Suc.prems(5) t Cons by metis
      moreover have "\<not> sleeps_on (threads s) addr y" using False t by (simp add: sleeps_on_def)
      ultimately show ?thesis
        using Suc.IH [OF Suc.prems(1-4), of "xs @ [y]" zs] Suc.prems(5-8) Cons by simp
    next
      case True
      then have on: "sleeps_on (threads s) addr y" using t by (simp add: sleeps_on_def)
      have "length (ready L s) < run_room L s" using Suc.prems(8) Cons on by simp
      then obtain a' q h where w: "wakeup_loop L addr (Suc n) (int (length xs)) s
            = wakeup_loop L addr n (int (length xs)) (s\<lparr>sleepers := Some a', runqueue := Some q, kheap := h\<rparr>)"
          "a_list L a' = xs @ zs" "a_room L a \<le> a_room L a'" "q_list L q = ready L s @ [y]"
          "run_room L s \<le> q_room L q" "k_owned L h = k_owned L (kheap s)"
        using wakeup_step_wake [OF Suc.prems(1-4) _ on, of xs zs n] Suc.prems(5) Cons by metis
      let ?s = "s\<lparr>sleepers := Some a', runqueue := Some q, kheap := h\<rparr>"
      have "length (ready L ?s) + length (filter (sleeps_on (threads ?s) addr) zs) \<le> run_room L ?s"
        using w Suc.prems(8) Cons on by (simp add: view_defs)
      then obtain a2 q2 h2 where i: "wakeup_loop L addr n (int (length xs)) ?s
            = Inr (?s\<lparr>sleepers := Some a2, runqueue := Some q2, kheap := h2\<rparr>)"
          "a_list L a2 = xs @ filter (\<lambda>y. \<not> sleeps_on (threads ?s) addr y) zs" "a_room L a' \<le> a_room L a2"
          "q_list L q2 = ready L ?s @ filter (sleeps_on (threads ?s) addr) zs" "run_room L ?s \<le> q_room L q2"
          "k_owned L h2 = k_owned L (kheap ?s)"
        using Suc.IH [of ?s a' xs zs, OF Suc.prems(1) _ _ _ w(2)] Suc.prems(2,6,7) Cons by auto
      show ?thesis
        by (intro exI [of _ a2] exI [of _ q2] exI [of _ h2])
          (use i w Cons on in \<open>simp del: wakeup_loop.simps add: view_defs\<close>)
    qed
  qed
qed

section \<open>The thread system as lists\<close>

text \<open>What a user of the thread system sees: who runs, who is ready, who sleeps on what, who is dead.\<close>

record tsys =
  a_cur :: "ptr option"
  a_ready :: "ptr list"
  a_sleeping :: "(ptr \<times> ptr) list"
  a_zombies :: "ptr list"

definition sleepaddr_of :: "(ptr \<rightharpoonup> thread) \<Rightarrow> ptr \<Rightarrow> ptr" where
  "sleepaddr_of T p = (case T p of None \<Rightarrow> NULL | Some t \<Rightarrow> t_sleepaddr t)"

definition abs_of :: "('q, 'a, 'h) klib \<Rightarrow> ('q, 'a, 'h, 'z) kern_scheme \<Rightarrow> tsys" where
  "abs_of L s = \<lparr>a_cur = (if curthread s = NULL then None else Some (curthread s)), a_ready = ready L s,
     a_sleeping = map (\<lambda>p. (p, sleepaddr_of (threads s) p)) (slp L s), a_zombies = zmb L s\<rparr>"

lemma abs_of_frame [simp]:
  "abs_of L (s\<lparr>c0_status := x1\<rparr>) = abs_of L s"
  "abs_of L (s\<lparr>curspl := x2\<rparr>) = abs_of L s"
  "abs_of L (s\<lparr>tlb := x3\<rparr>) = abs_of L s"
  "abs_of L (s\<lparr>kmem := x4\<rparr>) = abs_of L s"
  "abs_of L (s\<lparr>regs := x5\<rparr>) = abs_of L s"
  "abs_of L (s\<lparr>curkstack := x6\<rparr>) = abs_of L s"
  "abs_of L (s\<lparr>in_interrupt := x7\<rparr>) = abs_of L s"
  "abs_of L (s\<lparr>addrspaces := x8\<rparr>) = abs_of L s"
  "abs_of L (s\<lparr>kheap := x9\<rparr>) = abs_of L s"
  "abs_of L (s\<lparr>numthreads := x10\<rparr>) = abs_of L s"
  by (simp_all add: abs_of_def view_defs)

lemma abs_of_splx [simp]: "abs_of L (snd (splx M n s)) = abs_of L s" "abs_of L (snd (splhigh M s)) = abs_of L s"
  using splx_shape [of M n s] splx_shape [of M "SPL_HIGH M" s] by (auto simp: splhigh_def)

text \<open>Moving threads between the lists of live threads keeps the invariant.\<close>

lemma thread_inv_permute:
  assumes "thread_inv L s" and "mset (live L s') = mset (live L s)" and "zmb L s' = zmb L s"
    and "threads s' = threads s" and "k_owned L (kheap s') = k_owned L (kheap s)"
    and "numthreads s' = numthreads s" and "runqueue s' \<noteq> None" "sleepers s' \<noteq> None" "zombies s' \<noteq> None"
  shows "thread_inv L s'"
proof -
  have "set (live L s') = set (live L s)" "length (live L s') = length (live L s)"
      "distinct (live L s') = distinct (live L s)"
    using assms(2) by (blast dest: mset_eq_setD mset_eq_length mset_eq_imp_distinct_iff)+
  with assms show ?thesis unfolding thread_inv_def distinct_append set_append by (simp only:) simp
qed

lemma mset_filter_both: "mset (filter P xs) + mset (filter (\<lambda>x. \<not> P x) xs) = mset xs"
  by (induction xs) auto

lemma thread_wakeup_spec:
  assumes inv: "thread_inv L s" and room: "rooms_ok L s" and "curspl s > 0"
  obtains a q h where
    "thread_wakeup L addr s = Inr (s\<lparr>sleepers := Some a, runqueue := Some q, kheap := h\<rparr>)"
    "a_list L a = filter (\<lambda>p. \<not> sleeps_on (threads s) addr p) (slp L s)"
    "q_list L q = ready L s @ filter (sleeps_on (threads s) addr) (slp L s)"
    "thread_inv L (s\<lparr>sleepers := Some a, runqueue := Some q, kheap := h\<rparr>)"
    "rooms_ok L (s\<lparr>sleepers := Some a, runqueue := Some q, kheap := h\<rparr>)"
proof -
  from inv have laws: "klib_laws L" "array_laws L" by (auto simp: thread_inv_def klib_laws_def)
  obtain a0 where a0: "sleepers s = Some a0" "a_list L a0 = [] @ slp L s" "runqueue s \<noteq> None" "zombies s \<noteq> None"
    using inv by (auto simp: thread_inv_def slp_def)
  have n: "int (length (live L s)) \<le> int (run_room L s)" and d: "set (slp L s) \<subseteq> dom (threads s)"
    using inv room by (auto simp: thread_inv_def rooms_ok_def live_def)
  have "length (ready L s) + length (filter (sleeps_on (threads s) addr) (slp L s)) \<le> run_room L s"
    using n length_filter_le [of "sleeps_on (threads s) addr" "slp L s"]
    unfolding live_def length_append by linarith
  then obtain a q h where w: "wakeup_loop L addr (Suc (length (slp L s))) (int (length ([]::ptr list))) s
        = Inr (s\<lparr>sleepers := Some a, runqueue := Some q, kheap := h\<rparr>)"
      "a_list L a = [] @ filter (\<lambda>y. \<not> sleeps_on (threads s) addr y) (slp L s)" "a_room L a0 \<le> a_room L a"
      "q_list L q = ready L s @ filter (sleeps_on (threads s) addr) (slp L s)" "run_room L s \<le> q_room L q"
      "k_owned L h = k_owned L (kheap s)"
    using wakeup_loop_spec [OF laws(1) assms(3) a0(3,1,2) d lessI] by blast
  let ?s = "s\<lparr>sleepers := Some a, runqueue := Some q, kheap := h\<rparr>"
  have "live L ?s = running s @ (ready L s @ filter (sleeps_on (threads s) addr) (slp L s))
      @ filter (\<lambda>p. \<not> sleeps_on (threads s) addr p) (slp L s)"
    using w by (simp add: view_defs)
  then have "mset (live L ?s) = mset (live L s)"
    by (simp only: live_def mset_append add.assoc mset_filter_both)
  then have "thread_inv L ?s"
    by (rule thread_inv_permute [OF inv]) (use w a0 in \<open>simp_all add: zmb_def\<close>)
  moreover have "rooms_ok L ?s" using room w(3,5) a0(1) by (auto simp: rooms_ok_def slp_room_def run_room_def)
  moreover have "thread_wakeup L addr s = Inr ?s"
    using w(1) a0 assms(3) array_getnum_length [OF laws(2), of a0]
    by (simp add: thread_wakeup_def del: wakeup_loop.simps)
  ultimately show thesis using w by (intro that [where a = a and q = q and h = h]) simp_all
qed

section \<open>The idle loop\<close>

text \<open>
  What an interrupt handler may do to the thread system while no thread runs: anything that keeps the
  invariant and leaves the thread structures alone. \<open>thread_wakeup\<close> is such a handler.
\<close>

definition idle_inv :: "('q, 'a, 'h) klib \<Rightarrow> ('q, 'a, 'h, 'z) kern_scheme \<Rightarrow> bool" where
  "idle_inv L s \<longleftrightarrow> thread_inv L s \<and> rooms_ok L s \<and> curthread s = NULL \<and> curspl s > 0"

definition good_event ::
  "('q, 'a, 'h) klib \<Rightarrow> (('q, 'a, 'h, 'z) kern_scheme \<Rightarrow> ('q, 'a, 'h, 'z) kern_scheme run) \<Rightarrow> bool" where
  "good_event L ev \<longleftrightarrow> (\<forall>s. idle_inv L s \<longrightarrow> (\<exists>s'. ev s = Inr s' \<and> idle_inv L s' \<and> threads s' = threads s))"

lemma good_event_wakeup: "good_event L (thread_wakeup L addr)"
  unfolding good_event_def
proof (intro allI impI)
  fix s :: "('a, 'b, 'c, 'd) kern_scheme" assume "idle_inv L s"
  then have i: "thread_inv L s" "rooms_ok L s" "curspl s > 0" "curthread s = NULL" by (auto simp: idle_inv_def)
  obtain a q h where "thread_wakeup L addr s = Inr (s\<lparr>sleepers := Some a, runqueue := Some q, kheap := h\<rparr>)"
    "thread_inv L (s\<lparr>sleepers := Some a, runqueue := Some q, kheap := h\<rparr>)"
    "rooms_ok L (s\<lparr>sleepers := Some a, runqueue := Some q, kheap := h\<rparr>)"
    by (rule thread_wakeup_spec [OF i(1-3)])
  with i show "\<exists>s'. thread_wakeup L addr s = Inr s' \<and> idle_inv L s' \<and> threads s' = threads s"
    by (simp add: idle_inv_def)
qed

lemma idle_inv_sched_ok: "idle_inv L s \<Longrightarrow> sched_ok L s"
  by (simp add: idle_inv_def thread_inv_def klib_laws_def sched_ok_def)

text \<open>The thread that is picked leaves the run queue and becomes the running thread.\<close>

lemma pick_inv:
  assumes i: "idle_inv L s" and t: "ready L s = t # ts"
  obtains s' where "scheduler L M evs s = Inr (Picked t s')"
    "thread_inv L (s'\<lparr>curthread := t\<rparr>)" "rooms_ok L (s'\<lparr>curthread := t\<rparr>)"
    "abs_of L (s'\<lparr>curthread := t\<rparr>) = (abs_of L s)\<lparr>a_cur := Some t, a_ready := ts\<rparr>"
    "threads s' = threads s" "curspl s' = curspl s" "t \<noteq> NULL"
proof -
  obtain q where q: "scheduler L M evs s = Inr (Picked t (s\<lparr>runqueue := Some q\<rparr>))" "q_list L q = ts"
      "run_room L s \<le> q_room L q"
    by (rule scheduler_ready [OF idle_inv_sched_ok [OF i] t])
  have inv: "thread_inv L s" "curthread s = NULL" "rooms_ok L s" using i by (auto simp: idle_inv_def)
  then have "t \<in> dom (threads s)" and b: "blocks_ok (k_owned L (kheap s)) (threads s)"
    using t by (auto simp: thread_inv_def live_def)
  then have t0: "t \<noteq> NULL" using blocks_okD(3) by blast
  let ?s = "s\<lparr>runqueue := Some q, curthread := t\<rparr>"
  have "live L ?s = live L s" using t t0 inv q by (simp add: view_defs)
  then have "thread_inv L ?s"
    by (intro thread_inv_permute [OF inv(1)]) (use inv in \<open>simp_all add: zmb_def thread_inv_def\<close>)
  moreover have "rooms_ok L ?s" using inv q by (simp add: rooms_ok_def view_defs)
  moreover have "abs_of L ?s = (abs_of L s)\<lparr>a_cur := Some t, a_ready := ts\<rparr>"
    using q t0 by (simp add: abs_of_def view_defs)
  ultimately show thesis using q t0 by (intro that [where s' = "s\<lparr>runqueue := Some q\<rparr>"]) simp_all
qed

lemma sched_loop_safe:
  assumes "idle_inv L s" and "\<forall>ev \<in> set evs. good_event L ev"
  shows "(\<exists>s'. sched_loop L M evs s = Inr (StillIdle s') \<and> idle_inv L s' \<and> threads s' = threads s)
    \<or> (\<exists>t s'. sched_loop L M evs s = Inr (Picked t s') \<and> thread_inv L (s'\<lparr>curthread := t\<rparr>)
         \<and> rooms_ok L (s'\<lparr>curthread := t\<rparr>) \<and> threads s' = threads s \<and> curspl s' > 0 \<and> t \<noteq> NULL)"
  using assms
proof (induction evs arbitrary: s)
  case Nil
  then have c: "scheduler L M [] s = sched_loop L M [] s" "curspl s > 0"
    by (simp_all add: scheduler_def idle_inv_def)
  show ?case
  proof (cases "ready L s")
    case Nil
    with scheduler_idle(1) [OF idle_inv_sched_ok] Nil.prems c(1) show ?thesis by metis
  next
    case (Cons t ts)
    with Nil.prems c show ?thesis using pick_inv [of L s t ts M "[]"] by metis
  qed
next
  case (Cons ev evs)
  then have c: "scheduler L M (ev # evs) s = sched_loop L M (ev # evs) s" "curspl s > 0"
    by (simp_all add: scheduler_def idle_inv_def)
  show ?case
  proof (cases "ready L s")
    case Nil
    let ?s = "s\<lparr>c0_status := c0_status s OR CST_IEc M\<rparr>"
    have "idle_inv L ?s" using Cons.prems(1) by (simp add: idle_inv_def)
    then obtain s1 where s1: "ev ?s = Inr s1" "idle_inv L s1" "threads s1 = threads s"
      using Cons.prems(2) by (force simp: good_event_def)
    let ?s2 = "s1\<lparr>c0_status := c0_status s AND NOT (CST_IEc M)\<rparr>"
    have "idle_inv L ?s2" "threads ?s2 = threads s" using s1 by (simp_all add: idle_inv_def)
    moreover have "sched_loop L M (ev # evs) s = sched_loop L M evs ?s2"
      using scheduler_idle(2) [OF idle_inv_sched_ok Nil] Cons.prems(1) c s1
      by (simp add: cpu_idle_def interrupts_onoff_def Let_def)
    ultimately show ?thesis using Cons.IH [of ?s2] Cons.prems(2) by (metis list.set_intros(2))
  next
    case (Cons t ts)
    with Cons.prems c show ?thesis using pick_inv [of L s t ts M "ev # evs"] by metis
  qed
qed

section \<open>Switching\<close>

lemma thread_inv_upd_thread:
  assumes "thread_inv L s" and "threads s p = Some t" and "thread_blocks p t' = thread_blocks p t"
    and "t_vmspace t' = t_vmspace t" and "t_cwd t' = t_cwd t"
  shows "thread_inv L (s\<lparr>threads := (threads s)(p \<mapsto> t')\<rparr>)"
proof -
  have "blocks_ok (k_owned L (kheap s)) ((threads s)(p \<mapsto> t'))"
    by (rule blocks_ok_same [where t = t]) (use assms in \<open>simp_all add: thread_inv_def\<close>)
  moreover have "\<exists>u. ((threads s)(p \<mapsto> t')) z = Some u \<and> t_vmspace u = NULL \<and> t_cwd u = NULL"
    if "z \<in> set (zmb L s)" for z
    using assms(1,2,4,5) that by (cases "z = p") (auto simp: thread_inv_def)
  moreover have "live L (s\<lparr>threads := (threads s)(p \<mapsto> t')\<rparr>) = live L s" "zmb L (s\<lparr>threads := (threads s)(p \<mapsto> t')\<rparr>) = zmb L s"
    by (simp_all add: view_defs)
  ultimately show ?thesis using assms(1) by (auto simp: thread_inv_def)
qed

lemma abs_of_upd_thread:
  assumes "threads s p = Some t" and "t_sleepaddr t' = t_sleepaddr t"
  shows "abs_of L (s\<lparr>threads := (threads s)(p \<mapsto> t')\<rparr>) = abs_of L s"
  using assms by (simp add: abs_of_def view_defs sleepaddr_of_def)

lemma md_switch_spec:
  assumes inv: "thread_inv L s" and "cur \<in> dom (threads s)" and "nxt \<in> dom (threads s)"
  obtains s' where "md_switch M cur nxt s = Inr (cur \<noteq> nxt, s')" "thread_inv L s'" "rooms_ok L s' = rooms_ok L s"
    "abs_of L s' = abs_of L s" "curthread s' = curthread s" "curspl s' = curspl s" "cur = nxt \<Longrightarrow> s' = s"
proof (cases "cur = nxt")
  case True
  then show thesis using inv by (intro that [of s]) (simp_all add: md_switch_def)
next
  case False
  obtain to tn where t: "threads s cur = Some to" "threads s nxt = Some tn" using assms by auto
  let ?old = "(t_pcb to)\<lparr>pcb_kstack := curkstack s, pcb_ininterrupt := in_interrupt s\<rparr>"
  let ?s1 = "s\<lparr>curkstack := pcb_kstack (t_pcb tn), in_interrupt := pcb_ininterrupt (t_pcb tn),
                 regs := (regs s)\<lparr>R_ra := md_switch_return M\<rparr>\<rparr>"
  obtain old2 s2 where m: "mips_switch ?old (t_pcb tn) ?s1 = (old2, s2)" by fastforce
  then obtain m r where s2: "s2 = ?s1\<lparr>kmem := m, regs := r\<rparr>" by (auto simp: mips_switch_def Let_def)
  let ?to = "to\<lparr>t_pcb := old2\<rparr>"
  have b: "thread_blocks cur ?to = thread_blocks cur to" by (simp add: thread_blocks_def)
  have "threads s2 cur = Some to" "thread_inv L s2" "abs_of L s2 = abs_of L s" "rooms_ok L s2 = rooms_ok L s"
    using t inv by (simp_all add: s2)
  then show thesis using False t m b
    by (intro that [where s' = "s2\<lparr>threads := (threads s2)(cur \<mapsto> ?to)\<rparr>"])
      (simp_all add: md_switch_def Let_def thread_inv_upd_thread abs_of_upd_thread, simp_all add: s2)
qed

lemma mi_switch_resume_spec:
  assumes inv: "thread_inv L s" and "curthread s \<noteq> NULL" and "curspl s > 0"
  obtains s' where "mi_switch_resume L M s = Inr s'" "thread_inv L s'" "rooms_ok L s' = rooms_ok L s"
    "abs_of L s' = (abs_of L s)\<lparr>a_zombies := []\<rparr>" "curthread s' = curthread s" "curspl s' = curspl s"
proof -
  have d: "distinct (zmb L s)" "\<forall>z \<in> set (zmb L s). dead (threads s) z \<and> z \<noteq> curthread s"
    "klib_laws L" "blocks_ok (k_owned L (kheap s)) (threads s)" "zombies s \<noteq> None"
    and l: "set (live L s) \<inter> set (zmb L s) = {}"
    using inv assms(2) by (auto simp: thread_inv_def dead_def live_def running_def)
  obtain a h where e: "exorcise L s = Inr (s\<lparr>zombies := Some a, kheap := h, threads := (threads s) |` (- set (zmb L s))\<rparr>)"
      "a_list L a = []" "blocks_ok (k_owned L h) ((threads s) |` (- set (zmb L s)))"
    by (rule exorcise_spec [OF d(3,4) assms(3) d(5,1,2)])
  let ?s = "s\<lparr>zombies := Some a, kheap := h, threads := (threads s) |` (- set (zmb L s))\<rparr>"
  have v: "live L ?s = live L s" "zmb L ?s = []" using e by (simp_all add: view_defs)
  have "thread_inv L ?s"
    using inv e(3) l unfolding thread_inv_def v by auto
  moreover have "sleepaddr_of (threads ?s) p = sleepaddr_of (threads s) p" if "p \<in> set (slp L s)" for p
  proof -
    have "p \<notin> set (zmb L s)" using l that by (auto simp: live_def)
    then show ?thesis by (simp add: sleepaddr_of_def)
  qed
  then have "abs_of L ?s = (abs_of L s)\<lparr>a_zombies := []\<rparr>"
    using v(2) by (simp add: abs_of_def ready_def slp_def)
  moreover have "rooms_ok L ?s = rooms_ok L s" by (simp add: rooms_ok_def view_defs)
  moreover obtain t where "threads ?s (curthread ?s) = Some t"
    using calculation(1) assms(2) by (force simp: thread_inv_def live_def running_def)
  moreover obtain x tl where "as_activate M (t_vmspace t) ?s = ?s\<lparr>c0_status := x, tlb := tl\<rparr>"
    using as_activate_shape by blast
  ultimately show thesis using e(1)
    by (intro that [where s' = "if t_vmspace t \<noteq> NULL then as_activate M (t_vmspace t) ?s else ?s"])
      (simp_all add: mi_switch_resume_def)
qed

text \<open>The running thread on its way to a list: what remains is a state with no running thread.\<close>

lemma live_running: "curthread s \<noteq> NULL \<Longrightarrow> live L s = curthread s # ready L s @ slp L s"
  by (simp add: live_def running_def)

lemma park_ready_inv:
  assumes inv: "thread_inv L s" "rooms_ok L s" and cur: "curthread s \<noteq> NULL" "curspl s > 0"
  obtains s1 where "park L S_READY (curthread s) (s\<lparr>curthread := NULL\<rparr>) = Inr s1" "idle_inv L s1"
    "threads s1 = threads s" "abs_of L s1 = (abs_of L s)\<lparr>a_cur := None, a_ready := ready L s @ [curthread s]\<rparr>"
proof -
  let ?s = "s\<lparr>curthread := NULL\<rparr>"
  have laws: "queue_laws L" using inv by (simp add: thread_inv_def klib_laws_def)
  have v: "ready L ?s = ready L s" "run_room L ?s = run_room L s" by (simp_all add: view_defs)
  have r: "length (ready L ?s) < run_room L ?s" "runqueue ?s \<noteq> None" "curspl ?s > 0"
    using inv cur by (auto simp: thread_inv_def rooms_ok_def live_running v)
  obtain q h where q: "park L S_READY (curthread s) ?s = Inr (?s\<lparr>runqueue := Some q, kheap := h\<rparr>)"
      "q_list L q = ready L ?s @ [curthread s]" "run_room L ?s \<le> q_room L q" "k_owned L h = k_owned L (kheap ?s)"
    by (rule park_ready_spec [OF laws r(3,2,1)])
  let ?s1 = "?s\<lparr>runqueue := Some q, kheap := h\<rparr>"
  have "mset (live L ?s1) = mset (live L s)" using q cur v by (simp add: live_running) (simp add: view_defs)
  then have "thread_inv L ?s1"
    by (rule thread_inv_permute [OF inv(1)]) (use inv(1) q in \<open>simp_all add: thread_inv_def zmb_def\<close>)
  moreover have "rooms_ok L ?s1" using inv(2) q v by (simp add: rooms_ok_def) (simp add: view_defs)
  ultimately show thesis using q v cur
    by (intro that [where ?s1.0 = ?s1]) (simp_all add: idle_inv_def, simp add: abs_of_def view_defs)
qed

lemma park_sleep_inv:
  assumes inv: "thread_inv L s" "rooms_ok L s" and cur: "curthread s \<noteq> NULL" "curspl s > 0"
  obtains s1 where "park L S_SLEEP (curthread s) (s\<lparr>curthread := NULL\<rparr>) = Inr s1" "idle_inv L s1"
    "threads s1 = threads s" "abs_of L s1 = (abs_of L s)\<lparr>a_cur := None,
       a_sleeping := a_sleeping (abs_of L s) @ [(curthread s, sleepaddr_of (threads s) (curthread s))]\<rparr>"
proof -
  let ?s = "s\<lparr>curthread := NULL\<rparr>"
  have laws: "array_laws L" using inv by (simp add: thread_inv_def klib_laws_def)
  have v: "slp L ?s = slp L s" "slp_room L ?s = slp_room L s" by (simp_all add: view_defs)
  have r: "length (slp L ?s) < slp_room L ?s" "sleepers ?s \<noteq> None"
    using inv cur by (auto simp: thread_inv_def rooms_ok_def live_running v)
  obtain a h where q: "park L S_SLEEP (curthread s) ?s = Inr (?s\<lparr>sleepers := Some a, kheap := h\<rparr>)"
      "a_list L a = slp L ?s @ [curthread s]" "slp_room L ?s \<le> a_room L a" "k_owned L h = k_owned L (kheap ?s)"
    by (rule park_sleep_spec [OF laws r(2,1)])
  let ?s1 = "?s\<lparr>sleepers := Some a, kheap := h\<rparr>"
  have "mset (live L ?s1) = mset (live L s)" using q cur v by (simp add: live_running) (simp add: view_defs)
  then have "thread_inv L ?s1"
    by (rule thread_inv_permute [OF inv(1)]) (use inv(1) q in \<open>simp_all add: thread_inv_def zmb_def\<close>)
  moreover have "rooms_ok L ?s1" using inv(2) q v by (simp add: rooms_ok_def) (simp add: view_defs)
  ultimately show thesis using q v cur
    by (intro that [where ?s1.0 = ?s1]) (simp_all add: idle_inv_def, simp add: abs_of_def view_defs)
qed

lemma park_zomb_inv:
  assumes inv: "thread_inv L s" "rooms_ok L s" and cur: "curthread s \<noteq> NULL" "curspl s > 0"
    and dead: "dead (threads s) (curthread s)" and zr: "length (zmb L s) < zmb_room L s"
  obtains s1 where
    "park L S_ZOMB (curthread s) (s\<lparr>numthreads := numthreads s - 1, curthread := NULL\<rparr>) = Inr s1" "idle_inv L s1"
    "threads s1 = threads s" "abs_of L s1 = (abs_of L s)\<lparr>a_cur := None, a_zombies := zmb L s @ [curthread s]\<rparr>"
proof -
  let ?s = "s\<lparr>numthreads := numthreads s - 1, curthread := NULL\<rparr>"
  have laws: "array_laws L" using inv by (simp add: thread_inv_def klib_laws_def)
  have v: "zmb L ?s = zmb L s" "zmb_room L ?s = zmb_room L s" by (simp_all add: view_defs)
  have r: "length (zmb L ?s) < zmb_room L ?s" "zombies ?s \<noteq> None" using inv zr by (auto simp: thread_inv_def v)
  obtain a h where q: "park L S_ZOMB (curthread s) ?s = Inr (?s\<lparr>zombies := Some a, kheap := h\<rparr>)"
      "a_list L a = zmb L ?s @ [curthread s]" "zmb_room L ?s \<le> a_room L a" "k_owned L h = k_owned L (kheap ?s)"
    by (rule park_zomb_spec [OF laws r(2,1)])
  let ?s1 = "?s\<lparr>zombies := Some a, kheap := h\<rparr>"
  have n: "sint (numthreads s) = int (length (live L s))" using inv by (simp add: thread_inv_def)
  then have n1: "sint (numthreads s - 1) = int (length (ready L s @ slp L s))"
    using cur sint_pos_iff_count [of "numthreads s"] by (simp add: live_running)
  have l1: "live L ?s1 = ready L s @ slp L s" "zmb L ?s1 = zmb L s @ [curthread s]"
    using q v by (simp_all add: view_defs)
  have "thread_inv L ?s1"
    unfolding thread_inv_def l1 using inv(1) dead n1 cur q(4)
    by (auto simp: thread_inv_def live_running dead_def)
  moreover have "rooms_ok L ?s1"
    using inv(2) n n1 cur by (simp add: rooms_ok_def live_running) (simp add: view_defs)
  ultimately show thesis using q v cur
    by (intro that [where ?s1.0 = ?s1]) (simp_all add: idle_inv_def, simp add: abs_of_def view_defs)
qed

section \<open>Outcomes\<close>

text \<open>What every outcome of a switch away from \<open>cur\<close> guarantees.\<close>

definition outcome_ok :: "('q, 'a, 'h) klib \<Rightarrow> ptr \<Rightarrow> ('q, 'a, 'h, 'z) kern_scheme outcome \<Rightarrow> bool" where
  "outcome_ok L cur out = (case out of
     Returned s \<Rightarrow> thread_inv L s \<and> rooms_ok L s \<and> curspl s > 0 \<and> curthread s = cur \<and> zmb L s = []
   | Switched s \<Rightarrow> thread_inv L s \<and> rooms_ok L s \<and> curspl s > 0 \<and> curthread s \<noteq> NULL \<and> curthread s \<noteq> cur
   | Idling s \<Rightarrow> idle_inv L s)"

lemma mi_switch_pick_safe:
  assumes i: "idle_inv L s" and "cur \<in> dom (threads s)" and "\<forall>ev \<in> set evs. good_event L ev"
  shows "\<exists>out. mi_switch_pick L M evs cur s = Inr out \<and> outcome_ok L cur out"
proof -
  have c: "scheduler L M evs s = sched_loop L M evs s" using i by (simp add: scheduler_def idle_inv_def)
  from sched_loop_safe [OF i assms(3), of M] show ?thesis
  proof (elim disjE exE conjE)
    fix s' assume "sched_loop L M evs s = Inr (StillIdle s')" "idle_inv L s'"
    with c show ?thesis by (simp add: mi_switch_pick_def outcome_ok_def)
  next
    fix t s1
    assume p: "sched_loop L M evs s = Inr (Picked t s1)" "thread_inv L (s1\<lparr>curthread := t\<rparr>)"
      "rooms_ok L (s1\<lparr>curthread := t\<rparr>)" "threads s1 = threads s" "curspl s1 > 0" "t \<noteq> NULL"
    let ?s = "s1\<lparr>curthread := t\<rparr>"
    have d: "cur \<in> dom (threads ?s)" "t \<in> dom (threads ?s)"
      using assms(2) p by (auto simp: thread_inv_def live_def running_def)
    obtain s2 where s2: "md_switch M cur t ?s = Inr (cur \<noteq> t, s2)" "thread_inv L s2" "rooms_ok L s2 = rooms_ok L ?s"
        "curthread s2 = curthread ?s" "curspl s2 = curspl ?s"
      by (rule md_switch_spec [OF p(2) d, where M = M])
    show ?thesis
    proof (cases "cur = t")
      case False
      with c p s2 show ?thesis by (simp add: mi_switch_pick_def outcome_ok_def)
    next
      case True
      have r: "curthread s2 \<noteq> NULL" "curspl s2 > 0" using s2 p by simp_all
      obtain s3 where "mi_switch_resume L M s2 = Inr s3" "thread_inv L s3" "rooms_ok L s3 = rooms_ok L s2"
          "abs_of L s3 = (abs_of L s2)\<lparr>a_zombies := []\<rparr>" "curthread s3 = curthread s2" "curspl s3 = curspl s2"
        by (rule mi_switch_resume_spec [OF s2(2) r, where M = M])
      with c p s2 True show ?thesis by (simp add: mi_switch_pick_def outcome_ok_def abs_of_def)
    qed
  qed
qed

section \<open>A concrete state\<close>

text \<open>
  Thread \<open>0x100\<close> runs on the stack at \<open>0x5000\<close>, \<open>0x200\<close> is ready, \<open>0x300\<close> and \<open>0x500\<close> sleep on \<open>0x40\<close>
  and \<open>0x44\<close>, \<open>0x400\<close> is a zombie.
\<close>

definition example_threads :: "ptr \<rightharpoonup> thread" where
  "example_threads = [0x100 \<mapsto> (new_thread 0x104)\<lparr>t_stack := 0x5000, t_cwd := 0x900\<rparr>, 0x200 \<mapsto> new_thread 0x204,
     0x300 \<mapsto> (new_thread 0x304)\<lparr>t_sleepaddr := 0x40\<rparr>, 0x400 \<mapsto> new_thread 0x404,
     0x500 \<mapsto> (new_thread 0x504)\<lparr>t_sleepaddr := 0x44\<rparr>]"

definition kern_example :: "(lseq, lseq, lheap) kern" where
  "kern_example = md.extend
     (md_example\<lparr>runqueue := Some ([0x200], 8), kmem := put_magic 0x5000 (\<lambda>_. 0),
        kheap := ([0x600, 0x604, 0x700, 0x8000], {0x100, 0x104, 0x5000, 0x200, 0x204, 0x300, 0x304, 0x400, 0x404, 0x500, 0x504})\<rparr>)
     \<lparr>curthread = 0x100, sleepers = Some ([0x300, 0x500], 8), zombies = Some ([0x400], 8), numthreads = 4,
      numprocesses = 1, full_process_table = 0x800, tables = Map.empty, threads = example_threads\<rparr>"

lemma kern_example_simps [simp]:
  "curthread kern_example = 0x100" "sleepers kern_example = Some ([0x300, 0x500], 8)"
  "zombies kern_example = Some ([0x400], 8)" "numthreads kern_example = 4" "numprocesses kern_example = 1"
  "threads kern_example = example_threads" "runqueue kern_example = Some ([0x200], 8)"
  "kheap kern_example = ([0x600, 0x604, 0x700, 0x8000], {0x100, 0x104, 0x5000, 0x200, 0x204, 0x300, 0x304, 0x400, 0x404, 0x500, 0x504})"
  "kmem kern_example = put_magic 0x5000 (\<lambda>_. 0)" "curspl kern_example = 15" "in_interrupt kern_example = 0"
  by (simp_all add: kern_example_def md_example_def sched_example_def md.extend_def sched.extend_def)

lemma example_lists [simp]:
  "ready list_klib kern_example = [0x200]" "slp list_klib kern_example = [0x300, 0x500]"
  "zmb list_klib kern_example = [0x400]" "run_room list_klib kern_example = 8" "slp_room list_klib kern_example = 8"
  "zmb_room list_klib kern_example = 8" "live list_klib kern_example = [0x100, 0x200, 0x300, 0x500]"
  by (simp_all add: view_defs list_klib_def)

lemma blocks_ok_example: "blocks_ok (k_owned list_klib (kheap kern_example)) example_threads"
proof -
  have own: "k_owned list_klib (kheap kern_example)
      = {0x100, 0x104, 0x5000, 0x200, 0x204, 0x300, 0x304, 0x400, 0x404, 0x500, 0x504}"
    by (simp add: list_klib_def)
  have T: "example_threads p = Some t \<Longrightarrow> (p, thread_blocks p t) \<in> {(0x100, [0x100, 0x104, 0x5000]), (0x200, [0x200, 0x204]),
      (0x300, [0x300, 0x304]), (0x400, [0x400, 0x404]), (0x500, [0x500, 0x504])}" for p t
    by (auto simp: example_threads_def thread_blocks_def new_thread_def split: if_splits)
  show ?thesis
    unfolding blocks_ok_def own
  proof (intro conjI allI impI)
    show "example_threads NULL = None" by (simp add: example_threads_def)
  next
    fix p t assume "example_threads p = Some t"
    from T [OF this] show "distinct (thread_blocks p t)" by auto
  next
    fix p t assume "example_threads p = Some t"
    from T [OF this] show "set (thread_blocks p t)
        \<subseteq> {0x100, 0x104, 0x5000, 0x200, 0x204, 0x300, 0x304, 0x400, 0x404, 0x500, 0x504}" by auto
  next
    fix p q t u assume "example_threads p = Some t \<and> example_threads q = Some u \<and> p \<noteq> q"
    with T [of p t] T [of q u] show "set (thread_blocks p t) \<inter> set (thread_blocks q u) = {}" by auto
  qed
qed

lemma thread_inv_example: "thread_inv list_klib kern_example" and rooms_ok_example: "rooms_ok list_klib kern_example"
proof -
  have "set [0x100, 0x200, 0x300, 0x500, 0x400] \<subseteq> dom example_threads" by (simp add: example_threads_def)
  moreover have "\<exists>t. example_threads 0x400 = Some t \<and> t_vmspace t = NULL \<and> t_cwd t = NULL"
    by (simp add: example_threads_def new_thread_def)
  ultimately show "thread_inv list_klib kern_example"
    using blocks_ok_example by (simp add: thread_inv_def klib_laws_list_klib)
  show "rooms_ok list_klib kern_example" by (simp add: rooms_ok_def)
qed

end
