(* ===== verification/Thread_Spec.thy ===== *)
theory Thread_Spec
  imports Thread_Inv
begin

text \<open>
  What the operations of the thread system promise. Safety: from a state with the invariant, yield,
  sleep, exit and wake-up never fail an assertion and re-establish it. Refinement: on the abstract
  thread system \<open>tsys\<close> they are the operations \<open>spec_yield\<close>, \<open>spec_sleep\<close>, \<open>spec_exit\<close>, \<open>spec_wakeup\<close>
  and \<open>spec_fork\<close>.
\<close>

section \<open>Entering the switch\<close>

text \<open>The magic number at the bottom of the running thread's stack is intact.\<close>

definition stack_intact :: "('q, 'a, 'h, 'z) kern_scheme \<Rightarrow> bool" where
  "stack_intact s \<longleftrightarrow> (case threads s (curthread s) of None \<Rightarrow> True
     | Some t \<Rightarrow> t_stack t = NULL \<or> (kmem s (t_stack t) = 0xae \<and> kmem s (t_stack t + 1) = 0x11
         \<and> kmem s (t_stack t + 2) = 0xda \<and> kmem s (t_stack t + 3) = 0x33))"

lemma check_magic_intact:
  assumes "stack_intact s" and "threads s (curthread s) = Some t"
  shows "(if t_stack t \<noteq> NULL then check_magic t s else id) k = k"
  using assms by (auto simp: stack_intact_def check_magic_def)

lemma stack_intact_frame [simp]:
  "stack_intact (s\<lparr>c0_status := x1\<rparr>) = stack_intact s" "stack_intact (s\<lparr>curspl := x2\<rparr>) = stack_intact s"
  "stack_intact (s\<lparr>numthreads := x3\<rparr>) = stack_intact s" "stack_intact (s\<lparr>kheap := x4\<rparr>) = stack_intact s"
  "stack_intact (s\<lparr>addrspaces := x5\<rparr>) = stack_intact s"
  by (simp_all add: stack_intact_def split: option.split)

lemma stack_intact_splhigh [simp]: "stack_intact (snd (splhigh M s)) = stack_intact s"
  using splx_shape [of M "SPL_HIGH M" s] by (auto simp: splhigh_def)

lemma stack_intact_upd_thread:
  assumes "threads s (curthread s) = Some t" and "t_stack t' = t_stack t"
  shows "stack_intact (s\<lparr>threads := (threads s)(curthread s \<mapsto> t')\<rparr>) = stack_intact s"
  using assms by (simp add: stack_intact_def)

lemma mi_switch_park:
  assumes "curspl s > 0" and "curthread s \<noteq> NULL" and "curthread s \<in> dom (threads s)" and "stack_intact s"
  shows "mi_switch L M evs st s
    = bnd (park L st (curthread s) (s\<lparr>curthread := NULL\<rparr>)) (mi_switch_pick L M evs (curthread s))"
proof -
  obtain t where t: "threads s (curthread s) = Some t" using assms(3) by auto
  show ?thesis using assms(1,2) t unfolding mi_switch_def
    by (simp add: check_magic_intact [OF assms(4) t] Let_def)
qed

text \<open>The conditions under which the running thread calls the thread system.\<close>

definition can_switch :: "('q, 'a, 'h) klib \<Rightarrow> ('q, 'a, 'h, 'z) kern_scheme \<Rightarrow> bool" where
  "can_switch L s \<longleftrightarrow> thread_inv L s \<and> rooms_ok L s \<and> curthread s \<noteq> NULL \<and> stack_intact s"

lemma can_switchD:
  assumes "can_switch L s"
  shows "thread_inv L s" "rooms_ok L s" "curthread s \<noteq> NULL" "stack_intact s" "curthread s \<in> dom (threads s)"
    "sleepers s \<noteq> None"
  using assms by (auto simp: can_switch_def thread_inv_def live_def running_def)

lemma curthread_spl [simp]:
  "curthread (snd (splx M n s)) = curthread s" "curthread (snd (splhigh M s)) = curthread s"
  "threads (snd (splx M n s)) = threads s" "threads (snd (splhigh M s)) = threads s"
  "sleepers (snd (splx M n s)) = sleepers s" "sleepers (snd (splhigh M s)) = sleepers s"
  "in_interrupt (snd (splhigh M s)) = in_interrupt s" "numthreads (snd (splhigh M s)) = numthreads s"
  "kheap (snd (splhigh M s)) = kheap s"
  using splx_shape [of M n s] splx_shape [of M "SPL_HIGH M" s] by (auto simp: splhigh_def)

lemma can_switch_splhigh [simp]: "can_switch L (snd (splhigh M s)) = can_switch L s"
  by (simp add: can_switch_def)

lemma can_switch_example: "can_switch list_klib kern_example"
  by (simp add: can_switch_def thread_inv_example rooms_ok_example stack_intact_def example_threads_def
      new_thread_def put_magic_def)

lemma abs_of_example:
  "abs_of list_klib kern_example = \<lparr>a_cur = Some 0x100, a_ready = [0x200], a_sleeping = [(0x300, 0x40), (0x500, 0x44)],
     a_zombies = [0x400]\<rparr>"
  by (simp add: abs_of_def sleepaddr_of_def example_threads_def)

section \<open>The abstract thread system\<close>

text \<open>
  The processor after \<open>cur\<close> was put on a list: the head of the ready list runs next; when that is \<open>cur\<close>
  itself it returns from \<open>mi_switch\<close> at once and disposes of the zombies; nobody ready means idle.
\<close>

definition spec_pick :: "ptr \<Rightarrow> tsys \<Rightarrow> tsys" where
  "spec_pick cur a = (case a_ready a of [] \<Rightarrow> a
     | t # ts \<Rightarrow> if t = cur then a\<lparr>a_cur := Some t, a_ready := ts, a_zombies := []\<rparr>
                 else a\<lparr>a_cur := Some t, a_ready := ts\<rparr>)"

definition spec_yield :: "ptr \<Rightarrow> tsys \<Rightarrow> tsys" where
  "spec_yield cur a = spec_pick cur (a\<lparr>a_cur := None, a_ready := a_ready a @ [cur]\<rparr>)"

definition spec_sleep :: "ptr \<Rightarrow> ptr \<Rightarrow> tsys \<Rightarrow> tsys" where
  "spec_sleep cur addr a = spec_pick cur (a\<lparr>a_cur := None, a_sleeping := a_sleeping a @ [(cur, addr)]\<rparr>)"

definition spec_exit :: "ptr \<Rightarrow> tsys \<Rightarrow> tsys" where
  "spec_exit cur a = spec_pick cur (a\<lparr>a_cur := None, a_zombies := a_zombies a @ [cur]\<rparr>)"

definition spec_wakeup :: "ptr \<Rightarrow> tsys \<Rightarrow> tsys" where
  "spec_wakeup addr a = a\<lparr>a_ready := a_ready a @ map fst (filter (\<lambda>x. snd x = addr) (a_sleeping a)),
     a_sleeping := filter (\<lambda>x. snd x \<noteq> addr) (a_sleeping a)\<rparr>"

definition spec_fork :: "ptr \<Rightarrow> tsys \<Rightarrow> tsys" where
  "spec_fork p a = a\<lparr>a_ready := a_ready a @ [p]\<rparr>"

definition out_state :: "'s outcome \<Rightarrow> 's" where
  "out_state out = (case out of Returned s \<Rightarrow> s | Switched s \<Rightarrow> s | Idling s \<Rightarrow> s)"

definition is_returned :: "'s outcome \<Rightarrow> bool" where
  "is_returned out = (case out of Returned _ \<Rightarrow> True | _ \<Rightarrow> False)"

lemma mi_switch_pick_spec:
  assumes i: "idle_inv L s" and "cur \<in> dom (threads s)"
  obtains out where "mi_switch_pick L M [] cur s = Inr out" "abs_of L (out_state out) = spec_pick cur (abs_of L s)"
    "outcome_ok L cur out" "is_returned out \<longrightarrow> cur \<in> set (ready L s)"
proof (cases "ready L s")
  case Nil
  then have "scheduler L M [] s = Inr (StillIdle s)" using scheduler_idle(1) [OF idle_inv_sched_ok [OF i]] by blast
  with Nil i show thesis
    by (intro that [of "Idling s"]) (simp_all add: mi_switch_pick_def out_state_def is_returned_def outcome_ok_def spec_pick_def abs_of_def)
next
  case (Cons t ts)
  obtain s1 where p: "scheduler L M [] s = Inr (Picked t s1)" "thread_inv L (s1\<lparr>curthread := t\<rparr>)"
      "rooms_ok L (s1\<lparr>curthread := t\<rparr>)" "abs_of L (s1\<lparr>curthread := t\<rparr>) = (abs_of L s)\<lparr>a_cur := Some t, a_ready := ts\<rparr>"
      "threads s1 = threads s" "curspl s1 = curspl s" "t \<noteq> NULL"
    by (rule pick_inv [OF i Cons])
  let ?s = "s1\<lparr>curthread := t\<rparr>"
  have a: "a_ready (abs_of L s) = t # ts" using Cons by (simp add: abs_of_def)
  have d: "cur \<in> dom (threads ?s)" "t \<in> dom (threads ?s)" "curspl s > 0"
    using assms p by (auto simp: thread_inv_def live_def running_def idle_inv_def)
  obtain s2 where s2: "md_switch M cur t ?s = Inr (cur \<noteq> t, s2)" "thread_inv L s2" "rooms_ok L s2 = rooms_ok L ?s"
      "abs_of L s2 = abs_of L ?s" "curthread s2 = curthread ?s" "curspl s2 = curspl ?s"
    by (rule md_switch_spec [OF p(2) d(1,2), where M = M])
  show thesis
  proof (cases "cur = t")
    case False
    with p s2 a d show thesis
      by (intro that [of "Switched s2"]) (simp_all add: mi_switch_pick_def out_state_def is_returned_def outcome_ok_def spec_pick_def)
  next
    case True
    have r: "curthread s2 \<noteq> NULL" "curspl s2 > 0" using s2 p d by simp_all
    obtain s3 where "mi_switch_resume L M s2 = Inr s3" "thread_inv L s3" "rooms_ok L s3 = rooms_ok L s2"
        "abs_of L s3 = (abs_of L s2)\<lparr>a_zombies := []\<rparr>" "curthread s3 = curthread s2" "curspl s3 = curspl s2"
      by (rule mi_switch_resume_spec [OF s2(2) r, where M = M])
    moreover from this have "zmb L s3 = []" by (simp add: abs_of_def)
    ultimately show thesis using p s2 a d True Cons
      by (intro that [of "Returned s3"]) (simp_all add: mi_switch_pick_def out_state_def outcome_ok_def spec_pick_def)
  qed
qed

section \<open>Yield, sleep, exit\<close>

definition outcome_inv :: "('q, 'a, 'h) klib \<Rightarrow> ('q, 'a, 'h, 'z) kern_scheme outcome \<Rightarrow> bool" where
  "outcome_inv L out \<longleftrightarrow> thread_inv L (out_state out) \<and> rooms_ok L (out_state out)"

lemma outcome_ok_inv: "outcome_ok L cur out \<Longrightarrow> outcome_inv L out"
  by (auto simp: outcome_ok_def outcome_inv_def out_state_def idle_inv_def split: outcome.splits)

lemma on_return_splx:
  assumes "outcome_inv L out"
  obtains out' where "on_return (\<lambda>s. Inr (snd (splx M n s))) out = Inr out'" "outcome_inv L out'"
    "abs_of L (out_state out') = abs_of L (out_state out)"
  using assms by (cases out) (auto simp: on_return_def outcome_inv_def out_state_def)

lemma thread_yield_eq:
  assumes "spl_consts M" and "can_switch L s"
  shows "thread_yield L M evs s = bnd (bnd (park L S_READY (curthread s) ((snd (splhigh M s))\<lparr>curthread := NULL\<rparr>))
      (mi_switch_pick L M evs (curthread s))) (on_return (\<lambda>s2. Inr (snd (splx M (curspl s) s2))))"
  using can_switchD [OF assms(2)] assms(1) mi_switch_park [of "snd (splhigh M s)" L M evs S_READY]
  by (simp add: thread_yield_def split_beta Let_def spl_consts_def)

lemma yield_park:
  assumes "spl_consts M" and "can_switch L s"
  obtains s1 where "park L S_READY (curthread s) ((snd (splhigh M s))\<lparr>curthread := NULL\<rparr>) = Inr s1"
    "idle_inv L s1" "curthread s \<in> dom (threads s1)"
    "abs_of L s1 = (abs_of L s)\<lparr>a_cur := None, a_ready := a_ready (abs_of L s) @ [curthread s]\<rparr>"
proof -
  let ?s = "snd (splhigh M s)"
  note d = can_switchD [OF assms(2)]
  have "thread_inv L ?s" "rooms_ok L ?s" "curthread ?s \<noteq> NULL" "curspl ?s > 0"
    using d assms(1) by (simp_all add: spl_consts_def)
  then obtain s1 where "park L S_READY (curthread ?s) (?s\<lparr>curthread := NULL\<rparr>) = Inr s1" "idle_inv L s1"
      "threads s1 = threads ?s" "abs_of L s1 = (abs_of L ?s)\<lparr>a_cur := None, a_ready := ready L ?s @ [curthread ?s]\<rparr>"
    by (rule park_ready_inv)
  moreover have "ready L ?s = a_ready (abs_of L s)"
    using abs_of_splx(2) [of L M s] by (simp add: abs_of_def)
  ultimately show thesis using d by (intro that [of s1]) simp_all
qed

text \<open>
  C1. \<open>thread_yield\<close> is safe whatever wake-ups its idle loop takes: from a state with the invariant and
  room on the lists, with the stack's magic number intact, no assertion fails, and the invariant holds in
  the thread that runs next.
\<close>

theorem thread_yield_safe:
  assumes "spl_consts M" and "can_switch L s" and "\<forall>ev \<in> set evs. good_event L ev"
  shows "\<exists>out. thread_yield L M evs s = Inr out \<and> outcome_inv L out"
proof -
  obtain s1 where s1: "park L S_READY (curthread s) ((snd (splhigh M s))\<lparr>curthread := NULL\<rparr>) = Inr s1"
      "idle_inv L s1" "curthread s \<in> dom (threads s1)"
    by (rule yield_park [OF assms(1,2)])
  obtain out where "mi_switch_pick L M evs (curthread s) s1 = Inr out" "outcome_ok L (curthread s) out"
    using mi_switch_pick_safe [OF s1(2,3) assms(3)] by blast
  with s1 thread_yield_eq [OF assms(1,2), of evs] outcome_ok_inv on_return_splx show ?thesis
    by (metis bnd_simps(2))
qed

theorem thread_yield_safe_witness:
  "\<exists>out. thread_yield list_klib sys161 [thread_wakeup list_klib 0x40] kern_example = Inr out \<and> outcome_inv list_klib out"
  by (rule thread_yield_safe [OF spl_consts_sys161 can_switch_example]) (simp add: good_event_wakeup)

lemma thread_yield_abs:
  assumes "spl_consts M" and "can_switch L s"
  shows "\<exists>out. thread_yield L M [] s = Inr out \<and> outcome_inv L out
    \<and> abs_of L (out_state out) = spec_yield (curthread s) (abs_of L s)"
proof -
  obtain s1 where s1: "park L S_READY (curthread s) ((snd (splhigh M s))\<lparr>curthread := NULL\<rparr>) = Inr s1"
      "idle_inv L s1" "curthread s \<in> dom (threads s1)"
      "abs_of L s1 = (abs_of L s)\<lparr>a_cur := None, a_ready := a_ready (abs_of L s) @ [curthread s]\<rparr>"
    by (rule yield_park [OF assms])
  obtain out where o: "mi_switch_pick L M [] (curthread s) s1 = Inr out" "outcome_ok L (curthread s) out"
      "abs_of L (out_state out) = spec_pick (curthread s) (abs_of L s1)"
    by (rule mi_switch_pick_spec [OF s1(2,3)])
  obtain out' where "on_return (\<lambda>t. Inr (snd (splx M (curspl s) t))) out = Inr out'" "outcome_inv L out'"
      "abs_of L (out_state out') = abs_of L (out_state out)"
    by (rule on_return_splx [OF outcome_ok_inv [OF o(2)]])
  with o s1 thread_yield_eq [OF assms, of "[]"] show ?thesis by (simp add: spec_yield_def)
qed

text \<open>
  C7. \<open>thread_yield\<close> refines the abstract yield: the running thread goes to the tail of the ready list and
  the head runs; if no other thread is ready it continues itself and the zombies are gone.
\<close>

theorem thread_yield_refines:
  assumes "spl_consts M" and "can_switch L s"
  shows "\<exists>out. thread_yield L M [] s = Inr out
    \<and> abs_of L (out_state out) = spec_yield (curthread s) (abs_of L s)"
  using thread_yield_abs [OF assms] by blast

theorem thread_yield_refines_witness:
  "\<exists>out. thread_yield list_klib sys161 [] kern_example = Inr out
    \<and> abs_of list_klib (out_state out) = \<lparr>a_cur = Some 0x200, a_ready = [0x100],
        a_sleeping = [(0x300, 0x40), (0x500, 0x44)], a_zombies = [0x400]\<rparr>"
  using thread_yield_refines [OF spl_consts_sys161 can_switch_example]
  by (simp add: abs_of_example spec_yield_def spec_pick_def)

lemma clear_sleepaddr_inv:
  assumes "thread_inv L s" and "curthread s \<noteq> NULL"
  obtains s' where "clear_sleepaddr s = Inr s'" "thread_inv L s'" "rooms_ok L s' = rooms_ok L s"
proof -
  obtain t where t: "threads s (curthread s) = Some t" using assms by (force simp: thread_inv_def live_def running_def)
  have "thread_inv L (s\<lparr>threads := (threads s)(curthread s \<mapsto> t\<lparr>t_sleepaddr := NULL\<rparr>)\<rparr>)"
    by (rule thread_inv_upd_thread [OF assms(1) t]) (simp_all add: thread_blocks_def)
  with t show thesis
    by (intro that [where s' = "s\<lparr>threads := (threads s)(curthread s \<mapsto> t\<lparr>t_sleepaddr := NULL\<rparr>)\<rparr>"])
      (simp_all add: clear_sleepaddr_def)
qed

lemma sleep_park:
  fixes addr :: ptr
  assumes "can_switch L s" and "curspl s > 0" and t: "threads s (curthread s) = Some t"
  defines "s0 \<equiv> s\<lparr>threads := (threads s)(curthread s \<mapsto> t\<lparr>t_sleepaddr := addr\<rparr>)\<rparr>"
  obtains s1 where "mi_switch L M evs S_SLEEP s0 = mi_switch_pick L M evs (curthread s) s1"
    "idle_inv L s1" "curthread s \<in> dom (threads s1)" "curthread s \<notin> set (ready L s1)"
    "abs_of L s1 = (abs_of L s)\<lparr>a_cur := None, a_sleeping := a_sleeping (abs_of L s) @ [(curthread s, addr)]\<rparr>"
proof -
  note d = can_switchD [OF assms(1)]
  have i: "thread_inv L s0" unfolding s0_def
    by (rule thread_inv_upd_thread [OF d(1) t]) (simp_all add: thread_blocks_def)
  have v: "slp L s0 = slp L s" "ready L s0 = ready L s" "zmb L s0 = zmb L s" "curthread s0 = curthread s"
    by (simp_all add: s0_def view_defs)
  have n: "curthread s \<notin> set (slp L s)" "curthread s \<notin> set (ready L s)"
    using d by (auto simp: thread_inv_def live_running)
  have "sleepaddr_of (threads s0) p = sleepaddr_of (threads s) p" if "p \<in> set (slp L s)" for p
    using n that by (auto simp: sleepaddr_of_def s0_def)
  then have a: "abs_of L s0 = abs_of L s" by (simp add: abs_of_def v)
  have c: "rooms_ok L s0" "curthread s0 \<noteq> NULL" "curspl s0 > 0" using d assms(2) by (simp_all add: s0_def)
  obtain s1 where s1: "park L S_SLEEP (curthread s0) (s0\<lparr>curthread := NULL\<rparr>) = Inr s1" "idle_inv L s1"
      "threads s1 = threads s0" "abs_of L s1 = (abs_of L s0)\<lparr>a_cur := None,
       a_sleeping := a_sleeping (abs_of L s0) @ [(curthread s0, sleepaddr_of (threads s0) (curthread s0))]\<rparr>"
    by (rule park_sleep_inv [OF i c])
  have sa: "sleepaddr_of (threads s0) (curthread s0) = addr" by (simp add: s0_def sleepaddr_of_def)
  have m: "mi_switch L M evs S_SLEEP s0 = mi_switch_pick L M evs (curthread s) s1"
    using mi_switch_park [of s0 L M evs S_SLEEP] c s1(1) v d(4) t
    by (simp add: s0_def stack_intact_upd_thread)
  have "ready L s1 = ready L s" using s1(4) v by (simp add: abs_of_def)
  with m s1 sa a v n t show thesis by (intro that [of s1]) (simp_all add: s0_def)
qed

text \<open>
  C5. \<open>thread_sleep\<close> is safe under the same conditions (called with interrupts off and not from an
  interrupt handler): no assertion fails and the invariant holds afterwards, also when a wake-up during
  the idle loop lets the caller return at once.
\<close>

theorem thread_sleep_safe:
  assumes "can_switch L s" and "curspl s > 0" and "in_interrupt s = 0" and "\<forall>ev \<in> set evs. good_event L ev"
  shows "\<exists>out. thread_sleep L M evs addr s = Inr out \<and> outcome_inv L out"
proof -
  note d = can_switchD [OF assms(1)]
  obtain t where t: "threads s (curthread s) = Some t" using d(5) by auto
  let ?s0 = "s\<lparr>threads := (threads s)(curthread s \<mapsto> t\<lparr>t_sleepaddr := addr\<rparr>)\<rparr>"
  obtain s1 where s1: "mi_switch L M evs S_SLEEP ?s0 = mi_switch_pick L M evs (curthread s) s1"
      "idle_inv L s1" "curthread s \<in> dom (threads s1)"
    by (rule sleep_park [OF assms(1,2) t, where M = M and evs = evs and addr = addr])
  obtain out where o: "mi_switch_pick L M evs (curthread s) s1 = Inr out" "outcome_ok L (curthread s) out"
    using mi_switch_pick_safe [OF s1(2,3) assms(4)] by blast
  have "\<exists>out'. on_return clear_sleepaddr out = Inr out' \<and> outcome_inv L out'"
  proof (cases out)
    case (Returned s2)
    with o(2) d(3) have "thread_inv L s2" "rooms_ok L s2" "curthread s2 \<noteq> NULL" by (simp_all add: outcome_ok_def)
    then obtain s3 where "clear_sleepaddr s2 = Inr s3" "thread_inv L s3" "rooms_ok L s3"
      using clear_sleepaddr_inv [of L s2] by metis
    with Returned show ?thesis by (simp add: on_return_def outcome_inv_def out_state_def)
  qed (use outcome_ok_inv [OF o(2)] in \<open>simp_all add: on_return_def\<close>)
  with o s1 t assms(3) show ?thesis by (simp add: thread_sleep_def)
qed

theorem thread_sleep_safe_witness:
  "\<exists>out. thread_sleep list_klib sys161 [thread_wakeup list_klib 0x40] 0x48 kern_example = Inr out
    \<and> outcome_inv list_klib out"
  by (rule thread_sleep_safe [OF can_switch_example]) (simp_all add: good_event_wakeup)

lemma thread_sleep_abs:
  assumes "can_switch L s" and "curspl s > 0" and "in_interrupt s = 0"
  shows "\<exists>out. thread_sleep L M [] addr s = Inr out \<and> \<not> is_returned out \<and> outcome_inv L out
    \<and> abs_of L (out_state out) = spec_sleep (curthread s) addr (abs_of L s)"
proof -
  obtain t where t: "threads s (curthread s) = Some t" using can_switchD(5) [OF assms(1)] by auto
  let ?s0 = "s\<lparr>threads := (threads s)(curthread s \<mapsto> t\<lparr>t_sleepaddr := addr\<rparr>)\<rparr>"
  obtain s1 where s1: "mi_switch L M [] S_SLEEP ?s0 = mi_switch_pick L M [] (curthread s) s1"
      "idle_inv L s1" "curthread s \<in> dom (threads s1)" "curthread s \<notin> set (ready L s1)"
      "abs_of L s1 = (abs_of L s)\<lparr>a_cur := None, a_sleeping := a_sleeping (abs_of L s) @ [(curthread s, addr)]\<rparr>"
    by (rule sleep_park [OF assms(1,2) t, where M = M and evs = "[]" and addr = addr])
  obtain out where o: "mi_switch_pick L M [] (curthread s) s1 = Inr out"
      "abs_of L (out_state out) = spec_pick (curthread s) (abs_of L s1)" "is_returned out \<longrightarrow> curthread s \<in> set (ready L s1)" "outcome_ok L (curthread s) out"
    by (rule mi_switch_pick_spec [OF s1(2,3), where M = M])
  then have "\<not> is_returned out" using s1(4) by blast
  then have "on_return clear_sleepaddr out = Inr out" by (auto simp: on_return_def is_returned_def split: outcome.splits)
  with o \<open>\<not> is_returned out\<close> s1 t assms(3) outcome_ok_inv show ?thesis by (simp add: thread_sleep_def spec_sleep_def)
qed

text \<open>
  C8. \<open>thread_sleep\<close> refines the abstract sleep: the caller is recorded as sleeping on the address, after
  the threads that already sleep, and the head of the ready list runs, or nobody.
\<close>

theorem thread_sleep_refines:
  assumes "can_switch L s" and "curspl s > 0" and "in_interrupt s = 0"
  shows "\<exists>out. thread_sleep L M [] addr s = Inr out \<and> \<not> is_returned out
    \<and> abs_of L (out_state out) = spec_sleep (curthread s) addr (abs_of L s)"
  using thread_sleep_abs [OF assms] by blast

theorem thread_sleep_refines_witness:
  "\<exists>out. thread_sleep list_klib sys161 [] 0x48 kern_example = Inr out \<and> \<not> is_returned out
    \<and> abs_of list_klib (out_state out) = \<lparr>a_cur = Some 0x200, a_ready = [],
        a_sleeping = [(0x300, 0x40), (0x500, 0x44), (0x100, 0x48)], a_zombies = [0x400]\<rparr>"
  using thread_sleep_refines [OF can_switch_example, where addr = "0x48" and M = sys161]
  by (simp add: abs_of_example spec_sleep_def spec_pick_def)

section \<open>Exit\<close>

lemma exit_cleanup_inv:
  assumes inv: "thread_inv L s" and "curthread s \<noteq> NULL" and t: "threads s (curthread s) = Some t"
  defines "s' \<equiv> exit_cleanup L t s"
  shows "thread_inv L s'" "rooms_ok L s' = rooms_ok L s" "abs_of L s' = abs_of L s" "curthread s' = curthread s"
    "curspl s' = curspl s" "dead (threads s') (curthread s)" "stack_intact s' = stack_intact s"
    "zmb L s' = zmb L s" "zmb_room L s' = zmb_room L s" "numthreads s' = numthreads s"
proof -
  let ?vm = "t_vmspace t"
  define s1 where "s1 = (if ?vm \<noteq> NULL
    then as_destroy L ?vm (s\<lparr>threads := (threads s)(curthread s \<mapsto> t\<lparr>t_vmspace := NULL\<rparr>)\<rparr>) else s)"
  define h where "h = (if t_cwd t \<noteq> NULL then VOP_DECREF L (t_cwd t) (kheap s1) else kheap s1)"
  let ?t = "t\<lparr>t_vmspace := NULL, t_cwd := NULL\<rparr>"
  have laws: "heap_laws L" using inv by (simp add: thread_inv_def klib_laws_def)
  have tt: "t\<lparr>t_vmspace := NULL\<rparr> = t" if "?vm = NULL" using that by simp
  have tc: "t\<lparr>t_vmspace := NULL, t_cwd := NULL\<rparr> = t\<lparr>t_vmspace := NULL\<rparr>" if "t_cwd t = NULL" using that by (cases t) simp
  have s'_eq: "s' = s\<lparr>kheap := h, addrspaces := addrspaces s1, threads := (threads s)(curthread s \<mapsto> ?t)\<rparr>"
    by (cases "t_cwd t = NULL"; cases "?vm = NULL")
      (use t in \<open>simp_all add: s'_def exit_cleanup_def h_def s1_def as_destroy_def Let_def tc tt fun_upd_idem\<close>)
  have own: "k_owned L h = k_owned L (kheap s) - (if ?vm \<noteq> NULL then {?vm} else {})"
    using laws by (simp add: h_def s1_def as_destroy_def kfree_owned vop_owned)
  have d: "distinct (thread_blocks (curthread s) t)" and ok: "blocks_ok (k_owned L (kheap s)) (threads s)"
    using inv t blocks_okD(1) by (auto simp: thread_inv_def)
  have "set (thread_blocks (curthread s) t) - set (thread_blocks (curthread s) ?t) = (if ?vm \<noteq> NULL then {?vm} else {})"
    and sub: "set (thread_blocks (curthread s) ?t) \<subseteq> set (thread_blocks (curthread s) t)" "distinct (thread_blocks (curthread s) ?t)"
    using d by (auto simp: thread_blocks_def split: if_splits)
  with own blocks_ok_shrink [OF ok t sub] have b: "blocks_ok (k_owned L h) ((threads s)(curthread s \<mapsto> ?t))" by simp
  have v: "live L s' = live L s" "ready L s' = ready L s" "slp L s' = slp L s" by (simp_all add: s'_eq view_defs)
  show z: "zmb L s' = zmb L s" "zmb_room L s' = zmb_room L s" "rooms_ok L s' = rooms_ok L s"
    by (simp_all add: s'_eq view_defs)
  show "curthread s' = curthread s" "curspl s' = curspl s" "numthreads s' = numthreads s" by (simp_all add: s'_eq)
  show "dead (threads s') (curthread s)" by (simp add: s'_eq dead_def)
  show "stack_intact s' = stack_intact s" using t by (simp add: s'_eq stack_intact_def)
  have n: "curthread s \<notin> set (zmb L s)" "curthread s \<in> set (live L s)"
    using inv assms(2) by (auto simp: thread_inv_def live_running)
  show "thread_inv L s'"
    unfolding thread_inv_def v z using inv b n t by (auto simp: s'_eq thread_inv_def)
  have "map (\<lambda>p. (p, sleepaddr_of (threads s') p)) (slp L s) = map (\<lambda>p. (p, sleepaddr_of (threads s) p)) (slp L s)"
    using t by (simp add: s'_eq sleepaddr_of_def)
  then show "abs_of L s' = abs_of L s" by (simp add: abs_of_def v z) (simp add: s'_eq)
qed

lemma exit_park:
  assumes "spl_consts M" and "can_switch L s" and "length (zmb L s) < zmb_room L s"
  obtains s1 where "thread_exit L M evs s
      = bnd (mi_switch_pick L M evs (curthread s) s1) (on_return (\<lambda>s2. Inl (Panic ''Thread came back from the dead!'')))"
    "idle_inv L s1" "curthread s \<in> dom (threads s1)" "curthread s \<in> set (zmb L s1)"
    "abs_of L s1 = (abs_of L s)\<lparr>a_cur := None, a_zombies := a_zombies (abs_of L s) @ [curthread s]\<rparr>"
proof -
  note d = can_switchD [OF assms(2)]
  obtain t where t: "threads s (curthread s) = Some t" using d(5) by auto
  let ?s = "snd (splhigh M s)" let ?c = "exit_cleanup L t ?s"
  have "thread_inv L ?s" "curthread ?s \<noteq> NULL" "threads ?s (curthread ?s) = Some t" using d t by simp_all
  note c = exit_cleanup_inv [OF this]
  have z: "zmb L ?s = zmb L s" "zmb_room L ?s = zmb_room L s"
    using splx_shape [of M "SPL_HIGH M" s] by (auto simp: splhigh_def view_defs)
  have p: "rooms_ok L ?c" "curthread ?c \<noteq> NULL" "curspl ?c > 0" "dead (threads ?c) (curthread ?c)"
      "length (zmb L ?c) < zmb_room L ?c" "stack_intact ?c"
    using c d assms(1,3) z by (simp_all add: spl_consts_def)
  obtain s1 where s1: "park L S_ZOMB (curthread ?c) (?c\<lparr>numthreads := numthreads ?c - 1, curthread := NULL\<rparr>) = Inr s1"
      "idle_inv L s1" "threads s1 = threads ?c" "abs_of L s1 = (abs_of L ?c)\<lparr>a_cur := None, a_zombies := zmb L ?c @ [curthread ?c]\<rparr>"
    by (rule park_zomb_inv [OF c(1) p(1-5)])
  have dom: "curthread ?c \<in> dom (threads ?c)" using p(4) by (auto simp: dead_def)
  have "sint (numthreads ?c) > 0" using c(1) p(2) by (simp add: thread_inv_def live_running)
  then have "thread_exit L M evs s
      = bnd (mi_switch_pick L M evs (curthread s) s1) (on_return (\<lambda>s2. Inl (Panic ''Thread came back from the dead!'')))"
    using t mi_switch_park [of "?c\<lparr>numthreads := numthreads ?c - 1\<rparr>" L M evs S_ZOMB] s1(1) p dom c(4)
    by (simp add: thread_exit_def Let_def check_magic_intact [OF d(4) t])
  moreover have "zmb L s1 = zmb L s @ [curthread s]" using s1(4) c z by (simp add: abs_of_def)
  moreover have "a_zombies (abs_of L s) = zmb L s" by (simp add: abs_of_def)
  ultimately show thesis using s1 dom c z by (intro that [of s1]) simp_all
qed

lemma pick_not_zombie:
  assumes "idle_inv L s" and "p \<in> set (zmb L s)"
  shows "p \<notin> set (ready L s)"
  using assms by (auto simp: idle_inv_def thread_inv_def live_def)

lemma thread_exit_abs:
  assumes "spl_consts M" and "can_switch L s" and "length (zmb L s) < zmb_room L s"
  shows "\<exists>out. thread_exit L M [] s = Inr out \<and> \<not> is_returned out \<and> outcome_inv L out
    \<and> abs_of L (out_state out) = spec_exit (curthread s) (abs_of L s)"
proof -
  obtain s1 where s1: "thread_exit L M [] s
      = bnd (mi_switch_pick L M [] (curthread s) s1) (on_return (\<lambda>s2. Inl (Panic ''Thread came back from the dead!'')))"
    "idle_inv L s1" "curthread s \<in> dom (threads s1)" "curthread s \<in> set (zmb L s1)"
    "abs_of L s1 = (abs_of L s)\<lparr>a_cur := None, a_zombies := a_zombies (abs_of L s) @ [curthread s]\<rparr>"
    by (rule exit_park [OF assms])
  obtain out where o: "mi_switch_pick L M [] (curthread s) s1 = Inr out"
      "abs_of L (out_state out) = spec_pick (curthread s) (abs_of L s1)" "outcome_ok L (curthread s) out"
      "is_returned out \<longrightarrow> curthread s \<in> set (ready L s1)"
    by (rule mi_switch_pick_spec [OF s1(2,3), where M = M])
  then have nr: "\<not> is_returned out" using pick_not_zombie [OF s1(2,4)] by blast
  then have "on_return k out = Inr out" for k by (auto simp: on_return_def is_returned_def split: outcome.splits)
  with o s1 nr outcome_ok_inv [OF o(3)] show ?thesis by (simp add: spec_exit_def)
qed

text \<open>
  C9. \<open>thread_exit\<close> never returns to the dead thread and refines the abstract exit: the caller becomes a
  zombie without address space or directory and the head of the ready list runs, or nobody. The
  condition is that the zombie array has room, which \<open>thread_fork\<close> prepares only for as many zombies as
  there are threads.
\<close>

theorem thread_exit_refines:
  assumes "spl_consts M" and "can_switch L s" and "length (zmb L s) < zmb_room L s"
  shows "\<exists>out. thread_exit L M [] s = Inr out \<and> \<not> is_returned out \<and> outcome_inv L out
    \<and> abs_of L (out_state out) = spec_exit (curthread s) (abs_of L s)"
  by (rule thread_exit_abs [OF assms])

theorem thread_exit_refines_witness:
  "\<exists>out. thread_exit list_klib sys161 [] kern_example = Inr out \<and> \<not> is_returned out \<and> outcome_inv list_klib out
    \<and> abs_of list_klib (out_state out) = \<lparr>a_cur = Some 0x200, a_ready = [],
        a_sleeping = [(0x300, 0x40), (0x500, 0x44)], a_zombies = [0x400, 0x100]\<rparr>"
  using thread_exit_refines [OF spl_consts_sys161 can_switch_example]
  by (simp add: abs_of_example spec_exit_def spec_pick_def)

end
