(* ===== verification/Thread_Fork.thy ===== *)
theory Thread_Fork
  imports Thread_Spec
begin

text \<open>
  \<open>thread_fork\<close>, \<open>thread_wakeup\<close> and \<open>thread_bootstrap\<close> against the invariant: a successful fork makes room
  for one more thread everywhere and appends it to the ready list; a failed fork gives everything back.
\<close>

section \<open>Wake-up on the abstract thread system\<close>

lemma sleeps_on_sleepaddr: "p \<in> dom T \<Longrightarrow> sleeps_on T addr p \<longleftrightarrow> sleepaddr_of T p = addr"
  by (auto simp: sleeps_on_def sleepaddr_of_def)

lemma thread_wakeup_abs:
  assumes "thread_inv L s" and "rooms_ok L s" and "curspl s > 0"
  shows "\<exists>s'. thread_wakeup L addr s = Inr s' \<and> abs_of L s' = spec_wakeup addr (abs_of L s)
    \<and> thread_inv L s' \<and> rooms_ok L s'
    \<and> curspl s' = curspl s \<and> kern.more s' = kern.more s \<and> curthread s' = curthread s \<and> threads s' = threads s \<and> kmem s' = kmem s"
proof -
  obtain a q h where w: "thread_wakeup L addr s = Inr (s\<lparr>sleepers := Some a, runqueue := Some q, kheap := h\<rparr>)"
    "a_list L a = filter (\<lambda>p. \<not> sleeps_on (threads s) addr p) (slp L s)"
    "q_list L q = ready L s @ filter (sleeps_on (threads s) addr) (slp L s)"
    "thread_inv L (s\<lparr>sleepers := Some a, runqueue := Some q, kheap := h\<rparr>)"
    "rooms_ok L (s\<lparr>sleepers := Some a, runqueue := Some q, kheap := h\<rparr>)"
    by (rule thread_wakeup_spec [OF assms])
  let ?s = "s\<lparr>sleepers := Some a, runqueue := Some q, kheap := h\<rparr>"
  have "set (slp L s) \<subseteq> dom (threads s)" using assms(1) by (auto simp: thread_inv_def live_def)
  then have "sleeps_on (threads s) addr p \<longleftrightarrow> sleepaddr_of (threads s) p = addr" if "p \<in> set (slp L s)" for p
    using that by (intro sleeps_on_sleepaddr) auto
  then have f: "filter (sleeps_on (threads s) addr) (slp L s) = filter (\<lambda>p. sleepaddr_of (threads s) p = addr) (slp L s)"
      "filter (\<lambda>p. \<not> sleeps_on (threads s) addr p) (slp L s) = filter (\<lambda>p. sleepaddr_of (threads s) p \<noteq> addr) (slp L s)"
    by (simp_all cong: filter_cong)
  have "ready L ?s = q_list L q" "slp L ?s = a_list L a" "zmb L ?s = zmb L s" by (simp_all add: view_defs)
  then have "abs_of L ?s = spec_wakeup addr (abs_of L s)"
    unfolding abs_of_def spec_wakeup_def using w(2,3) f by (simp add: filter_map comp_def)
  with w show ?thesis by simp
qed

text \<open>
  C6. \<open>thread_wakeup\<close> wakes exactly the threads that sleep on the address, all of them, in the order in
  which they went to sleep, and leaves the other sleepers asleep; its loop ends and no assertion fails.
\<close>

theorem thread_wakeup_refines:
  assumes "thread_inv L s" and "rooms_ok L s" and "curspl s > 0"
  shows "\<exists>s'. thread_wakeup L addr s = Inr s' \<and> abs_of L s' = spec_wakeup addr (abs_of L s)
    \<and> thread_inv L s' \<and> rooms_ok L s'"
  using thread_wakeup_abs [OF assms] by blast

theorem thread_wakeup_refines_witness:
  "\<exists>s'. thread_wakeup list_klib 0x40 kern_example = Inr s' \<and> thread_inv list_klib s'
    \<and> abs_of list_klib s' = \<lparr>a_cur = Some 0x100, a_ready = [0x200, 0x300], a_sleeping = [(0x500, 0x44)], a_zombies = [0x400]\<rparr>"
  using thread_wakeup_refines [OF thread_inv_example rooms_ok_example, where addr = "0x40"]
  by (auto simp: abs_of_example spec_wakeup_def)

section \<open>Creating a thread\<close>

lemma thread_create_cases:
  assumes "heap_laws L"
  obtains (nomem) h where "thread_create L M name s = Inr (NULL, s\<lparr>kheap := h\<rparr>)" "k_owned L h = k_owned L (kheap s)"
  | (notable) "numprocesses s = 0" "thread_create L M name s = Inl (BadDeref ''full_process_table'')"
  | (ok) p nm h tb tabs X where
      "thread_create L M name s = Inr (p, s\<lparr>kheap := h, threads := (threads s)(p \<mapsto> new_thread nm),
         full_process_table := tb, tables := tabs\<rparr>)"
      "p \<noteq> NULL" "nm \<noteq> NULL" "p \<noteq> nm" "{p, nm} \<inter> (k_owned L (kheap s) \<union> X) = {}"
      "k_owned L h = k_owned L (kheap s) \<union> {p, nm} \<union> X" "numprocesses s \<noteq> 0 \<longrightarrow> X = {}"
proof -
  obtain p h1 where p: "kmalloc L (sizeof_thread M) (kheap s) = (p, h1)" by fastforce
  obtain nm h2 where nm: "kstrdup L name h1 = (nm, h2)" by fastforce
  obtain tb h3 where tb: "kmalloc L (128 * 4) h2 = (tb, h3)" by fastforce
  note sp = kmalloc_spec [OF assms p] kstrdup_spec [OF assms nm] kmalloc_spec [OF assms tb]
  show thesis
  proof (cases "p = NULL \<or> nm = NULL")
    case True
    then show thesis using p nm sp
      by (intro nomem [of "if p = NULL then h1 else kfree L p h2"])
        (auto simp: thread_create_def alloc_spec_def kfree_owned [OF assms] split: if_splits)
  next
    case pn: False
    show thesis
    proof (cases "numprocesses s = 0")
      case False
      with pn p nm sp show thesis
        by (intro ok [where p = p and nm = nm and h = h2 and tb = "full_process_table s" and tabs = "tables s" and X = "{}"])
          (auto simp: thread_create_def alloc_spec_def)
    next
      case True
      show thesis
      proof (cases "tb = NULL")
        assume "tb = NULL"
        with pn p nm tb True show thesis
          by (intro notable) (simp_all add: thread_create_def fptInitialize_def)
      next
        assume "tb \<noteq> NULL"
        with pn p nm tb True sp show thesis
          by (intro ok [where p = p and nm = nm and h = h3 and tb = tb
                and tabs = "(tables s)(tb \<mapsto> replicate 128 NULL)" and X = "{tb}"])
            (auto simp: thread_create_def fptInitialize_def alloc_spec_def)
      qed
    qed
  qed
qed

lemma fork_enqueue_spec:
  assumes "klib_laws L" and "curspl s > 0" and "runqueue s \<noteq> None" "sleepers s \<noteq> None" "zombies s \<noteq> None"
  obtains r a z q h where
    "fork_enqueue L p s = Inr (r, s\<lparr>sleepers := Some a, zombies := Some z, runqueue := Some q, kheap := h,
       numthreads := (if r = 0 then numthreads s + 1 else numthreads s)\<rparr>)"
    "a_list L a = slp L s" "a_list L z = zmb L s" "q_list L q = (if r = 0 then ready L s @ [p] else ready L s)"
    "slp_room L s \<le> a_room L a" "zmb_room L s \<le> a_room L z" "run_room L s \<le> q_room L q"
    "k_owned L h = k_owned L (kheap s)"
    "r = 0 \<longrightarrow> sint (numthreads s + 1) \<le> int (a_room L a) \<and> sint (numthreads s + 1) \<le> int (a_room L z)
       \<and> sint (numthreads s + 1) \<le> int (q_room L q)"
proof -
  have laws: "array_laws L" "queue_laws L" using assms(1) by (simp_all add: klib_laws_def)
  obtain a0 z0 q0 where o: "sleepers s = Some a0" "zombies s = Some z0" "runqueue s = Some q0" using assms by auto
  let ?n = "sint (numthreads s + 1)"
  obtain r1 a h1 where a: "array_preallocate L a0 ?n (kheap s) = (r1, a, h1)" by (metis prod_cases3)
  obtain r2 z h2 where z: "array_preallocate L z0 ?n h1 = (r2, z, h2)" by (metis prod_cases3)
  obtain r3 q1 h3 where q1: "q_preallocate L q0 ?n h2 = (r3, q1, h3)" by (metis prod_cases3)
  obtain r4 q h4 where q: "q_addtail L q1 p h3 = (r4, q, h4)" by (metis prod_cases3)
  note sp = array_preallocate_spec [OF laws(1) a] array_preallocate_spec [OF laws(1) z]
    q_preallocate_spec [OF laws(2) q1] q_addtail_spec [OF laws(2) q]
  note v = o view_defs
  consider "r1 \<noteq> 0" | "r1 = 0" "r2 \<noteq> 0" | "r1 = 0" "r2 = 0" "r3 \<noteq> 0" | "r1 = 0" "r2 = 0" "r3 = 0" by blast
  then show thesis
  proof cases
    case 1
    with a o sp show thesis
      by (intro that [where r = r1 and a = a and z = z0 and q = q0 and h = h1]) (simp_all add: fork_enqueue_def v)
  next
    case 2
    with a z o sp show thesis
      by (intro that [where r = r2 and a = a and z = z and q = q0 and h = h2]) (simp_all add: fork_enqueue_def v)
  next
    case 3
    with a z q1 o sp assms(2) show thesis
      by (intro that [where r = r3 and a = a and z = z and q = q1 and h = h3])
        (simp_all add: fork_enqueue_def scheduler_preallocate_def v)
  next
    case 4
    with a z q1 q o sp assms(2) show thesis
      by (intro that [where r = r4 and a = a and z = z and q = q and h = h4])
        (simp_all add: fork_enqueue_def scheduler_preallocate_def make_runnable_def v)
  qed
qed

section \<open>Fork\<close>

text \<open>The state in which the new thread \<open>p\<close> with structure \<open>t\<close> is complete but not yet on a list.\<close>

lemma fork_success_inv:
  assumes inv: "thread_inv L s" and n: "sint (numthreads s) < 2 ^ 31 - 1"
    and p: "p \<noteq> NULL" "distinct (thread_blocks p t)" "set (thread_blocks p t) \<inter> k_owned L (kheap s) = {}"
      "k_owned L (kheap s) \<union> set (thread_blocks p t) \<subseteq> k_owned L (kheap s')"
    and v: "running s' = running s" "ready L s' = ready L s @ [p]" "slp L s' = slp L s" "zmb L s' = zmb L s"
      "runqueue s' \<noteq> None" "sleepers s' \<noteq> None" "zombies s' \<noteq> None"
    and u: "threads s' = (threads s)(p \<mapsto> t)" "numthreads s' = numthreads s + 1"
  shows "thread_inv L s'"
proof -
  have b: "blocks_ok (k_owned L (kheap s)) (threads s)" using inv by (simp add: thread_inv_def)
  have pn: "p \<notin> dom (threads s)"
    using blocks_ok_self [OF b] p by (auto simp: thread_blocks_def)
  have b': "blocks_ok (k_owned L (kheap s')) ((threads s)(p \<mapsto> t))"
    by (rule blocks_ok_add [OF b p])
  have "sint (numthreads s + 1) = sint (numthreads s) + 1" using n by (rule sint_plus_one)
  moreover have l: "live L s' = running s @ (ready L s @ [p]) @ slp L s" by (simp add: live_def v)
  moreover have "z \<noteq> p" if "z \<in> set (zmb L s)" for z using inv pn that by (auto simp: thread_inv_def)
  ultimately show ?thesis using inv b' pn unfolding thread_inv_def l v(4) u
    by (auto simp: v live_def)
qed

text \<open>Everything that \<open>thread_fork\<close> does up to the critical section.\<close>

lemma thread_fork_cases:
  assumes inv: "thread_inv L s" "curthread s \<noteq> NULL" and M: "spl_consts M"
  obtains (notable) "numprocesses s = 0" "thread_fork L M name d1 d2 f s = Inl (BadDeref ''full_process_table'')"
  | (nomem) h tb tabs where "thread_fork L M name d1 d2 f s
        = Inr ((ENOMEM, None), s\<lparr>kheap := h, full_process_table := tb, tables := tabs\<rparr>)"
      "k_owned L (kheap s) \<subseteq> k_owned L h" "numprocesses s \<noteq> 0 \<longrightarrow> k_owned L h = k_owned L (kheap s)"
  | (enq) p t h tb tabs m s4 where
      "s4 = snd (splhigh M (s\<lparr>full_process_table := tb, tables := tabs, kheap := h, kmem := m, threads := (threads s)(p \<mapsto> t)\<rparr>))"
      "thread_fork L M name d1 d2 f s = bnd (fork_enqueue L p s4) (\<lambda>(result, s5).
         let (_, s6) = splx M (curspl s) s5
         in if result = 0 then Inr ((0, Some p), s6)
            else bnd (fork_fail L p s6) (\<lambda>s7. Inr ((result, None), s7)))"
      "p \<noteq> NULL" "t_name t \<noteq> NULL" "t_stack t \<noteq> NULL" "t_vmspace t = NULL" "distinct (thread_blocks p t)"
      "set (thread_blocks p t) \<inter> k_owned L (kheap s) = {}"
      "k_owned L (kheap s) \<union> set (thread_blocks p t) \<subseteq> k_owned L h"
      "numprocesses s \<noteq> 0 \<longrightarrow> k_owned L h = k_owned L (kheap s) \<union> set (thread_blocks p t)"
      "\<exists>cur. threads s (curthread s) = Some cur \<and> t_cwd t = t_cwd cur"
proof -
  have laws: "heap_laws L" using inv by (simp add: thread_inv_def klib_laws_def)
  have ok: "blocks_ok (k_owned L (kheap s)) (threads s)" using inv by (simp add: thread_inv_def)
  obtain cur where cur: "threads s (curthread s) = Some cur"
    using inv by (force simp: thread_inv_def live_def running_def)
  show thesis
  proof (cases rule: thread_create_cases [OF laws, of M name s, case_names nm nt ok])
    case (nm h)
    then show thesis
      by (intro nomem [where h = h and tb = "full_process_table s" and tabs = "tables s"])
        (simp_all add: thread_fork_def)
  next
    case nt
    then show thesis by (intro notable) (simp_all add: thread_fork_def)
  next
    case c: (ok p nm h tb tabs X)
    have pn: "p \<notin> dom (threads s)" using blocks_ok_self [OF ok] c(5) by auto
    obtain stk h1 where stk: "kmalloc L (unat (STACK_SIZE M)) h = (stk, h1)" by fastforce
    note a = kmalloc_spec [OF laws stk]
    show thesis
    proof (cases "stk = NULL")
      case True
      then have "k_owned L h1 = k_owned L h" using a by (simp add: alloc_spec_def)
      moreover have "((threads s)(p \<mapsto> new_thread nm))(p := None) = threads s" using pn by auto
      ultimately show thesis using c stk True
        by (intro nomem [where h = "kfree L p (kfree L nm h1)" and tb = tb and tabs = tabs])
          (auto simp: thread_fork_def kfree_owned [OF laws] new_thread_def)
    next
      case False
      define h2 where "h2 = (if t_cwd cur \<noteq> NULL then VOP_INCREF L (t_cwd cur) h1 else h1)"
      have own: "stk \<notin> k_owned L h" "k_owned L h2 = insert stk (k_owned L h)"
        using a False vop_owned [OF laws] by (auto simp: alloc_spec_def h2_def)
      let ?s1 = "s\<lparr>kheap := h, threads := (threads s)(p \<mapsto> new_thread nm), full_process_table := tb, tables := tabs\<rparr>"
      let ?s2 = "?s1\<lparr>kheap := h2, kmem := put_magic stk (kmem ?s1)\<rparr>"
      obtain pc m where md: "md_initpcb M stk d1 d2 f ?s2 = (pc, ?s2\<lparr>kmem := m\<rparr>)"
        by (auto simp: md_initpcb_def Let_def)
      let ?t = "(new_thread nm)\<lparr>t_stack := stk, t_cwd := t_cwd cur, t_pcb := pc\<rparr>"
      let ?s3 = "s\<lparr>full_process_table := tb, tables := tabs, kheap := h2, kmem := m, threads := (threads s)(p \<mapsto> ?t)\<rparr>"
      have cp: "curthread s \<noteq> p" using cur pn by auto
      obtain s4 where sh: "splhigh M ?s3 = (curspl s, s4)" by (cases "splhigh M ?s3") (use fst_splhigh [of M ?s3] in simp)
      have "thread_fork L M name d1 d2 f s = bnd (fork_enqueue L p s4) (\<lambda>(result, s5).
         let (_, s6) = splx M (curspl s) s5
         in if result = 0 then Inr ((0, Some p), s6)
            else bnd (fork_fail L p s6) (\<lambda>s7. Inr ((result, None), s7)))"
        using c(1,2) stk False cur cp md sh
        by (cases "t_cwd cur = NULL") (simp_all add: thread_fork_def h2_def)
      moreover have "set (thread_blocks p ?t) = {p, nm, stk}" "distinct (thread_blocks p ?t)"
        using c False own by (auto simp: thread_blocks_def new_thread_def)
      moreover have "s4 = snd (splhigh M ?s3)" using sh by simp
      ultimately show thesis using c own False cur
        by (intro enq [where p = p and t = ?t and h = h2 and tb = tb and tabs = tabs and m = m
              and ?s4.0 = s4]) (auto simp: new_thread_def)
    qed
  qed
qed

lemma fork_fail_spec:
  assumes "heap_laws L" and "threads s p = Some t" and "p \<noteq> NULL" "t_name t \<noteq> NULL" "t_stack t \<noteq> NULL" "t_vmspace t = NULL"
  obtains h where "fork_fail L p s = Inr (s\<lparr>kheap := h, threads := (threads s)(p := None)\<rparr>)"
    "k_owned L h = k_owned L (kheap s) - set (thread_blocks p t)"
proof (rule that)
  let ?h1 = "if t_cwd t \<noteq> NULL then VOP_DECREF L (t_cwd t) (kheap s) else kheap s"
  let ?h = "kfree L p (kfree L (t_name t) (kfree L (t_stack t) ?h1))"
  show "fork_fail L p s = Inr (s\<lparr>kheap := ?h, threads := (threads s)(p := None)\<rparr>)"
    using assms by (simp add: fork_fail_def)
  show "k_owned L ?h = k_owned L (kheap s) - set (thread_blocks p t)"
    using assms by (auto simp: kfree_owned vop_owned thread_blocks_def)
qed

text \<open>What a caller of \<open>thread_fork\<close> may rely on, for each result.\<close>

definition fork_promise ::
  "('q, 'a, 'h) klib \<Rightarrow> ('q, 'a, 'h, 'z) kern_scheme \<Rightarrow> int \<Rightarrow> ptr option \<Rightarrow> ('q, 'a, 'h, 'z) kern_scheme \<Rightarrow> bool" where
  "fork_promise L s r ret s' \<longleftrightarrow> thread_inv L s' \<and> curthread s' = curthread s \<and>
     (if r = 0 then \<exists>p t cur. ret = Some p \<and> p \<notin> dom (threads s) \<and> threads s' = (threads s)(p \<mapsto> t)
          \<and> threads s (curthread s) = Some cur \<and> t_cwd t = t_cwd cur
          \<and> abs_of L s' = spec_fork p (abs_of L s) \<and> rooms_ok L s' \<and> sint (numthreads s') \<le> int (zmb_room L s')
          \<and> numthreads s' = numthreads s + 1
      else ret = None \<and> abs_of L s' = abs_of L s \<and> threads s' = threads s \<and> numthreads s' = numthreads s
          \<and> (rooms_ok L s \<longrightarrow> rooms_ok L s') \<and> k_owned L (kheap s) \<subseteq> k_owned L (kheap s')
          \<and> (numprocesses s \<noteq> 0 \<longrightarrow> k_owned L (kheap s') = k_owned L (kheap s)))"

lemma fork_promise_success:
  assumes inv: "thread_inv L s" and n: "sint (numthreads s) < 2 ^ 31 - 1"
    and p: "p \<noteq> NULL" "distinct (thread_blocks p t)" "set (thread_blocks p t) \<inter> k_owned L (kheap s) = {}"
      "k_owned L (kheap s) \<union> set (thread_blocks p t) \<subseteq> k_owned L (kheap s')"
    and v: "curthread s' = curthread s" "ready L s' = ready L s @ [p]" "slp L s' = slp L s" "zmb L s' = zmb L s"
      "runqueue s' \<noteq> None" "sleepers s' \<noteq> None" "zombies s' \<noteq> None"
    and u: "threads s' = (threads s)(p \<mapsto> t)" "numthreads s' = numthreads s + 1"
    and r: "sint (numthreads s + 1) \<le> int (slp_room L s')" "sint (numthreads s + 1) \<le> int (zmb_room L s')"
      "sint (numthreads s + 1) \<le> int (run_room L s')"
    and c: "\<exists>cur. threads s (curthread s) = Some cur \<and> t_cwd t = t_cwd cur"
  shows "fork_promise L s 0 (Some p) s'"
proof -
  have "running s' = running s" using v by (simp add: running_def)
  then have "thread_inv L s'" by (rule fork_success_inv [OF inv n p _ v(2-7) u])
  moreover have pn: "p \<notin> dom (threads s)"
    using blocks_ok_self [of "k_owned L (kheap s)" "threads s" p] inv p(1,3) by (auto simp: thread_inv_def thread_blocks_def)
  moreover have "p \<notin> set (slp L s)" using inv pn by (auto simp: thread_inv_def live_def)
  then have "map (\<lambda>q. (q, sleepaddr_of (threads s') q)) (slp L s) = map (\<lambda>q. (q, sleepaddr_of (threads s) q)) (slp L s)"
    by (auto simp: u sleepaddr_of_def)
  then have "abs_of L s' = spec_fork p (abs_of L s)" by (simp add: abs_of_def spec_fork_def v)
  ultimately show ?thesis using v u r c by (simp add: fork_promise_def rooms_ok_def) blast
qed

lemma thread_fork_abs:
  assumes "thread_inv L s" and "curthread s \<noteq> NULL" and "spl_consts M" and "sint (numthreads s) < 2 ^ 31 - 1"
  shows "(\<exists>r ret s'. thread_fork L M name d1 d2 f s = Inr ((r, ret), s') \<and> fork_promise L s r ret s')
    \<or> numprocesses s = 0 \<and> thread_fork L M name d1 d2 f s = Inl (BadDeref ''full_process_table'')"
proof (cases rule: thread_fork_cases [OF assms(1-3), of name d1 d2 f, case_names nt nm enq])
  case nt
  then show ?thesis by blast
next
  case (nm h tb tabs)
  let ?s = "s\<lparr>kheap := h, full_process_table := tb, tables := tabs\<rparr>"
  have "thread_inv L ?s" using assms(1) blocks_ok_mono [OF _ nm(2)] by (auto simp: thread_inv_def view_defs)
  moreover have "abs_of L ?s = abs_of L s" "rooms_ok L ?s = rooms_ok L s"
    by (simp_all add: abs_of_def rooms_ok_def view_defs)
  ultimately have "fork_promise L s ENOMEM None ?s" using nm by (simp add: fork_promise_def)
  with nm show ?thesis by blast
next
  case (enq p t h tb tabs m s4)
  let ?s3 = "s\<lparr>full_process_table := tb, tables := tabs, kheap := h, kmem := m, threads := (threads s)(p \<mapsto> t)\<rparr>"
  obtain x where s4: "s4 = ?s3\<lparr>c0_status := x, curspl := SPL_HIGH M\<rparr>"
    using splx_shape enq(1) unfolding splhigh_def by blast
  have ok: "klib_laws L" "curspl s4 > 0" "runqueue s4 \<noteq> None" "sleepers s4 \<noteq> None" "zombies s4 \<noteq> None"
    using assms(1,3) by (simp_all add: s4 thread_inv_def spl_consts_def)
  have v: "ready L s4 = ready L s" "slp L s4 = slp L s" "zmb L s4 = zmb L s" "run_room L s4 = run_room L s"
      "slp_room L s4 = slp_room L s" by (simp_all add: s4 view_defs)
  obtain r a z q h5 where e: "fork_enqueue L p s4 = Inr (r, s4\<lparr>sleepers := Some a, zombies := Some z, runqueue := Some q,
        kheap := h5, numthreads := (if r = 0 then numthreads s4 + 1 else numthreads s4)\<rparr>)"
      "a_list L a = slp L s4" "a_list L z = zmb L s4" "q_list L q = (if r = 0 then ready L s4 @ [p] else ready L s4)"
      "slp_room L s4 \<le> a_room L a" "zmb_room L s4 \<le> a_room L z" "run_room L s4 \<le> q_room L q"
      "k_owned L h5 = k_owned L (kheap s4)"
      "r = 0 \<longrightarrow> sint (numthreads s4 + 1) \<le> int (a_room L a) \<and> sint (numthreads s4 + 1) \<le> int (a_room L z)
       \<and> sint (numthreads s4 + 1) \<le> int (q_room L q)"
    by (rule fork_enqueue_spec [OF ok, where p = p])
  let ?s5 = "s4\<lparr>sleepers := Some a, zombies := Some z, runqueue := Some q,
        kheap := h5, numthreads := (if r = 0 then numthreads s4 + 1 else numthreads s4)\<rparr>"
  obtain y where s6: "snd (splx M (curspl s) ?s5) = ?s5\<lparr>c0_status := y, curspl := curspl s\<rparr>" using splx_shape by blast
  let ?s6 = "?s5\<lparr>c0_status := y, curspl := curspl s\<rparr>"
  show ?thesis
  proof (cases "r = 0")
    case True
    have "fork_promise L s 0 (Some p) ?s6"
      by (rule fork_promise_success [where t = t]) (use assms enq(3-) e True v in \<open>simp_all add: s4 view_defs\<close>)
    moreover have "thread_fork L M name d1 d2 f s = Inr ((0, Some p), ?s6)"
      using enq(2) e(1) s6 True by (simp add: split_beta Let_def)
    ultimately show ?thesis by blast
  next
    case False
    have t6: "threads ?s6 p = Some t" "heap_laws L" using assms(1) by (simp_all add: s4 thread_inv_def klib_laws_def)
    obtain h7 where h7: "fork_fail L p ?s6 = Inr (?s6\<lparr>kheap := h7, threads := (threads ?s6)(p := None)\<rparr>)"
        "k_owned L h7 = k_owned L (kheap ?s6) - set (thread_blocks p t)"
      by (rule fork_fail_spec [OF t6(2,1) enq(3-6)])
    let ?s7 = "?s6\<lparr>kheap := h7, threads := (threads ?s6)(p := None)\<rparr>"
    have pn: "p \<notin> dom (threads s)"
      using blocks_ok_self [of "k_owned L (kheap s)" "threads s" p] assms(1) enq(3,8) by (auto simp: thread_inv_def thread_blocks_def)
    then have th: "threads ?s7 = threads s" by (auto simp: s4)
    have own: "k_owned L (kheap s) \<subseteq> k_owned L h7" "numprocesses s \<noteq> 0 \<longrightarrow> k_owned L h7 = k_owned L (kheap s)"
      using h7(2) e(8) enq(8-10) by (auto simp: s4)
    have lists: "live L ?s7 = live L s" "zmb L ?s7 = zmb L s" "ready L ?s7 = ready L s" "slp L ?s7 = slp L s"
      using e False v by (simp_all add: view_defs s4)
    have "thread_inv L ?s7"
      unfolding thread_inv_def lists th using assms(1) blocks_ok_mono [OF _ own(1)] False by (simp add: thread_inv_def s4)
    moreover have c7: "curthread ?s7 = curthread s" "numthreads ?s7 = numthreads s" "kheap ?s7 = h7"
      using False by (simp_all add: s4)
    moreover have "abs_of L ?s7 = abs_of L s" unfolding abs_of_def lists th c7 by (rule refl)
    moreover have "rooms_ok L s \<longrightarrow> rooms_ok L ?s7" using e v False by (auto simp: rooms_ok_def view_defs s4)
    ultimately have "fork_promise L s r None ?s7" using False own unfolding fork_promise_def th c7 by simp
    moreover have "thread_fork L M name d1 d2 f s = Inr ((r, None), ?s7)"
      using enq(2) e(1) s6 False h7(1) by (simp add: split_beta Let_def)
    ultimately show ?thesis by blast
  qed
qed

text \<open>
  C2. \<open>thread_fork\<close> refines the abstract fork. If it returns 0, a fresh thread that inherits the current
  directory is at the end of the ready list, the thread count has grown by one, and the run queue, the
  sleepers and the zombies have room for all threads. If it returns an error, the lists, the thread
  structures and the count are as before and (unless it also had to make a process table) the heap blocks
  too. The only way it can stop is running out of memory for that table, which the code does not check.
\<close>

theorem thread_fork_refines:
  assumes "thread_inv L s" and "curthread s \<noteq> NULL" and "spl_consts M" and "sint (numthreads s) < 2 ^ 31 - 1"
  shows "(\<exists>r ret s'. thread_fork L M name d1 d2 f s = Inr ((r, ret), s') \<and> fork_promise L s r ret s')
    \<or> numprocesses s = 0 \<and> thread_fork L M name d1 d2 f s = Inl (BadDeref ''full_process_table'')"
  by (rule thread_fork_abs [OF assms])

theorem thread_fork_refines_witness:
  "\<exists>r ret s'. thread_fork list_klib sys161 ''child'' 1 2 3 kern_example = Inr ((r, ret), s')
    \<and> fork_promise list_klib kern_example r ret s'"
  using thread_fork_refines [OF thread_inv_example _ spl_consts_sys161, of "''child''" 1 2 3] by simp

section \<open>Start-up\<close>

lemma thread_bootstrap_abs:
  assumes "klib_laws L" and "threads s = Map.empty"
    and "bnd (scheduler_bootstrap L s) (thread_bootstrap L M) = Inr (me, s')"
  shows "thread_inv L s' \<and> abs_of L s' = \<lparr>a_cur = Some me, a_ready = [], a_sleeping = [], a_zombies = []\<rparr>"
proof -
  have laws: "array_laws L" "queue_laws L" "heap_laws L" using assms(1) by (auto simp: klib_laws_def)
  obtain q h where q: "q_create L 32 (kheap s) = (q, h)" by fastforce
  obtain sl h1 where sl: "array_create L h = (sl, h1)" by fastforce
  obtain zo h2 where zo: "array_create L h1 = (zo, h2)" by fastforce
  let ?s = "s\<lparr>runqueue := q, kheap := h2, sleepers := sl, zombies := zo\<rparr>"
  obtain s1 t where s1: "thread_create L M ''<boot/menu>'' ?s = Inr (me, s1)" "me \<noteq> NULL" "threads s1 me = Some t"
      "s' = s1\<lparr>threads := (threads s1)(me \<mapsto> t\<lparr>t_pcb := md_initpcb0 s1\<rparr>), curthread := me, numthreads := 1\<rparr>"
      "q \<noteq> None" "sl \<noteq> None" "zo \<noteq> None"
    using assms(3) q sl zo
    by (auto simp: scheduler_bootstrap_def thread_bootstrap_def run_eq_Inr split: if_splits)
  have e: "\<And>x. q = Some x \<Longrightarrow> q_list L x = []" "\<And>x. sl = Some x \<Longrightarrow> a_list L x = []" "\<And>x. zo = Some x \<Longrightarrow> a_list L x = []"
    using q_create_spec(2) [OF laws(2) q] array_create_spec(2) [OF laws(1) sl] array_create_spec(2) [OF laws(1) zo] by auto
  show ?thesis
  proof (cases rule: thread_create_cases [OF laws(3), of M "''<boot/menu>''" ?s, case_names nm nt ok])
    case (ok p nm h3 tb tabs X)
    let ?t = "(new_thread nm)\<lparr>t_pcb := md_initpcb0 s1\<rparr>"
    have p: "p = me" "s1 = ?s\<lparr>kheap := h3, threads := [me \<mapsto> new_thread nm], full_process_table := tb, tables := tabs\<rparr>"
      "t = new_thread nm" using ok(1) s1 assms(2) by auto
    have s': "s' = s1\<lparr>threads := [me \<mapsto> ?t], curthread := me, numthreads := 1\<rparr>" using s1(4) p by simp
    have v: "ready L s' = []" "slp L s' = []" "zmb L s' = []" "live L s' = [me]"
      using e s1(2) by (auto simp: s' p view_defs split: option.splits)
    have "blocks_ok (k_owned L h3) [me \<mapsto> ?t]"
      using blocks_ok_add [of "k_owned L (kheap ?s)" Map.empty me ?t "k_owned L h3"] ok(2-6) p(1)
      by (auto simp: blocks_ok_def thread_blocks_def new_thread_def)
    then have "thread_inv L s'" unfolding thread_inv_def v using assms(1) s1(5-7) by (simp add: s' p)
    moreover have "abs_of L s' = \<lparr>a_cur = Some me, a_ready = [], a_sleeping = [], a_zombies = []\<rparr>"
      unfolding abs_of_def v using s1(2) by (simp add: s')
    ultimately show ?thesis by blast
  qed (use s1 in auto)
qed

text \<open>
  After \<open>scheduler_bootstrap\<close> and \<open>thread_bootstrap\<close>, in the order of \<^verbatim>\<open>main.c\<close>, the invariant holds: one
  thread, the caller, is running and every list is empty.
\<close>

theorem thread_bootstrap_ok:
  assumes "klib_laws L" and "threads s = Map.empty"
    and "bnd (scheduler_bootstrap L s) (thread_bootstrap L M) = Inr (me, s')"
  shows "thread_inv L s' \<and> abs_of L s' = \<lparr>a_cur = Some me, a_ready = [], a_sleeping = [], a_zombies = []\<rparr>"
  by (rule thread_bootstrap_abs [OF assms])

theorem thread_bootstrap_ok_witness:
  "\<exists>me s'. bnd (scheduler_bootstrap list_klib (kern_example\<lparr>threads := Map.empty\<rparr>)) (thread_bootstrap list_klib sys161) = Inr (me, s')
    \<and> thread_inv list_klib s' \<and> a_cur (abs_of list_klib s') = Some 0x600"
proof -
  obtain s' where s': "bnd (scheduler_bootstrap list_klib (kern_example\<lparr>threads := Map.empty\<rparr>)) (thread_bootstrap list_klib sys161)
      = Inr (0x600, s')"
    by (simp add: scheduler_bootstrap_def thread_bootstrap_def thread_create_def list_klib_def l_alloc_def)
  from thread_bootstrap_ok [OF klib_laws_list_klib _ this] s' show ?thesis by auto
qed

end
