(* ===== verification/Synch.thy ===== *)
theory Synch
  imports Thread_Fork
begin

text \<open>
  Synchronisation primitives, \<^verbatim>\<open>kern/thread/synch.c\<close> with \<^verbatim>\<open>synch.h\<close>, and the clock, \<^verbatim>\<open>hardclock.c\<close>:
  semaphores, locks, the (empty) condition variables, \<open>hardclock\<close> and \<open>clocksleep\<close>, on top of
  \<open>thread_sleep\<close> and \<open>thread_wakeup\<close>.
\<close>

section \<open>State\<close>

record semaphore =
  sem_name :: ptr
  sem_count :: s32

record lock =
  lock_name :: ptr
  holder :: ptr
  held :: s32

record cv =
  cv_name :: ptr

record ('q, 'a, 'h) sys = "('q, 'a, 'h) kern" +
  sems :: "ptr \<rightharpoonup> semaphore"
  locks :: "ptr \<rightharpoonup> lock"
  cvs :: "ptr \<rightharpoonup> cv"
  lbolt_counter :: s32

text \<open>
  A blocking operation is done, or its caller gave up the processor inside \<open>thread_sleep\<close> and repeats
  the test when it runs again.
\<close>

datatype 's progress = Done 's | Blocked "'s outcome"

type_synonym ('q, 'a, 'h, 'z) handler = "('q, 'a, 'h, 'z) sys_scheme \<Rightarrow> ('q, 'a, 'h, 'z) sys_scheme run"

section \<open>Semaphores\<close>

definition sem_create ::
  "('q, 'a, 'h) klib \<Rightarrow> string \<Rightarrow> s32 \<Rightarrow> ('q, 'a, 'h, 'z) sys_scheme \<Rightarrow> (ptr \<times> ('q, 'a, 'h, 'z) sys_scheme) run" where
  "sem_create L namearg initial_count s =
     kassert (sint initial_count \<ge> 0) ''initial_count >= 0'' (
     let (p, h1) = kmalloc L 8 (kheap s)
     in if p = NULL then Inr (NULL, s\<lparr>kheap := h1\<rparr>) else
     let (nm, h2) = kstrdup L namearg h1
     in if nm = NULL then Inr (NULL, s\<lparr>kheap := kfree L p h2\<rparr>)
        else Inr (p, s\<lparr>kheap := h2, sems := (sems s)(p \<mapsto> \<lparr>sem_name = nm, sem_count = initial_count\<rparr>)\<rparr>))"

definition sem_destroy ::
  "('q, 'a, 'h) klib \<Rightarrow> machine \<Rightarrow> ptr \<Rightarrow> ('q, 'a, 'h, 'z) sys_scheme \<Rightarrow> ('q, 'a, 'h, 'z) sys_scheme run" where
  "sem_destroy L M sem s =
     kassert (sem \<noteq> NULL) ''sem != NULL'' (
     let (spl, s1) = splhigh M s
     in bnd (thread_hassleepers L sem s1) (\<lambda>n.
        kassert (n = 0) ''thread_hassleepers(sem)==0'' (
        let (_, s2) = splx M spl s1
        in deref (sems s2) sem ''sem'' (\<lambda>m.
           Inr (s2\<lparr>kheap := kfree L sem (kfree L (sem_name m) (kheap s2)), sems := (sems s2)(sem := None)\<rparr>)))))"

text \<open>
  The loop of \<open>P\<close>. Each element of \<open>evss\<close> is what the idle loop of one \<open>thread_sleep\<close> sees; the loop goes
  round again in the same call only when that sleep returned at once.
\<close>

primrec P_loop ::
  "('q, 'a, 'h) klib \<Rightarrow> machine \<Rightarrow> int \<Rightarrow> ptr \<Rightarrow> ('q, 'a, 'h, 'z) handler list list \<Rightarrow> ('q, 'a, 'h, 'z) sys_scheme
     \<Rightarrow> ('q, 'a, 'h, 'z) sys_scheme progress run" where
  "P_loop L M spl sem [] s = Inl OutOfFuel"
| "P_loop L M spl sem (evs # evss) s =
     deref (sems s) sem ''sem'' (\<lambda>m.
     if sem_count m = 0 then
       bnd (thread_sleep L M evs sem s) (\<lambda>out. case out of
         Returned s1 \<Rightarrow> P_loop L M spl sem evss s1 | _ \<Rightarrow> Inr (Blocked out))
     else
       kassert (sint (sem_count m) > 0) ''sem->count>0'' (
       Inr (Done (snd (splx M spl (s\<lparr>sems := (sems s)(sem \<mapsto> m\<lparr>sem_count := sem_count m - 1\<rparr>)\<rparr>))))))"

definition P_sem ::
  "('q, 'a, 'h) klib \<Rightarrow> machine \<Rightarrow> ('q, 'a, 'h, 'z) handler list list \<Rightarrow> ptr \<Rightarrow> ('q, 'a, 'h, 'z) sys_scheme
     \<Rightarrow> ('q, 'a, 'h, 'z) sys_scheme progress run" where
  "P_sem L M evss sem s =
     kassert (sem \<noteq> NULL) ''sem != NULL'' (
     kassert (in_interrupt s = 0) ''in_interrupt==0'' (
     let (spl, s1) = splhigh M s in P_loop L M spl sem evss s1))"

text \<open>A thread that slept inside \<open>P\<close> runs again.\<close>

definition P_resume ::
  "('q, 'a, 'h) klib \<Rightarrow> machine \<Rightarrow> int \<Rightarrow> ('q, 'a, 'h, 'z) handler list list \<Rightarrow> ptr \<Rightarrow> ('q, 'a, 'h, 'z) sys_scheme
     \<Rightarrow> ('q, 'a, 'h, 'z) sys_scheme progress run" where
  "P_resume L M spl evss sem s = bnd (thread_sleep_resume L M s) (P_loop L M spl sem evss)"

definition V_sem ::
  "('q, 'a, 'h) klib \<Rightarrow> machine \<Rightarrow> ptr \<Rightarrow> ('q, 'a, 'h, 'z) sys_scheme \<Rightarrow> ('q, 'a, 'h, 'z) sys_scheme run" where
  "V_sem L M sem s =
     kassert (sem \<noteq> NULL) ''sem != NULL'' (
     let (spl, s1) = splhigh M s
     in deref (sems s1) sem ''sem'' (\<lambda>m.
        let c = sem_count m + 1
        in kassert (sint c > 0) ''sem->count>0'' (
           bnd (thread_wakeup L sem (s1\<lparr>sems := (sems s1)(sem \<mapsto> m\<lparr>sem_count := c\<rparr>)\<rparr>)) (\<lambda>s2.
           Inr (snd (splx M spl s2))))))"

section \<open>Locks\<close>

definition lock_create ::
  "('q, 'a, 'h) klib \<Rightarrow> string \<Rightarrow> ('q, 'a, 'h, 'z) sys_scheme \<Rightarrow> ptr \<times> ('q, 'a, 'h, 'z) sys_scheme" where
  "lock_create L name s =
     (let (p, h1) = kmalloc L 12 (kheap s)
      in if p = NULL then (NULL, s\<lparr>kheap := h1\<rparr>) else
      let (nm, h2) = kstrdup L name h1
      in if nm = NULL then (NULL, s\<lparr>kheap := kfree L p h2\<rparr>)
         else (p, s\<lparr>kheap := h2, locks := (locks s)(p \<mapsto> \<lparr>lock_name = nm, holder = NULL, held = 0\<rparr>)\<rparr>))"

definition lock_destroy ::
  "('q, 'a, 'h) klib \<Rightarrow> ptr \<Rightarrow> ('q, 'a, 'h, 'z) sys_scheme \<Rightarrow> ('q, 'a, 'h, 'z) sys_scheme run" where
  "lock_destroy L lk s =
     kassert (lk \<noteq> NULL) ''lock != NULL'' (
     deref (locks s) lk ''lock'' (\<lambda>l.
     kassert (held l = 0) ''lock->held == 0'' (
     Inr (s\<lparr>kheap := kfree L lk (kfree L (lock_name l) (kheap s)), locks := (locks s)(lk := None)\<rparr>))))"

primrec acquire_loop ::
  "('q, 'a, 'h) klib \<Rightarrow> machine \<Rightarrow> int \<Rightarrow> ptr \<Rightarrow> ('q, 'a, 'h, 'z) handler list list \<Rightarrow> ('q, 'a, 'h, 'z) sys_scheme
     \<Rightarrow> ('q, 'a, 'h, 'z) sys_scheme progress run" where
  "acquire_loop L M spl lk [] s = Inl OutOfFuel"
| "acquire_loop L M spl lk (evs # evss) s =
     deref (locks s) lk ''lock'' (\<lambda>l.
     if held l \<noteq> 0 then
       bnd (thread_sleep L M evs lk s) (\<lambda>out. case out of
         Returned s1 \<Rightarrow> acquire_loop L M spl lk evss s1 | _ \<Rightarrow> Inr (Blocked out))
     else
       Inr (Done (snd (splx M spl (s\<lparr>locks := (locks s)(lk \<mapsto> l\<lparr>held := 1, holder := curthread s\<rparr>)\<rparr>)))))"

definition lock_acquire ::
  "('q, 'a, 'h) klib \<Rightarrow> machine \<Rightarrow> ('q, 'a, 'h, 'z) handler list list \<Rightarrow> ptr \<Rightarrow> ('q, 'a, 'h, 'z) sys_scheme
     \<Rightarrow> ('q, 'a, 'h, 'z) sys_scheme progress run" where
  "lock_acquire L M evss lk s =
     kassert (lk \<noteq> NULL \<and> curthread s \<noteq> NULL) ''lock != NULL && curthread != NULL'' (
     let (spl, s1) = splhigh M s in acquire_loop L M spl lk evss s1)"

definition lock_acquire_resume ::
  "('q, 'a, 'h) klib \<Rightarrow> machine \<Rightarrow> int \<Rightarrow> ('q, 'a, 'h, 'z) handler list list \<Rightarrow> ptr \<Rightarrow> ('q, 'a, 'h, 'z) sys_scheme
     \<Rightarrow> ('q, 'a, 'h, 'z) sys_scheme progress run" where
  "lock_acquire_resume L M spl evss lk s = bnd (thread_sleep_resume L M s) (acquire_loop L M spl lk evss)"

definition lock_do_i_hold ::
  "machine \<Rightarrow> ptr \<Rightarrow> ('q, 'a, 'h, 'z) sys_scheme \<Rightarrow> (int \<times> ('q, 'a, 'h, 'z) sys_scheme) run" where
  "lock_do_i_hold M lk s =
     kassert (lk \<noteq> NULL \<and> curthread s \<noteq> NULL) ''lock != NULL && curthread != NULL'' (
     let (spl, s1) = splhigh M s
     in deref (locks s1) lk ''lock'' (\<lambda>l.
        let ans = (if holder l = curthread s1 \<and> held l = 1 then 1 else 0)
        in Inr (ans, snd (splx M spl s1))))"

definition lock_release ::
  "('q, 'a, 'h) klib \<Rightarrow> machine \<Rightarrow> ptr \<Rightarrow> ('q, 'a, 'h, 'z) sys_scheme \<Rightarrow> ('q, 'a, 'h, 'z) sys_scheme run" where
  "lock_release L M lk s =
     kassert (lk \<noteq> NULL \<and> curthread s \<noteq> NULL) ''lock != NULL && curthread != NULL'' (
     let (spl, s1) = splhigh M s
     in deref (locks s1) lk ''lock'' (\<lambda>l.
        bnd (if held l = 1 then lock_do_i_hold M lk s1 else Inr (0, s1)) (\<lambda>(mine, s2).
        bnd (if held l = 1 \<and> mine = 1
             then thread_wakeup L lk (s2\<lparr>locks := (locks s2)(lk \<mapsto> l\<lparr>held := 0\<rparr>)\<rparr>)
             else Inr s2) (\<lambda>s3.
        Inr (snd (splx M spl s3))))))"

section \<open>Condition variables\<close>

definition cv_create ::
  "('q, 'a, 'h) klib \<Rightarrow> string \<Rightarrow> ('q, 'a, 'h, 'z) sys_scheme \<Rightarrow> ptr \<times> ('q, 'a, 'h, 'z) sys_scheme" where
  "cv_create L name s =
     (let (p, h1) = kmalloc L 4 (kheap s)
      in if p = NULL then (NULL, s\<lparr>kheap := h1\<rparr>) else
      let (nm, h2) = kstrdup L name h1
      in if nm = NULL then (NULL, s\<lparr>kheap := kfree L p h2\<rparr>)
         else (p, s\<lparr>kheap := h2, cvs := (cvs s)(p \<mapsto> \<lparr>cv_name = nm\<rparr>)\<rparr>))"

definition cv_destroy ::
  "('q, 'a, 'h) klib \<Rightarrow> ptr \<Rightarrow> ('q, 'a, 'h, 'z) sys_scheme \<Rightarrow> ('q, 'a, 'h, 'z) sys_scheme run" where
  "cv_destroy L p s =
     kassert (p \<noteq> NULL) ''cv != NULL'' (
     deref (cvs s) p ''cv'' (\<lambda>c.
     Inr (s\<lparr>kheap := kfree L p (kfree L (cv_name c) (kheap s)), cvs := (cvs s)(p := None)\<rparr>)))"

definition cv_wait :: "ptr \<Rightarrow> ptr \<Rightarrow> ('q, 'a, 'h, 'z) sys_scheme \<Rightarrow> ('q, 'a, 'h, 'z) sys_scheme" where
  "cv_wait p lk s = s"

definition cv_signal :: "ptr \<Rightarrow> ptr \<Rightarrow> ('q, 'a, 'h, 'z) sys_scheme \<Rightarrow> ('q, 'a, 'h, 'z) sys_scheme" where
  "cv_signal p lk s = s"

definition cv_broadcast :: "ptr \<Rightarrow> ptr \<Rightarrow> ('q, 'a, 'h, 'z) sys_scheme \<Rightarrow> ('q, 'a, 'h, 'z) sys_scheme" where
  "cv_broadcast p lk s = s"

section \<open>The clock\<close>

text \<open>\<open>HZ\<close> is a constant of \<^verbatim>\<open>clock.h\<close>, \<open>lbolt\<close> the address of the variable of that name.\<close>

definition hardclock ::
  "('q, 'a, 'h) klib \<Rightarrow> machine \<Rightarrow> int \<Rightarrow> ptr \<Rightarrow> ('q, 'a, 'h, 'z) handler list \<Rightarrow> ('q, 'a, 'h, 'z) sys_scheme
     \<Rightarrow> ('q, 'a, 'h, 'z) sys_scheme outcome run" where
  "hardclock L M HZ lbolt evs s =
     (let c = lbolt_counter s + 1
      in bnd (if sint c \<ge> HZ then thread_wakeup L lbolt (s\<lparr>lbolt_counter := 0\<rparr>) else Inr (s\<lparr>lbolt_counter := c\<rparr>))
           (thread_yield L M evs))"

text \<open>The loop of \<open>clocksleep\<close> with \<open>n\<close> seconds left; a blocked caller resumes with one second less.\<close>

fun clocksleep_loop ::
  "('q, 'a, 'h) klib \<Rightarrow> machine \<Rightarrow> ptr \<Rightarrow> int \<Rightarrow> ('q, 'a, 'h, 'z) handler list list \<Rightarrow> nat \<Rightarrow> ('q, 'a, 'h, 'z) sys_scheme
     \<Rightarrow> ('q, 'a, 'h, 'z) sys_scheme progress run" where
  "clocksleep_loop L M lbolt spl evss 0 s = Inr (Done (snd (splx M spl s)))"
| "clocksleep_loop L M lbolt spl [] (Suc n) s = Inl OutOfFuel"
| "clocksleep_loop L M lbolt spl (evs # evss) (Suc n) s =
     bnd (thread_sleep L M evs lbolt s) (\<lambda>out. case out of
       Returned s1 \<Rightarrow> clocksleep_loop L M lbolt spl evss n s1 | _ \<Rightarrow> Inr (Blocked out))"

definition clocksleep ::
  "('q, 'a, 'h) klib \<Rightarrow> machine \<Rightarrow> ptr \<Rightarrow> ('q, 'a, 'h, 'z) handler list list \<Rightarrow> s32 \<Rightarrow> ('q, 'a, 'h, 'z) sys_scheme
     \<Rightarrow> ('q, 'a, 'h, 'z) sys_scheme progress run" where
  "clocksleep L M lbolt evss num_secs s =
     (let (spl, s1) = splhigh M s in clocksleep_loop L M lbolt spl evss (nat (sint num_secs)) s1)"

definition clocksleep_resume ::
  "('q, 'a, 'h) klib \<Rightarrow> machine \<Rightarrow> ptr \<Rightarrow> int \<Rightarrow> ('q, 'a, 'h, 'z) handler list list \<Rightarrow> nat \<Rightarrow> ('q, 'a, 'h, 'z) sys_scheme
     \<Rightarrow> ('q, 'a, 'h, 'z) sys_scheme progress run" where
  "clocksleep_resume L M lbolt spl evss n s = bnd (thread_sleep_resume L M s) (clocksleep_loop L M lbolt spl evss n)"

end
