(* ===== verification/Synch_Spec.thy ===== *)
theory Synch_Spec
  imports Synch
begin

text \<open>
  What semaphores and locks promise: the exact effect of each operation, that wake-ups are never lost,
  and that at most one thread is between \<open>lock_acquire\<close> and \<open>lock_release\<close>.
\<close>

section \<open>The thread system does not touch its clients\<close>

text \<open>The state of the clients is the extension \<open>kern.more\<close> of the thread system's record.\<close>

lemma more_splx [simp]: "kern.more (snd (splx M n s)) = kern.more s" "kern.more (snd (splhigh M s)) = kern.more s"
  using splx_shape [of M n s] splx_shape [of M "SPL_HIGH M" s] by (auto simp: splhigh_def)

lemma more_as_activate [simp]: "kern.more (as_activate M p s) = kern.more s"
  using as_activate_shape [of M p s] by auto

lemma more_make_runnable: "make_runnable L t s = Inr (r, s') \<Longrightarrow> kern.more s' = kern.more s"
  by (auto simp: make_runnable_def run_eq_Inr split_beta Let_def)

lemma more_park: "park L st cur s = Inr s' \<Longrightarrow> kern.more s' = kern.more s"
  by (auto simp: park_def run_eq_Inr split_beta Let_def split: if_splits dest!: more_make_runnable)

lemma more_thread_destroy: "thread_destroy L p s = Inr s' \<Longrightarrow> kern.more s' = kern.more s"
  by (auto simp: thread_destroy_def run_eq_Inr Let_def)

lemma more_exorcise_loop: "exorcise_loop L zs is s = Inr s' \<Longrightarrow> kern.more s' = kern.more s"
  by (induction "is" arbitrary: s) (auto simp: run_eq_Inr Let_def dest: more_thread_destroy)

lemma more_exorcise: "exorcise L s = Inr s' \<Longrightarrow> kern.more s' = kern.more s"
  by (auto simp: exorcise_def run_eq_Inr split_beta Let_def dest!: more_exorcise_loop)

lemma more_resume: "mi_switch_resume L M s = Inr s' \<Longrightarrow> kern.more s' = kern.more s"
  by (auto simp: mi_switch_resume_def run_eq_Inr dest!: more_exorcise split: if_splits)

lemma more_md_switch: "md_switch M old nu s = Inr (b, s') \<Longrightarrow> kern.more s' = kern.more s"
  by (auto simp: md_switch_def run_eq_Inr mips_switch_def Let_def split: if_splits)

lemma more_scheduler: "scheduler L M [] s = Inr pk \<Longrightarrow> (case pk of StillIdle s' \<Rightarrow> s' = s | Picked t s' \<Rightarrow> kern.more s' = kern.more s)"
  by (auto simp: scheduler_def run_eq_Inr take_head_def split: if_splits option.splits)

lemma more_pick:
  assumes "mi_switch_pick L M [] cur s = Inr out"
  shows "kern.more (out_state out) = kern.more s"
proof -
  obtain pk where pk: "scheduler L M [] s = Inr pk" using assms by (auto simp: mi_switch_pick_def run_eq_Inr)
  note more_scheduler [OF this]
  with assms pk show ?thesis
    by (cases pk) (auto simp: mi_switch_pick_def run_eq_Inr out_state_def split: if_splits
        dest!: more_md_switch more_resume)
qed

lemma more_mi_switch: "mi_switch L M [] st s = Inr out \<Longrightarrow> kern.more (out_state out) = kern.more s"
  by (auto simp: mi_switch_def check_magic_def run_eq_Inr Let_def split: if_splits dest!: more_pick more_park)
     (simp add: out_state_def)

lemma more_clear: "clear_sleepaddr s = Inr s' \<Longrightarrow> kern.more s' = kern.more s"
  by (auto simp: clear_sleepaddr_def run_eq_Inr)

lemma more_on_return:
  assumes "on_return clear_sleepaddr out = Inr out'"
  shows "kern.more (out_state out') = kern.more (out_state out)"
  using assms by (cases out) (auto simp: on_return_def run_eq_Inr out_state_def dest!: more_clear)

lemma more_thread_sleep: "thread_sleep L M [] addr s = Inr out \<Longrightarrow> kern.more (out_state out) = kern.more s"
  by (auto simp: thread_sleep_def run_eq_Inr dest!: more_mi_switch more_on_return)

lemma more_sleep_resume: "thread_sleep_resume L M s = Inr s' \<Longrightarrow> kern.more s' = kern.more s"
  by (auto simp: thread_sleep_resume_def run_eq_Inr dest!: more_resume more_clear)

lemma more_sys:
  assumes "kern.more s' = kern.more s"
  shows "sems s' = sems s" "locks s' = locks s" "cvs s' = cvs s" "lbolt_counter s' = lbolt_counter s"
  using assms by (cases s, cases s', simp)+

lemma sys_splx [simp]:
  "sems (snd (splx M n s)) = sems s" "sems (snd (splhigh M s)) = sems s"
  "locks (snd (splx M n s)) = locks s" "locks (snd (splhigh M s)) = locks s"
  using more_sys [OF more_splx(1)] more_sys [OF more_splx(2)] by blast+

lemma frame_sys [simp]:
  "thread_inv L (s\<lparr>sems := x\<rparr>) = thread_inv L s" "rooms_ok L (s\<lparr>sems := x\<rparr>) = rooms_ok L s"
  "abs_of L (s\<lparr>sems := x\<rparr>) = abs_of L s" "stack_intact (s\<lparr>sems := x\<rparr>) = stack_intact s"
  "thread_inv L (s\<lparr>locks := y\<rparr>) = thread_inv L s" "rooms_ok L (s\<lparr>locks := y\<rparr>) = rooms_ok L s"
  "abs_of L (s\<lparr>locks := y\<rparr>) = abs_of L s" "stack_intact (s\<lparr>locks := y\<rparr>) = stack_intact s"
  "thread_inv L (s\<lparr>lbolt_counter := z\<rparr>) = thread_inv L s" "rooms_ok L (s\<lparr>lbolt_counter := z\<rparr>) = rooms_ok L s"
  "abs_of L (s\<lparr>lbolt_counter := z\<rparr>) = abs_of L s" "stack_intact (s\<lparr>lbolt_counter := z\<rparr>) = stack_intact s"
  by (simp_all add: thread_inv_def rooms_ok_def abs_of_def stack_intact_def view_defs cong: option.case_cong)

lemma can_switch_sys [simp]:
  "can_switch L (s\<lparr>sems := x\<rparr>) = can_switch L s" "can_switch L (s\<lparr>locks := y\<rparr>) = can_switch L s"
  "can_switch L (s\<lparr>lbolt_counter := z\<rparr>) = can_switch L s"
  by (simp_all add: can_switch_def)

section \<open>The interface of sleep and wake-up\<close>

text \<open>
  What the primitives rely on: a wake-up moves every sleeper on the address to the ready list. From
  this law alone follows that a wake-up is never lost: afterwards nobody sleeps on the address.
\<close>

definition waiters :: "ptr \<Rightarrow> tsys \<Rightarrow> ptr list" where
  "waiters addr a = map fst (filter (\<lambda>x. snd x = addr) (a_sleeping a))"

locale wakeup_queue =
  fixes inv :: "'s \<Rightarrow> bool"
    and view :: "'s \<Rightarrow> tsys"
    and wake :: "ptr \<Rightarrow> 's \<Rightarrow> 's run"
  assumes wake_all: "inv s \<Longrightarrow> \<exists>s'. wake addr s = Inr s' \<and> inv s' \<and> view s' = spec_wakeup addr (view s)"
begin

lemma wake_none_left:
  assumes "inv s"
  shows "\<exists>s'. wake addr s = Inr s' \<and> inv s' \<and> waiters addr (view s') = []
    \<and> a_ready (view s') = a_ready (view s) @ waiters addr (view s)
    \<and> (\<forall>b. b \<noteq> addr \<longrightarrow> waiters b (view s') = waiters b (view s))"
  using wake_all [OF assms, of addr]
  by (auto simp: spec_wakeup_def waiters_def filter_empty_conv) (rule arg_cong [where f = "map fst"], rule filter_cong, auto)

lemma wake_twice:
  assumes "inv s" and "wake addr s = Inr s1"
  shows "\<exists>s2. wake addr s1 = Inr s2 \<and> view s2 = view s1"
proof -
  have s1: "inv s1" "view s1 = spec_wakeup addr (view s)" using wake_all [OF assms(1), of addr] assms(2) by auto
  have "spec_wakeup addr (spec_wakeup addr (view s)) = spec_wakeup addr (view s)"
    by (simp add: spec_wakeup_def)
  with s1 wake_all [OF s1(1), of addr] show ?thesis by auto
qed

end

interpretation wq: wakeup_queue "\<lambda>s. thread_inv L s \<and> rooms_ok L s \<and> curspl s > 0" "abs_of L" "thread_wakeup L" for L
  by unfold_locales (use thread_wakeup_abs in fastforce)

section \<open>A concrete state\<close>

text \<open>
  The thread system of \<open>kern_example\<close> with two semaphores (\<open>0x40\<close> with a waiter and count 0, \<open>0x48\<close> with
  count 2) and two locks (\<open>0x44\<close>, held by the running thread, with a waiter; \<open>0x4c\<close>, free).
\<close>

definition sys_example :: "(lseq, lseq, lheap) sys" where
  "sys_example = kern.extend kern_example
     \<lparr>sems = [0x40 \<mapsto> \<lparr>sem_name = 0x990, sem_count = 0\<rparr>, 0x48 \<mapsto> \<lparr>sem_name = 0x994, sem_count = 2\<rparr>],
      locks = [0x44 \<mapsto> \<lparr>lock_name = 0x998, holder = 0x100, held = 1\<rparr>, 0x4c \<mapsto> \<lparr>lock_name = 0x99c, holder = 0, held = 0\<rparr>],
      cvs = Map.empty, lbolt_counter = 0\<rparr>"

lemma kern_extend_fields [simp]:
  "curthread (kern.extend s m) = curthread s" "sleepers (kern.extend s m) = sleepers s"
  "zombies (kern.extend s m) = zombies s" "numthreads (kern.extend s m) = numthreads s"
  "threads (kern.extend s m) = threads s" "runqueue (kern.extend s m) = runqueue s" "kheap (kern.extend s m) = kheap s"
  "kmem (kern.extend s m) = kmem s" "curspl (kern.extend s m) = curspl s" "in_interrupt (kern.extend s m) = in_interrupt s"
  by (simp_all add: kern.extend_def)

lemma kern_extend_inv [simp]:
  "thread_inv L (kern.extend s m) = thread_inv L s" "rooms_ok L (kern.extend s m) = rooms_ok L s"
  "abs_of L (kern.extend s m) = abs_of L s" "stack_intact (kern.extend s m) = stack_intact s"
  by (simp_all add: thread_inv_def rooms_ok_def abs_of_def stack_intact_def view_defs cong: option.case_cong)

lemma sys_example_simps [simp]:
  "sems sys_example = [0x40 \<mapsto> \<lparr>sem_name = 0x990, sem_count = 0\<rparr>, 0x48 \<mapsto> \<lparr>sem_name = 0x994, sem_count = 2\<rparr>]"
  "locks sys_example = [0x44 \<mapsto> \<lparr>lock_name = 0x998, holder = 0x100, held = 1\<rparr>, 0x4c \<mapsto> \<lparr>lock_name = 0x99c, holder = 0, held = 0\<rparr>]"
  "curthread sys_example = 0x100" "curspl sys_example = 15" "in_interrupt sys_example = 0" "lbolt_counter sys_example = 0"
  by (simp_all add: sys_example_def) (simp_all add: kern.extend_def)

lemma sys_example_inv:
  "thread_inv list_klib sys_example" "rooms_ok list_klib sys_example" "can_switch list_klib sys_example"
  using thread_inv_example rooms_ok_example can_switch_example
  by (simp_all add: can_switch_def sys_example_def)

lemma abs_of_sys_example: "abs_of list_klib sys_example = abs_of list_klib kern_example"
  by (simp add: sys_example_def)

section \<open>Semaphores\<close>

lemma V_sem_wakes:
  assumes "thread_inv L s" and "rooms_ok L s" and "spl_consts M" and "sem \<noteq> NULL" and m: "sems s sem = Some m"
    and "sint (sem_count m + 1) > 0"
  shows "\<exists>s'. V_sem L M sem s = Inr s' \<and> sems s' = (sems s)(sem \<mapsto> m\<lparr>sem_count := sem_count m + 1\<rparr>)
    \<and> abs_of L s' = spec_wakeup sem (abs_of L s) \<and> thread_inv L s' \<and> rooms_ok L s' \<and> curspl s' = curspl s
    \<and> locks s' = locks s"
proof -
  let ?s1 = "(snd (splhigh M s))\<lparr>sems := (sems s)(sem \<mapsto> m\<lparr>sem_count := sem_count m + 1\<rparr>)\<rparr>"
  have "thread_inv L ?s1" "rooms_ok L ?s1" "curspl ?s1 > 0" using assms by (simp_all add: spl_consts_def)
  then obtain s2 where s2: "thread_wakeup L sem ?s1 = Inr s2" "abs_of L s2 = spec_wakeup sem (abs_of L ?s1)"
      "thread_inv L s2" "rooms_ok L s2" "kern.more s2 = kern.more ?s1"
    using thread_wakeup_abs [of L ?s1 sem] by blast
  have "V_sem L M sem s = Inr (snd (splx M (curspl s) s2))"
    using assms s2(1) by (simp add: V_sem_def split_beta Let_def)
  with s2 more_sys [OF s2(5)] show ?thesis by simp
qed

text \<open>
  C15. \<open>V\<close> increments the count by exactly one, leaves the other semaphores and all locks alone, and loses no wake-up: every thread that
  was sleeping on the semaphore becomes ready, in order and behind those that were ready, the sleepers on other addresses stay as they
  are, and so do the running thread, the zombies and the interrupt level.
\<close>

theorem V_sem_no_lost_wakeup:
  assumes "thread_inv L s" and "rooms_ok L s" and "spl_consts M" and "sem \<noteq> NULL" and "sems s sem = Some m"
    and "0 \<le> sint (sem_count m)" and "sint (sem_count m) < 2 ^ 31 - 1"
  shows "\<exists>s' c. V_sem L M sem s = Inr s' \<and> sems s' = (sems s)(sem \<mapsto> m\<lparr>sem_count := c\<rparr>) \<and> sint c = sint (sem_count m) + 1
    \<and> locks s' = locks s \<and> curspl s' = curspl s \<and> thread_inv L s'
    \<and> abs_of L s' = \<lparr>a_cur = a_cur (abs_of L s), a_ready = a_ready (abs_of L s) @ waiters sem (abs_of L s),
         a_sleeping = filter (\<lambda>x. snd x \<noteq> sem) (a_sleeping (abs_of L s)), a_zombies = a_zombies (abs_of L s)\<rparr>"
proof -
  have c: "sint (sem_count m + 1) = sint (sem_count m) + 1" using assms(7) by (rule sint_plus_one)
  then obtain s' where "V_sem L M sem s = Inr s'" "sems s' = (sems s)(sem \<mapsto> m\<lparr>sem_count := sem_count m + 1\<rparr>)"
      "abs_of L s' = spec_wakeup sem (abs_of L s)" "curspl s' = curspl s" "locks s' = locks s" "thread_inv L s'"
    using V_sem_wakes [OF assms(1-5)] assms(6) by auto
  with c show ?thesis by (auto simp: waiters_def spec_wakeup_def)
qed

theorem V_sem_no_lost_wakeup_witness:
  "\<exists>s'. V_sem list_klib sys161 0x40 sys_example = Inr s' \<and> (\<exists>m'. sems s' 0x40 = Some m' \<and> sint (sem_count m') = 1)
    \<and> a_sleeping (abs_of list_klib s') = [(0x500, 0x44)] \<and> a_ready (abs_of list_klib s') = [0x200, 0x300]"
  using V_sem_no_lost_wakeup [OF sys_example_inv(1,2) spl_consts_sys161, of "0x40"]
  by (auto simp: abs_of_sys_example abs_of_example waiters_def)

text \<open>
  The count of a semaphore cannot silently wrap: at the largest 32-bit count, \<open>V\<close> stops at its
  assertion instead of continuing with a negative count.
\<close>

theorem V_sem_overflow_caught:
  assumes "sem \<noteq> NULL" and "sems s sem = Some m" and "sint (sem_count m) = 2 ^ 31 - 1"
  shows "V_sem L M sem s = Inl (AssertFail ''sem->count>0'')"
proof -
  have "(word_of_int (sint (sem_count m)) :: s32) = sem_count m" by simp
  then have "sem_count m + 1 = 0x80000000" unfolding assms(3) [simplified] by (simp add: eq_commute [of _ "sem_count m"])
  then have "\<not> sint (sem_count m + 1) > 0" by simp
  with assms(1,2) show ?thesis by (simp add: V_sem_def split_beta Let_def kassert_def)
qed

theorem V_sem_overflow_caught_witness:
  "V_sem list_klib sys161 0x40 (sys_example\<lparr>sems := [0x40 \<mapsto> \<lparr>sem_name = 0x990, sem_count = 0x7fffffff\<rparr>]\<rparr>)
     = Inl (AssertFail ''sem->count>0'')"
  by (rule V_sem_overflow_caught [where m = "\<lparr>sem_name = 0x990, sem_count = 0x7fffffff\<rparr>"]) simp_all

lemma P_sem_first:
  assumes "sem \<noteq> NULL" and "in_interrupt s = 0" and "sems s sem = Some m"
  shows "P_sem L M ([] # evss) sem s =
    (if sem_count m = 0 then bnd (thread_sleep L M [] sem (snd (splhigh M s))) (\<lambda>out. case out of
         Returned s1 \<Rightarrow> P_loop L M (curspl s) sem evss s1 | _ \<Rightarrow> Inr (Blocked out))
     else kassert (sint (sem_count m) > 0) ''sem->count>0'' (
       Inr (Done (snd (splx M (curspl s) ((snd (splhigh M s))\<lparr>sems := (sems s)(sem \<mapsto> m\<lparr>sem_count := sem_count m - 1\<rparr>)\<rparr>))))))"
  unfolding P_sem_def split_beta Let_def fst_splhigh using assms by simp

lemma splx_sems [simp]:
  "snd (splx M n (s\<lparr>sems := x\<rparr>)) = (snd (splx M n s))\<lparr>sems := x\<rparr>"
  by (simp add: splx_def Let_def interrupts_on_def interrupts_off_def)

text \<open>
  C16. \<open>P\<close> on a positive count takes one unit and returns at once, and nothing else in the state changes (the interrupts agreeing with the level, as everywhere outside \<open>splx\<close>); on a zero count it
  takes nothing: the caller goes to sleep on the semaphore (behind those already there) and another thread
  or nobody runs. No assertion fails.
\<close>

theorem P_sem_takes_or_waits:
  assumes "can_switch L s" and "spl_consts M" and "spl_ok M s" and "in_interrupt s = 0" and "sem \<noteq> NULL" and "sems s sem = Some m"
    and "0 \<le> sint (sem_count m)"
  shows "(0 < sint (sem_count m) \<longrightarrow> (\<exists>c. sint c = sint (sem_count m) - 1
          \<and> P_sem L M ([] # evss) sem s = Inr (Done (s\<lparr>sems := (sems s)(sem \<mapsto> m\<lparr>sem_count := c\<rparr>)\<rparr>))))
    \<and> (sem_count m = 0 \<longrightarrow> (\<exists>out. P_sem L M ([] # evss) sem s = Inr (Blocked out)
          \<and> sems (out_state out) = sems s \<and> locks (out_state out) = locks s
          \<and> abs_of L (out_state out) = spec_sleep (curthread s) sem (abs_of L s) \<and> outcome_inv L out))"
proof (intro conjI impI)
  assume c: "0 < sint (sem_count m)"
  then have "sem_count m \<noteq> 0" by auto
  with c P_sem_first [OF assms(5,4,6), of L M evss] sint_pos_iff_count [OF c] splhigh_splx_state [OF assms(2,3)]
  show "\<exists>c. sint c = sint (sem_count m) - 1
      \<and> P_sem L M ([] # evss) sem s = Inr (Done (s\<lparr>sems := (sems s)(sem \<mapsto> m\<lparr>sem_count := c\<rparr>)\<rparr>))"
    by (intro exI [of _ "sem_count m - 1"]) simp
next
  assume c: "sem_count m = 0"
  let ?s = "snd (splhigh M s)"
  have "can_switch L ?s" "curspl ?s > 0" "in_interrupt ?s = 0" using assms by (simp_all add: spl_consts_def)
  then obtain out where o: "thread_sleep L M [] sem ?s = Inr out" "\<not> is_returned out" "outcome_inv L out"
      "abs_of L (out_state out) = spec_sleep (curthread ?s) sem (abs_of L ?s)"
    using thread_sleep_abs by metis
  have "P_sem L M ([] # evss) sem s = Inr (Blocked out)"
    using P_sem_first [OF assms(5,4,6), of L M evss] c o(1,2) by (cases out) (simp_all add: is_returned_def)
  with o more_sys(1,2) [OF more_thread_sleep [OF o(1)]]
  show "\<exists>out. P_sem L M ([] # evss) sem s = Inr (Blocked out)
          \<and> sems (out_state out) = sems s \<and> locks (out_state out) = locks s
          \<and> abs_of L (out_state out) = spec_sleep (curthread s) sem (abs_of L s) \<and> outcome_inv L out" by auto
qed

lemma spl_ok_sys_example: "spl_ok sys161 sys_example"
  by (simp add: spl_ok_def irqs_enabled_def sys_example_def kern_example_def md_example_def sched_example_def
      kern.extend_def md.extend_def sched.extend_def sys161_def)

theorem P_sem_takes_or_waits_witness:
  "P_sem list_klib sys161 [[]] 0x48 sys_example
     = Inr (Done (sys_example\<lparr>sems := (sems sys_example)(0x48 \<mapsto> \<lparr>sem_name = 0x994, sem_count = 1\<rparr>)\<rparr>))
   \<and> (\<exists>out. P_sem list_klib sys161 [[]] 0x40 sys_example = Inr (Blocked out)
        \<and> a_sleeping (abs_of list_klib (out_state out)) = [(0x300, 0x40), (0x500, 0x44), (0x100, 0x40)])"
proof (intro conjI)
  have one: "c = 1" if "sint c = 1" for c :: s32
  proof -
    have "c = word_of_int (sint c)" by simp
    then show ?thesis unfolding that by simp
  qed
  show "P_sem list_klib sys161 [[]] 0x48 sys_example
      = Inr (Done (sys_example\<lparr>sems := (sems sys_example)(0x48 \<mapsto> \<lparr>sem_name = 0x994, sem_count = 1\<rparr>)\<rparr>))"
    using P_sem_takes_or_waits [OF sys_example_inv(3) spl_consts_sys161 spl_ok_sys_example, of "0x48" _ "[]"] by (auto dest!: one)
  show "\<exists>out. P_sem list_klib sys161 [[]] 0x40 sys_example = Inr (Blocked out)
      \<and> a_sleeping (abs_of list_klib (out_state out)) = [(0x300, 0x40), (0x500, 0x44), (0x100, 0x40)]"
    using P_sem_takes_or_waits [OF sys_example_inv(3) spl_consts_sys161 spl_ok_sys_example, of "0x40" _ "[]"]
    by (auto simp: abs_of_sys_example abs_of_example spec_sleep_def spec_pick_def)
qed

section \<open>Locks\<close>

lemma acquire_first:
  assumes "lk \<noteq> NULL" and "curthread s \<noteq> NULL" and "locks s lk = Some l"
  shows "lock_acquire L M ([] # evss) lk s =
    (if held l \<noteq> 0 then bnd (thread_sleep L M [] lk (snd (splhigh M s))) (\<lambda>out. case out of
         Returned s1 \<Rightarrow> acquire_loop L M (curspl s) lk evss s1 | _ \<Rightarrow> Inr (Blocked out))
     else Inr (Done (snd (splx M (curspl s) ((snd (splhigh M s))\<lparr>locks := (locks s)(lk \<mapsto> l\<lparr>held := 1, holder := curthread s\<rparr>)\<rparr>)))))"
  unfolding lock_acquire_def split_beta Let_def fst_splhigh using assms by simp

lemma lock_acquire_spec:
  assumes "can_switch L s" and "spl_consts M" and "in_interrupt s = 0" and "lk \<noteq> NULL" and "locks s lk = Some l"
  shows "(held l = 0 \<longrightarrow> (\<exists>s'. lock_acquire L M ([] # evss) lk s = Inr (Done s')
          \<and> locks s' = (locks s)(lk \<mapsto> l\<lparr>held := 1, holder := curthread s\<rparr>)
          \<and> abs_of L s' = abs_of L s \<and> curspl s' = curspl s \<and> thread_inv L s'))
    \<and> (held l \<noteq> 0 \<longrightarrow> (\<exists>out. lock_acquire L M ([] # evss) lk s = Inr (Blocked out) \<and> locks (out_state out) = locks s
          \<and> abs_of L (out_state out) = spec_sleep (curthread s) lk (abs_of L s) \<and> outcome_inv L out))"
proof (intro conjI impI)
  note f = acquire_first [OF assms(4) can_switchD(3) [OF assms(1)] assms(5), of L M evss]
  {
    assume "held l = 0"
    with f can_switchD(1) [OF assms(1)]
    show "\<exists>s'. lock_acquire L M ([] # evss) lk s = Inr (Done s')
        \<and> locks s' = (locks s)(lk \<mapsto> l\<lparr>held := 1, holder := curthread s\<rparr>)
        \<and> abs_of L s' = abs_of L s \<and> curspl s' = curspl s \<and> thread_inv L s'" by simp
  next
    assume h: "held l \<noteq> 0"
    let ?s = "snd (splhigh M s)"
    have "can_switch L ?s" "curspl ?s > 0" "in_interrupt ?s = 0" using assms by (simp_all add: spl_consts_def)
    then obtain out where o: "thread_sleep L M [] lk ?s = Inr out" "\<not> is_returned out" "outcome_inv L out"
        "abs_of L (out_state out) = spec_sleep (curthread ?s) lk (abs_of L ?s)"
      using thread_sleep_abs by metis
    have "lock_acquire L M ([] # evss) lk s = Inr (Blocked out)"
      using f h o(1,2) by (cases out) (simp_all add: is_returned_def)
    with o more_sys(2) [OF more_thread_sleep [OF o(1)]]
    show "\<exists>out. lock_acquire L M ([] # evss) lk s = Inr (Blocked out) \<and> locks (out_state out) = locks s
          \<and> abs_of L (out_state out) = spec_sleep (curthread s) lk (abs_of L s) \<and> outcome_inv L out" by auto
  }
qed

text \<open>
  \<open>lock_acquire\<close> on a free lock makes the caller its holder and returns; on a lock that is held, even
  by the caller itself, it changes no lock and the caller sleeps on the lock.
\<close>

theorem lock_acquire_takes_or_waits:
  assumes "can_switch L s" and "spl_consts M" and "in_interrupt s = 0" and "lk \<noteq> NULL" and "locks s lk = Some l"
  shows "(held l = 0 \<longrightarrow> (\<exists>s'. lock_acquire L M ([] # evss) lk s = Inr (Done s')
          \<and> locks s' = (locks s)(lk \<mapsto> l\<lparr>held := 1, holder := curthread s\<rparr>)
          \<and> abs_of L s' = abs_of L s \<and> curspl s' = curspl s \<and> thread_inv L s'))
    \<and> (held l \<noteq> 0 \<longrightarrow> (\<exists>out. lock_acquire L M ([] # evss) lk s = Inr (Blocked out) \<and> locks (out_state out) = locks s
          \<and> abs_of L (out_state out) = spec_sleep (curthread s) lk (abs_of L s) \<and> outcome_inv L out))"
  using lock_acquire_spec [OF assms] .

theorem lock_acquire_takes_or_waits_witness:
  "(\<exists>s'. lock_acquire list_klib sys161 [[]] 0x4c sys_example = Inr (Done s')
       \<and> locks s' 0x4c = Some \<lparr>lock_name = 0x99c, holder = 0x100, held = 1\<rparr>)
   \<and> (\<exists>out. lock_acquire list_klib sys161 [[]] 0x44 sys_example = Inr (Blocked out)
        \<and> a_sleeping (abs_of list_klib (out_state out)) = [(0x300, 0x40), (0x500, 0x44), (0x100, 0x44)])"
  using lock_acquire_takes_or_waits [OF sys_example_inv(3) spl_consts_sys161, of "0x4c" _ "[]"]
    lock_acquire_takes_or_waits [OF sys_example_inv(3) spl_consts_sys161, of "0x44" _ "[]"]
  by (auto simp: abs_of_sys_example abs_of_example spec_sleep_def spec_pick_def)

lemma release_cases:
  assumes "lk \<noteq> NULL" and "curthread s \<noteq> NULL" and l: "locks s lk = Some l"
  shows "lock_release L M lk s =
    (let s1 = snd (splhigh M s);
         s2 = (if held l = 1 then snd (splx M (SPL_HIGH M) (snd (splhigh M s1))) else s1)
     in bnd (if held l = 1 \<and> holder l = curthread s then thread_wakeup L lk (s2\<lparr>locks := (locks s)(lk \<mapsto> l\<lparr>held := 0\<rparr>)\<rparr>)
             else Inr s2) (\<lambda>s3. Inr (snd (splx M (curspl s) s3))))"
  using assms by (simp add: lock_release_def lock_do_i_hold_def split_beta Let_def)

lemma lock_release_spec:
  assumes "thread_inv L s" and "rooms_ok L s" and "curthread s \<noteq> NULL" and "spl_consts M" and "lk \<noteq> NULL"
    and "locks s lk = Some l"
  shows "\<exists>s'. lock_release L M lk s = Inr s' \<and> curspl s' = curspl s \<and> thread_inv L s' \<and>
    (if held l = 1 \<and> holder l = curthread s
     then locks s' = (locks s)(lk \<mapsto> l\<lparr>held := 0\<rparr>) \<and> waiters lk (abs_of L s') = []
       \<and> a_ready (abs_of L s') = a_ready (abs_of L s) @ waiters lk (abs_of L s)
     else locks s' = locks s \<and> abs_of L s' = abs_of L s)"
proof (cases "held l = 1 \<and> holder l = curthread s")
  case True
  let ?s2 = "(snd (splx M (SPL_HIGH M) (snd (splhigh M (snd (splhigh M s))))))\<lparr>locks := (locks s)(lk \<mapsto> l\<lparr>held := 0\<rparr>)\<rparr>"
  have i: "thread_inv L ?s2 \<and> rooms_ok L ?s2 \<and> curspl ?s2 > 0" "abs_of L ?s2 = abs_of L s"
    using assms by (simp_all add: spl_consts_def)
  obtain s3 where s3: "thread_wakeup L lk ?s2 = Inr s3" "thread_inv L s3 \<and> rooms_ok L s3 \<and> curspl s3 > 0"
      "waiters lk (abs_of L s3) = []" "a_ready (abs_of L s3) = a_ready (abs_of L s) @ waiters lk (abs_of L s)"
    using wq.wake_none_left [OF i(1), of lk] i(2) by auto
  have "\<exists>s'. thread_wakeup L lk ?s2 = Inr s' \<and> kern.more s' = kern.more ?s2"
    using thread_wakeup_abs [of L ?s2 lk] i(1) by blast
  then have mo: "kern.more s3 = kern.more ?s2" unfolding s3(1) by blast
  have "locks s3 = (locks s)(lk \<mapsto> l\<lparr>held := 0\<rparr>)" using more_sys(2) [OF mo] by simp
  moreover have "lock_release L M lk s = Inr (snd (splx M (curspl s) s3))"
    using release_cases [OF assms(5,3,6), of L M] True s3(1) by (simp add: Let_def)
  ultimately show ?thesis using s3 True by simp
next
  case False
  then show ?thesis using release_cases [OF assms(5,3,6), of L M] assms(1) by (auto simp: Let_def)
qed

text \<open>
  \<open>lock_release\<close> by the holder frees the lock and wakes every waiter; by any other thread (or on a free
  lock) it changes neither the lock nor any list. It never fails an assertion.
\<close>

theorem lock_release_frees:
  assumes "thread_inv L s" and "rooms_ok L s" and "curthread s \<noteq> NULL" and "spl_consts M" and "lk \<noteq> NULL"
    and "locks s lk = Some l"
  shows "\<exists>s'. lock_release L M lk s = Inr s' \<and> curspl s' = curspl s \<and> thread_inv L s' \<and>
    (if held l = 1 \<and> holder l = curthread s
     then locks s' = (locks s)(lk \<mapsto> l\<lparr>held := 0\<rparr>) \<and> waiters lk (abs_of L s') = []
       \<and> a_ready (abs_of L s') = a_ready (abs_of L s) @ waiters lk (abs_of L s)
     else locks s' = locks s \<and> abs_of L s' = abs_of L s)"
  using lock_release_spec [OF assms] .

theorem lock_release_frees_witness:
  "\<exists>s'. lock_release list_klib sys161 0x44 sys_example = Inr s'
     \<and> locks s' 0x44 = Some \<lparr>lock_name = 0x998, holder = 0x100, held = 0\<rparr>
     \<and> a_ready (abs_of list_klib s') = [0x200, 0x500]"
  using lock_release_frees [OF sys_example_inv(1,2) _ spl_consts_sys161, of "0x44"]
  by (auto simp: abs_of_sys_example abs_of_example waiters_def)

section \<open>No thread waits for a free lock\<close>

definition lock_quiet :: "('q, 'a, 'h) klib \<Rightarrow> ptr \<Rightarrow> ('q, 'a, 'h, 'z) sys_scheme \<Rightarrow> bool" where
  "lock_quiet L lk s \<longleftrightarrow> (\<forall>l. locks s lk = Some l \<and> held l = 0 \<longrightarrow> waiters lk (abs_of L s) = [])"

definition progress_state :: "'s progress \<Rightarrow> 's" where
  "progress_state r = (case r of Done s \<Rightarrow> s | Blocked out \<Rightarrow> out_state out)"

text \<open>
  C14. No wake-up on a lock is lost: "if the lock is free, nobody sleeps on it" is kept by \<open>lock_acquire\<close>,
  whether it takes the lock or waits, and by \<open>lock_release\<close>, whoever calls it.
\<close>

theorem lock_no_lost_wakeup:
  assumes "can_switch L s" and "spl_consts M" and "in_interrupt s = 0" and "lk \<noteq> NULL" and "locks s lk = Some l"
    and "lock_quiet L lk s"
  shows "(\<exists>r. lock_acquire L M ([] # evss) lk s = Inr r \<and> lock_quiet L lk (progress_state r))
    \<and> (\<exists>s'. lock_release L M lk s = Inr s' \<and> lock_quiet L lk s')"
proof
  show "\<exists>r. lock_acquire L M ([] # evss) lk s = Inr r \<and> lock_quiet L lk (progress_state r)"
  proof (cases "held l = 0")
    case True
    then obtain s' where "lock_acquire L M ([] # evss) lk s = Inr (Done s')"
        "locks s' = (locks s)(lk \<mapsto> l\<lparr>held := 1, holder := curthread s\<rparr>)"
      using lock_acquire_spec [OF assms(1-5), of evss] by auto
    then show ?thesis by (simp add: lock_quiet_def progress_state_def)
  next
    case False
    then obtain out where "lock_acquire L M ([] # evss) lk s = Inr (Blocked out)" "locks (out_state out) = locks s"
      using lock_acquire_spec [OF assms(1-5), of evss] by auto
    with False assms(5) show ?thesis by (simp add: lock_quiet_def progress_state_def)
  qed
  note d = can_switchD [OF assms(1)]
  obtain s' where r: "lock_release L M lk s = Inr s'"
     "if held l = 1 \<and> holder l = curthread s
      then locks s' = (locks s)(lk \<mapsto> l\<lparr>held := 0\<rparr>) \<and> waiters lk (abs_of L s') = []
        \<and> a_ready (abs_of L s') = a_ready (abs_of L s) @ waiters lk (abs_of L s)
      else locks s' = locks s \<and> abs_of L s' = abs_of L s"
    using lock_release_spec [OF d(1-3) assms(2,4,5)] by blast
  then show "\<exists>s'. lock_release L M lk s = Inr s' \<and> lock_quiet L lk s'"
    using assms(6) by (cases "held l = 1 \<and> holder l = curthread s") (auto simp: lock_quiet_def)
qed

theorem lock_no_lost_wakeup_witness:
  "(\<exists>r. lock_acquire list_klib sys161 [[]] 0x44 sys_example = Inr r \<and> lock_quiet list_klib 0x44 (progress_state r))
    \<and> (\<exists>s'. lock_release list_klib sys161 0x44 sys_example = Inr s' \<and> lock_quiet list_klib 0x44 s')"
  by (rule lock_no_lost_wakeup [OF sys_example_inv(3) spl_consts_sys161]) (simp_all add: lock_quiet_def)

section \<open>Mutual exclusion\<close>

lemma more_wakeup_loop: "wakeup_loop L addr n i s = Inr s' \<Longrightarrow> kern.more s' = kern.more s"
proof (induction n arbitrary: i s)
  case (Suc n)
  then show ?case by (auto simp: run_eq_Inr Let_def split: if_splits dest!: more_make_runnable)
qed simp

lemma more_wakeup: "thread_wakeup L addr s = Inr s' \<Longrightarrow> kern.more s' = kern.more s"
  by (auto simp: thread_wakeup_def run_eq_Inr dest!: more_wakeup_loop simp del: wakeup_loop.simps)

lemma cur_exorcise_loop: "exorcise_loop L zs is s = Inr s' \<Longrightarrow> curthread s' = curthread s"
  by (induction "is" arbitrary: s) (auto simp: run_eq_Inr Let_def thread_destroy_def)

lemma cur_as_activate: "curthread (as_activate M p s) = curthread s"
  using as_activate_shape [of M p s] by auto

lemma cur_sleep_resume: "thread_sleep_resume L M s = Inr s' \<Longrightarrow> curthread s' = curthread s"
  by (auto simp: thread_sleep_resume_def mi_switch_resume_def exorcise_def clear_sleepaddr_def run_eq_Inr
      split_beta Let_def cur_as_activate dest!: cur_exorcise_loop split: if_splits)

lemma acquire_loop_effect:
  assumes "acquire_loop L M spl lk [[]] s = Inr r" and "locks s lk = Some l"
  shows "(\<forall>s'. r = Done s' \<longrightarrow> held l = 0 \<and> locks s' = (locks s)(lk \<mapsto> l\<lparr>held := 1, holder := curthread s\<rparr>))
    \<and> (\<forall>out. r = Blocked out \<longrightarrow> locks (out_state out) = locks s)"
proof (cases "held l = 0")
  case True
  with assms show ?thesis by auto
next
  case False
  with assms obtain out where o: "thread_sleep L M [] lk s = Inr out"
      "(case out of Returned s1 \<Rightarrow> acquire_loop L M spl lk [] s1 | _ \<Rightarrow> Inr (Blocked out)) = Inr r"
    by (auto simp: bnd_eq_Inr)
  then have "r = Blocked out" by (cases out) auto
  with more_sys(2) [OF more_thread_sleep [OF o(1)]] assms(2) show ?thesis by simp
qed

lemma acquire_effect:
  assumes "lock_acquire L M [[]] lk s = Inr r" and "locks s lk = Some l"
  shows "(\<forall>s'. r = Done s' \<longrightarrow> held l = 0 \<and> locks s' = (locks s)(lk \<mapsto> l\<lparr>held := 1, holder := curthread s\<rparr>))
    \<and> (\<forall>out. r = Blocked out \<longrightarrow> locks (out_state out) = locks s)"
proof -
  have "acquire_loop L M (curspl s) lk [[]] (snd (splhigh M s)) = Inr r"
    using assms(1) by (simp add: lock_acquire_def kassert_eq_Inr split_beta Let_def del: acquire_loop.simps)
  from acquire_loop_effect [OF this] assms(2) show ?thesis by simp
qed

lemma resume_effect:
  assumes "lock_acquire_resume L M spl [[]] lk s = Inr r" and "locks s lk = Some l"
  shows "(\<forall>s'. r = Done s' \<longrightarrow> held l = 0 \<and> locks s' = (locks s)(lk \<mapsto> l\<lparr>held := 1, holder := curthread s\<rparr>))
    \<and> (\<forall>out. r = Blocked out \<longrightarrow> locks (out_state out) = locks s)"
proof -
  obtain s1 where s1: "thread_sleep_resume L M s = Inr s1" "acquire_loop L M spl lk [[]] s1 = Inr r"
    using assms(1) by (auto simp: lock_acquire_resume_def bnd_eq_Inr simp del: acquire_loop.simps)
  have e: "locks s1 = locks s" by (rule more_sys(2) [OF more_sleep_resume [OF s1(1)]])
  with assms(2) have "locks s1 lk = Some l" by simp
  from acquire_loop_effect [OF s1(2) this] cur_sleep_resume [OF s1(1)] e show ?thesis by simp
qed

lemma release_effect:
  assumes "lock_release L M lk s = Inr s'" and "locks s lk = Some l"
  shows "locks s' = (if held l = 1 \<and> holder l = curthread s then (locks s)(lk \<mapsto> l\<lparr>held := 0\<rparr>) else locks s)"
proof -
  have "lk \<noteq> NULL" "curthread s \<noteq> NULL" using assms(1) by (auto simp: lock_release_def kassert_eq_Inr)
  note r = release_cases [OF this assms(2), of L M]
  show ?thesis
  proof (cases "held l = 1 \<and> holder l = curthread s")
    case True
    let ?s2 = "(snd (splx M (SPL_HIGH M) (snd (splhigh M (snd (splhigh M s))))))\<lparr>locks := (locks s)(lk \<mapsto> l\<lparr>held := 0\<rparr>)\<rparr>"
    obtain s3 where s3: "thread_wakeup L lk ?s2 = Inr s3" "s' = snd (splx M (curspl s) s3)"
      using assms(1) [unfolded r] True by (auto simp: Let_def bnd_eq_Inr)
    with more_sys(2) [OF more_wakeup [OF s3(1)]] True show ?thesis by simp
  next
    case False
    with assms(1) [unfolded r] assms(2) show ?thesis by (auto simp: Let_def split: if_splits)
  qed
qed

text \<open>
  A client program of one lock: each thread is outside its critical section, waiting inside
  \<open>lock_acquire\<close>, or inside. A step is one operation on the lock by the running thread, or anything else
  (interrupts, context switches, other kernel code) that does not write this lock.
\<close>

datatype place = Outside | Waiting | Inside

inductive lstep :: "('q, 'a, 'h) klib \<Rightarrow> machine \<Rightarrow> ptr \<Rightarrow> ('q, 'a, 'h, 'z) sys_scheme \<times> (ptr \<Rightarrow> place)
    \<Rightarrow> ('q, 'a, 'h, 'z) sys_scheme \<times> (ptr \<Rightarrow> place) \<Rightarrow> bool" for L M lk where
  acquire: "pc (curthread s) = Outside \<Longrightarrow> lock_acquire L M [[]] lk s = Inr (Done s') \<Longrightarrow>
    lstep L M lk (s, pc) (s', pc(curthread s := Inside))"
| acquire_wait: "pc (curthread s) = Outside \<Longrightarrow> lock_acquire L M [[]] lk s = Inr (Blocked out) \<Longrightarrow>
    lstep L M lk (s, pc) (out_state out, pc(curthread s := Waiting))"
| retry: "pc (curthread s) = Waiting \<Longrightarrow> lock_acquire_resume L M spl [[]] lk s = Inr (Done s') \<Longrightarrow>
    lstep L M lk (s, pc) (s', pc(curthread s := Inside))"
| retry_wait: "pc (curthread s) = Waiting \<Longrightarrow> lock_acquire_resume L M spl [[]] lk s = Inr (Blocked out) \<Longrightarrow>
    lstep L M lk (s, pc) (out_state out, pc)"
| release: "pc (curthread s) = Inside \<Longrightarrow> lock_release L M lk s = Inr s' \<Longrightarrow>
    lstep L M lk (s, pc) (s', pc(curthread s := Outside))"
| stray_release: "pc (curthread s) = Outside \<Longrightarrow> lock_release L M lk s = Inr s' \<Longrightarrow>
    lstep L M lk (s, pc) (s', pc)"
| other: "locks s' lk = locks s lk \<Longrightarrow> lstep L M lk (s, pc) (s', pc)"

definition mutex_inv :: "ptr \<Rightarrow> ('q, 'a, 'h, 'z) sys_scheme \<times> (ptr \<Rightarrow> place) \<Rightarrow> bool" where
  "mutex_inv lk c \<longleftrightarrow> (\<exists>l. locks (fst c) lk = Some l \<and> (\<forall>t. snd c t = Inside \<longleftrightarrow> held l = 1 \<and> holder l = t))"

lemma mutex_inv_step:
  assumes "lstep L M lk c c'" and "mutex_inv lk c"
  shows "mutex_inv lk c'"
proof -
  obtain l where l: "locks (fst c) lk = Some l" "\<And>t. snd c t = Inside \<longleftrightarrow> held l = 1 \<and> holder l = t"
    using assms(2) by (auto simp: mutex_inv_def)
  from assms(1) show ?thesis
  proof cases
    case (acquire pc s s')
    with l acquire_effect [OF acquire(4), of l] show ?thesis by (auto simp: mutex_inv_def)
  next
    case (acquire_wait pc s out)
    with l l(2) [of "curthread s"] acquire_effect [OF acquire_wait(4), of l] show ?thesis by (auto simp: mutex_inv_def)
  next
    case (retry pc s spl s')
    with l resume_effect [OF retry(4), of l] show ?thesis by (auto simp: mutex_inv_def)
  next
    case (retry_wait pc s spl out)
    with l resume_effect [OF retry_wait(4), of l] show ?thesis by (auto simp: mutex_inv_def)
  next
    case (release pc s s')
    with l release_effect [OF release(4), of l] show ?thesis by (auto simp: mutex_inv_def)
  next
    case (stray_release pc s s')
    with l l(2) [of "curthread s"] release_effect [OF stray_release(4), of l] show ?thesis by (auto simp: mutex_inv_def)
  next
    case (other s' s pc)
    with l show ?thesis by (auto simp: mutex_inv_def)
  qed
qed

text \<open>
  C4. Mutual exclusion: starting with the lock free and every thread outside, in no reachable state are two
  threads between \<open>lock_acquire\<close> and \<open>lock_release\<close>, whatever the order of the steps and even if threads
  that do not hold the lock call \<open>lock_release\<close>; and whoever is inside is recorded as the holder.
\<close>

theorem lock_mutual_exclusion:
  assumes "(lstep L M lk)\<^sup>*\<^sup>* (s0, \<lambda>_. Outside) (s, pc)" and "locks s0 lk = Some l0" and "held l0 = 0"
    and "pc t = Inside"
  shows "(\<forall>u. pc u = Inside \<longrightarrow> u = t) \<and> (\<exists>l. locks s lk = Some l \<and> held l = 1 \<and> holder l = t)"
proof -
  have i: "mutex_inv lk (s0, \<lambda>_. Outside)" using assms(2,3) by (auto simp: mutex_inv_def)
  have "mutex_inv lk c" if "(lstep L M lk)\<^sup>*\<^sup>* (s0, \<lambda>_. Outside) c" for c
    using that by (induction rule: rtranclp_induct) (auto intro: i mutex_inv_step)
  from this [OF assms(1)] assms(4) show ?thesis by (auto simp: mutex_inv_def)
qed

theorem lock_mutual_exclusion_witness:
  "\<exists>s' pc. (lstep list_klib sys161 0x4c)\<^sup>*\<^sup>* (sys_example, \<lambda>_. Outside) (s', pc) \<and> pc 0x100 = Inside
     \<and> (\<forall>u. pc u = Inside \<longrightarrow> u = 0x100)"
proof -
  obtain s' where s': "lock_acquire list_klib sys161 [[]] 0x4c sys_example = Inr (Done s')"
    using acquire_first [of "0x4c" sys_example "\<lparr>lock_name = 0x99c, holder = 0, held = 0\<rparr>" list_klib sys161 "[]"] by simp
  let ?pc = "(\<lambda>_. Outside)(0x100 := Inside)"
  have "lstep list_klib sys161 0x4c (sys_example, \<lambda>_. Outside) (s', ?pc)"
    using lstep.acquire [of "\<lambda>_. Outside" sys_example list_klib sys161 "0x4c" s'] s' by simp
  then have r: "(lstep list_klib sys161 0x4c)\<^sup>*\<^sup>* (sys_example, \<lambda>_. Outside) (s', ?pc)" by blast
  have "\<forall>u. ?pc u = Inside \<longrightarrow> u = 0x100"
    using lock_mutual_exclusion [OF r, where t = "0x100" and ?l0.0 = "\<lparr>lock_name = 0x99c, holder = 0, held = 0\<rparr>"] by simp
  with r show ?thesis by (intro exI [of _ s'] exI [of _ ?pc]) simp
qed

section \<open>The clock\<close>

text \<open>
  The timer interrupt is the only preemption: every \<open>hardclock\<close> ends in a yield of the running thread,
  and the ticks at which the counter reaches \<open>HZ\<close> (once a second) first make every thread that sleeps on
  \<open>lbolt\<close> ready.
\<close>

theorem hardclock_refines:
  assumes "can_switch L s" and "spl_consts M" and "curspl s > 0"
  shows "\<exists>out. hardclock L M HZ lb [] s = Inr out \<and> outcome_inv L out \<and>
    abs_of L (out_state out) = spec_yield (curthread s)
      (if sint (lbolt_counter s + 1) \<ge> HZ then spec_wakeup lb (abs_of L s) else abs_of L s)"
proof (cases "sint (lbolt_counter s + 1) \<ge> HZ")
  case True
  note d = can_switchD [OF assms(1)]
  let ?s = "s\<lparr>lbolt_counter := 0\<rparr>"
  obtain s1 where s1: "thread_wakeup L lb ?s = Inr s1" "abs_of L s1 = spec_wakeup lb (abs_of L ?s)" "thread_inv L s1"
      "rooms_ok L s1" "curthread s1 = curthread ?s" "threads s1 = threads ?s" "kmem s1 = kmem ?s"
    using thread_wakeup_abs [of L ?s lb] d assms(3) by auto
  have "stack_intact s1 = stack_intact ?s" unfolding stack_intact_def s1(5-7) ..
  then have "can_switch L s1" using s1 d by (simp add: can_switch_def)
  with True s1 thread_yield_abs [OF assms(2), of L s1] show ?thesis by (auto simp: hardclock_def)
next
  case False
  then have "can_switch L (s\<lparr>lbolt_counter := lbolt_counter s + 1\<rparr>)" using assms(1) by simp
  with False thread_yield_abs [OF assms(2)] show ?thesis by (fastforce simp: hardclock_def)
qed

theorem hardclock_refines_witness:
  "\<exists>out. hardclock list_klib sys161 1 0x40 [] sys_example = Inr out \<and> outcome_inv list_klib out
    \<and> a_cur (abs_of list_klib (out_state out)) = Some 0x200 \<and> a_ready (abs_of list_klib (out_state out)) = [0x300, 0x100]"
  using hardclock_refines [OF sys_example_inv(3) spl_consts_sys161, of 1 "0x40"]
  by (auto simp: abs_of_sys_example abs_of_example spec_yield_def spec_pick_def spec_wakeup_def)

end
