(* ===== verification/Vm_Fault.thy ===== *)
theory Vm_Fault
  imports Synch_Spec
begin

text \<open>
  The TLB fault handler \<open>vm_fault\<close> of \<^verbatim>\<open>kern/mips/dumbvm.c\<close>, on the address space of the current thread.
  It is compared with a page table: the list of the pages of the address space with the physical pages that hold them.
\<close>

section \<open>The handler\<close>

definition VM_FAULT_READ :: int where "VM_FAULT_READ = 0"
definition VM_FAULT_WRITE :: int where "VM_FAULT_WRITE = 1"
definition VM_FAULT_READONLY :: int where "VM_FAULT_READONLY = 2"

lemmas fault_type_defs = VM_FAULT_READ_def VM_FAULT_WRITE_def VM_FAULT_READONLY_def

text \<open>The assertions about the address space.\<close>

definition as_checks :: "machine \<Rightarrow> addrspace \<Rightarrow> 'r run \<Rightarrow> 'r run" where
  "as_checks M as k =
     kassert (as_vbase1 as \<noteq> 0) ''as_vbase1 != 0'' (
     kassert (as_pbase1 as \<noteq> 0) ''as_pbase1 != 0'' (
     kassert (as_npages1 as \<noteq> 0) ''as_npages1 != 0'' (
     kassert (as_vbase2 as \<noteq> 0) ''as_vbase2 != 0'' (
     kassert (as_pbase2 as \<noteq> 0) ''as_pbase2 != 0'' (
     kassert (as_npages2 as \<noteq> 0) ''as_npages2 != 0'' (
     kassert (as_stackpbase as \<noteq> 0) ''as_stackpbase != 0'' (
     kassert (as_vbase1 as AND PAGE_FRAME M = as_vbase1 as) ''as_vbase1 aligned'' (
     kassert (as_pbase1 as AND PAGE_FRAME M = as_pbase1 as) ''as_pbase1 aligned'' (
     kassert (as_vbase2 as AND PAGE_FRAME M = as_vbase2 as) ''as_vbase2 aligned'' (
     kassert (as_pbase2 as AND PAGE_FRAME M = as_pbase2 as) ''as_pbase2 aligned'' (
     kassert (as_stackpbase as AND PAGE_FRAME M = as_stackpbase as) ''as_stackpbase aligned'' k)))))))))))"

text \<open>The physical address of a page, by the three regions in the order of the code.\<close>

definition fault_paddr :: "machine \<Rightarrow> addrspace \<Rightarrow> u32 \<Rightarrow> u32 option" where
  "fault_paddr M as fa =
     (let vbase1 = as_vbase1 as; vtop1 = vbase1 + as_npages1 as * PAGE_SIZE M;
          vbase2 = as_vbase2 as; vtop2 = vbase2 + as_npages2 as * PAGE_SIZE M;
          stackbase = USERSTACK M - DUMBVM_STACKPAGES * PAGE_SIZE M; stacktop = USERSTACK M
      in if fa \<ge> vbase1 \<and> fa < vtop1 then Some ((fa - vbase1) + as_pbase1 as)
         else if fa \<ge> vbase2 \<and> fa < vtop2 then Some ((fa - vbase2) + as_pbase2 as)
         else if fa \<ge> stackbase \<and> fa < stacktop then Some ((fa - stackbase) + as_stackpbase as)
         else None)"

text \<open>The loop over the translation buffer: the first slot without a valid entry.\<close>

primrec tlb_fill :: "machine \<Rightarrow> u32 \<Rightarrow> u32 \<Rightarrow> nat list \<Rightarrow> ('h, 'z) vm_scheme \<Rightarrow> ('h, 'z) vm_scheme option" where
  "tlb_fill M fa paddr [] s = None"
| "tlb_fill M fa paddr (i # is) s =
     (let (ehi, elo) = TLB_Read i s
      in if elo AND TLBLO_VALID M \<noteq> 0 then tlb_fill M fa paddr is s
         else Some (TLB_Write fa (paddr OR TLBLO_DIRTY M OR TLBLO_VALID M) i s))"

definition vm_fault ::
  "machine \<Rightarrow> int \<Rightarrow> u32 \<Rightarrow> ('q, 'a, 'h, 'z) kern_scheme \<Rightarrow> (int \<times> ('q, 'a, 'h, 'z) kern_scheme) run" where
  "vm_fault M faulttype faultaddress s =
     (let (spl, s1) = splhigh M s;
          fa = faultaddress AND PAGE_FRAME M
      in if faulttype = VM_FAULT_READONLY then Inl (Panic ''dumbvm: got VM_FAULT_READONLY'')
         else if faulttype \<noteq> VM_FAULT_READ \<and> faulttype \<noteq> VM_FAULT_WRITE then Inr (EINVAL, snd (splx M spl s1))
         else
         deref (threads s1) (curthread s1) ''curthread'' (\<lambda>t.
         if t_vmspace t = NULL then Inr (EFAULT, s1) else
         deref (addrspaces s1) (t_vmspace t) ''as'' (\<lambda>as.
         as_checks M as (
         case fault_paddr M as fa of
           None \<Rightarrow> Inr (EFAULT, snd (splx M spl s1))
         | Some paddr \<Rightarrow>
             kassert (paddr AND PAGE_FRAME M = paddr) ''paddr aligned'' (
             case tlb_fill M fa paddr [0..<NUM_TLB M] s1 of
               Some s2 \<Rightarrow> Inr (0, snd (splx M spl s2))
             | None \<Rightarrow> Inr (EFAULT, snd (splx M spl s1)))))))"

section \<open>Page alignment\<close>

definition aligned :: "nat \<Rightarrow> u32 \<Rightarrow> bool" where
  "aligned k x \<longleftrightarrow> 2 ^ k dvd x"

lemma and_not_mask_iff: "x AND NOT (mask k) = x \<longleftrightarrow> take_bit k x = (0::u32)"
  by (auto simp: bit_eq_iff bit_simps)

lemma aligned_frame: "page_consts M k \<Longrightarrow> x AND PAGE_FRAME M = x \<longleftrightarrow> aligned k x"
  by (simp add: page_consts_def aligned_def and_not_mask_iff take_bit_eq_0_iff)

lemma aligned_add: "aligned k a \<Longrightarrow> aligned k b \<Longrightarrow> aligned k (a + b)"
  unfolding aligned_def by (rule dvd_add)

lemma aligned_diff: "aligned k a \<Longrightarrow> aligned k b \<Longrightarrow> aligned k (a - b)"
  unfolding aligned_def by (rule dvd_diff)

lemma aligned_mult_page: "page_consts M k \<Longrightarrow> aligned k (n * PAGE_SIZE M)"
  by (simp add: aligned_def page_consts_def)

lemma aligned_fault: "page_consts M k \<Longrightarrow> aligned k (fa AND PAGE_FRAME M)"
  by (subst aligned_frame [symmetric, of M]) (simp_all add: page_consts_def)

section \<open>Well-formed address spaces\<close>

text \<open>What the assertions check.\<close>

definition as_valid :: "machine \<Rightarrow> nat \<Rightarrow> addrspace \<Rightarrow> bool" where
  "as_valid M k as \<longleftrightarrow> as_vbase1 as \<noteq> 0 \<and> as_pbase1 as \<noteq> 0 \<and> as_npages1 as \<noteq> 0 \<and> as_vbase2 as \<noteq> 0
     \<and> as_pbase2 as \<noteq> 0 \<and> as_npages2 as \<noteq> 0 \<and> as_stackpbase as \<noteq> 0
     \<and> aligned k (as_vbase1 as) \<and> aligned k (as_pbase1 as) \<and> aligned k (as_vbase2 as) \<and> aligned k (as_pbase2 as)
     \<and> aligned k (as_stackpbase as) \<and> aligned k (USERSTACK M)"

lemma as_checks_valid: "page_consts M k \<Longrightarrow> as_valid M k as \<Longrightarrow> as_checks M as c = c"
  by (simp add: as_checks_def as_valid_def aligned_frame)

lemma fault_paddr_aligned:
  assumes "page_consts M k" and "as_valid M k as" and "aligned k fa" and "fault_paddr M as fa = Some p"
  shows "aligned k p"
  using assms by (auto simp: fault_paddr_def as_valid_def Let_def split: if_splits
      intro!: aligned_add aligned_diff aligned_mult_page)

lemma tlb_fill_cases:
  "tlb_fill M fa p is s = (case find (\<lambda>i. snd (tlb s i) AND TLBLO_VALID M = 0) is of
     None \<Rightarrow> None | Some i \<Rightarrow> Some (s\<lparr>tlb := (tlb s)(i := (fa, p OR TLBLO_DIRTY M OR TLBLO_VALID M))\<rparr>))"
  by (induction "is") (simp_all add: TLB_Read_def TLB_Write_def split_beta Let_def)

text \<open>The slot that \<open>vm_fault\<close> fills.\<close>

definition free_slot :: "machine \<Rightarrow> ('h, 'z) vm_scheme \<Rightarrow> nat option" where
  "free_slot M s = find (\<lambda>i. snd (tlb s i) AND TLBLO_VALID M = 0) [0..<NUM_TLB M]"

lemma free_slot_splhigh [simp]: "free_slot M (snd (splhigh M s)) = free_slot M s"
  by (simp add: free_slot_def)

lemma kern_splhigh [simp]: "addrspaces (snd (splhigh M s)) = addrspaces s"
  using splx_shape [of M "SPL_HIGH M" s] by (auto simp: splhigh_def)

lemma vm_fault_eq:
  assumes "page_consts M k" and "spl_consts M" and "spl_ok M s" and "ft \<in> {VM_FAULT_READ, VM_FAULT_WRITE}"
    and "threads s (curthread s) = Some t" and "t_vmspace t \<noteq> NULL" and "addrspaces s (t_vmspace t) = Some as"
    and "as_valid M k as"
  shows "vm_fault M ft va s = (case (fault_paddr M as (va AND PAGE_FRAME M), free_slot M s) of
       (Some p, Some i) \<Rightarrow> Inr (0, s\<lparr>tlb := (tlb s)(i := (va AND PAGE_FRAME M, p OR TLBLO_DIRTY M OR TLBLO_VALID M))\<rparr>)
     | _ \<Rightarrow> Inr (EFAULT, s))"
proof -
  let ?fa = "va AND PAGE_FRAME M" and ?s = "snd (splhigh M s)"
  have c: "\<And>c. as_checks M as c = c" using as_checks_valid [OF assms(1,8)] by blast
  have r: "snd (splx M (curspl s) ?s) = s" by (rule splhigh_splx_state [OF assms(2,3)])
  have f: "ft \<noteq> VM_FAULT_READONLY" "ft = VM_FAULT_READ \<or> ft = VM_FAULT_WRITE"
    using assms(4) by (auto simp: fault_type_defs)
  have "vm_fault M ft va s = (case fault_paddr M as ?fa of
           None \<Rightarrow> Inr (EFAULT, s)
         | Some paddr \<Rightarrow> kassert (paddr AND PAGE_FRAME M = paddr) ''paddr aligned'' (
             case tlb_fill M ?fa paddr [0..<NUM_TLB M] ?s of
               Some s2 \<Rightarrow> Inr (0, snd (splx M (curspl s) s2)) | None \<Rightarrow> Inr (EFAULT, s)))"
    using f(2,1) assms(5-7) by (elim disjE; simp add: vm_fault_def split_beta Let_def c r cong: option.case_cong)
  also have "\<dots> = (case fault_paddr M as ?fa of
           None \<Rightarrow> Inr (EFAULT, s)
         | Some paddr \<Rightarrow> (case tlb_fill M ?fa paddr [0..<NUM_TLB M] ?s of
               Some s2 \<Rightarrow> Inr (0, snd (splx M (curspl s) s2)) | None \<Rightarrow> Inr (EFAULT, s)))"
    using fault_paddr_aligned [OF assms(1,8) aligned_fault [OF assms(1)]] aligned_frame [OF assms(1)]
    by (simp split: option.split)
  finally show ?thesis
    using r by (simp add: tlb_fill_cases free_slot_def [symmetric] splx_tlb split: option.split)
qed

section \<open>The page table\<close>

text \<open>
  The reference translation knows nothing of comparisons of addresses. The three segments of an address space, as virtual base, number
  of pages and physical base; the page table pairs the \<open>i\<close>-th page of a segment with the \<open>i\<close>-th page of its memory; an address is translated by looking
  up the page that it lies in. All numbers are natural numbers.
\<close>

definition segments :: "machine \<Rightarrow> addrspace \<Rightarrow> (nat \<times> nat \<times> nat) list" where
  "segments M as =
     [(unat (as_vbase1 as), unat (as_npages1 as), unat (as_pbase1 as)),
      (unat (as_vbase2 as), unat (as_npages2 as), unat (as_pbase2 as)),
      (unat (USERSTACK M) - 12 * unat (PAGE_SIZE M), 12, unat (as_stackpbase as))]"

definition page_table :: "machine \<Rightarrow> addrspace \<Rightarrow> (nat \<times> nat) list" where
  "page_table M as = concat (map (\<lambda>(v, n, p). map (\<lambda>i. (v + i * unat (PAGE_SIZE M), p + i * unat (PAGE_SIZE M))) [0..<n]) (segments M as))"

definition page_of :: "machine \<Rightarrow> u32 \<Rightarrow> nat" where
  "page_of M va = unat va div unat (PAGE_SIZE M) * unat (PAGE_SIZE M)"

definition translate :: "machine \<Rightarrow> addrspace \<Rightarrow> u32 \<Rightarrow> nat option" where
  "translate M as va = map_of (page_table M as) (page_of M va)"

text \<open>No segment runs past the end of the virtual addresses.\<close>

definition as_fits :: "machine \<Rightarrow> addrspace \<Rightarrow> bool" where
  "as_fits M as \<longleftrightarrow> 12 * unat (PAGE_SIZE M) \<le> unat (USERSTACK M)
     \<and> (\<forall>(v, n, p) \<in> set (segments M as). v + n * unat (PAGE_SIZE M) < 2 ^ 32)"

lemma map_of_segment:
  fixes P :: nat
  assumes "P dvd v" and "P dvd x" and "0 < P"
  shows "map_of (map (\<lambda>i. (v + i * P, p + i * P)) [0..<n]) x = (if v \<le> x \<and> x < v + n * P then Some (p + (x - v)) else None)"
proof (induction n)
  case 0
  then show ?case by simp
next
  case (Suc n)
  have "x = v + n * P" if "v + n * P \<le> x" "x < v + Suc n * P"
  proof -
    have "P dvd x - (v + n * P)" using assms(1,2) by (intro dvd_diff_nat) simp_all
    moreover have "x - (v + n * P) < P" using that by auto
    ultimately have "x - (v + n * P) = 0" using nat_dvd_not_less [of "x - (v + n * P)" P] by blast
    with that show ?thesis by simp
  qed
  with Suc assms(3) show ?case by (auto simp: map_add_def)
qed

lemma page_size_unat: "page_consts M k \<Longrightarrow> unat (PAGE_SIZE M) = 2 ^ k"
  unfolding page_consts_def using unat_two_power [of k] by presburger

lemma aligned_unat:
  assumes "page_consts M k" and "aligned k x"
  shows "unat (PAGE_SIZE M) dvd unat x"
proof -
  have "take_bit k x = 0" using assms(2) by (simp add: aligned_def take_bit_eq_0_iff)
  then have "unat (x AND mask k) = 0" unfolding take_bit_eq_mask by simp
  then show ?thesis unfolding page_size_unat [OF assms(1)] unat_and_mask by (simp add: mod_eq_0_iff_dvd)
qed

lemma page_of_frame: "page_consts M k \<Longrightarrow> unat (va AND PAGE_FRAME M) = page_of M va"
  unfolding page_of_def page_size_unat minus_mod_eq_div_mult [symmetric]
  by (simp only: page_consts_def unat_and_not_mask)

lemma word_region:
  fixes x v n P :: u32
  assumes "unat v + unat n * unat P < 2 ^ 32"
  shows "(x \<ge> v \<and> x < v + n * P) = (unat v \<le> unat x \<and> unat x < unat v + unat n * unat P)"
proof -
  have m: "unat (n * P) = unat n * unat P" by (rule unat_mult_no_wrap) (use assms in linarith)
  have "unat (v + n * P) = unat v + unat n * unat P" using unat_add_no_wrap [of v "n * P"] assms m by simp
  then show ?thesis by (simp add: word_le_nat_alt word_less_nat_alt)
qed

lemma word_offset: "v \<le> x \<Longrightarrow> (x - v) + p = of_nat (unat p + (unat x - unat v))" for x v p :: u32
  by (simp add: word_le_nat_alt of_nat_diff)

lemma fault_paddr_translate:
  assumes "page_consts M k" and "as_valid M k as" and "as_fits M as"
  shows "fault_paddr M as (va AND PAGE_FRAME M) = map_option of_nat (translate M as va)"
proof -
  let ?x = "va AND PAGE_FRAME M" and ?P = "unat (PAGE_SIZE M)" and ?us = "USERSTACK M"
  let ?st = "?us - DUMBVM_STACKPAGES * PAGE_SIZE M"
  note fit = assms(3) [unfolded as_fits_def segments_def, simplified]
  have mp: "unat (DUMBVM_STACKPAGES * PAGE_SIZE M) = 12 * ?P"
    using unat_mult_no_wrap [of DUMBVM_STACKPAGES "PAGE_SIZE M"] fit u32_bound [of ?us] by (simp add: DUMBVM_STACKPAGES_def)
  have st: "unat ?st = unat ?us - 12 * ?P"
    using fit mp by (subst unat_sub) (simp_all add: word_le_nat_alt)
  have dv: "?P dvd unat ?x" by (rule aligned_unat [OF assms(1) aligned_fault [OF assms(1)]])
  have d1: "?P dvd unat (as_vbase1 as)" and d2: "?P dvd unat (as_vbase2 as)" and d3: "?P dvd unat ?st"
    using assms(2) aligned_diff [OF _ aligned_mult_page [OF assms(1)], of ?us]
    by (auto simp: as_valid_def intro!: aligned_unat [OF assms(1)])
  have P: "0 < ?P" using page_size_unat [OF assms(1)] by simp
  have r1: "(?x \<ge> as_vbase1 as \<and> ?x < as_vbase1 as + as_npages1 as * PAGE_SIZE M)
      = (unat (as_vbase1 as) \<le> unat ?x \<and> unat ?x < unat (as_vbase1 as) + unat (as_npages1 as) * ?P)"
    and r2: "(?x \<ge> as_vbase2 as \<and> ?x < as_vbase2 as + as_npages2 as * PAGE_SIZE M)
      = (unat (as_vbase2 as) \<le> unat ?x \<and> unat ?x < unat (as_vbase2 as) + unat (as_npages2 as) * ?P)"
    using fit by (intro word_region; simp)+
  have r3: "(?x \<ge> ?st \<and> ?x < ?us) = (unat ?st \<le> unat ?x \<and> unat ?x < unat ?st + 12 * ?P)"
    using fit by (simp add: word_le_nat_alt word_less_nat_alt st)
  have t: "translate M as va =
      (case map_of (map (\<lambda>i. (unat (as_vbase1 as) + i * ?P, unat (as_pbase1 as) + i * ?P)) [0..<unat (as_npages1 as)]) (unat ?x) of Some f \<Rightarrow> Some f
       | None \<Rightarrow> (case map_of (map (\<lambda>i. (unat (as_vbase2 as) + i * ?P, unat (as_pbase2 as) + i * ?P)) [0..<unat (as_npages2 as)]) (unat ?x) of Some f \<Rightarrow> Some f
       | None \<Rightarrow> map_of (map (\<lambda>i. (unat ?st + i * ?P, unat (as_stackpbase as) + i * ?P)) [0..<12]) (unat ?x)))"
    unfolding translate_def page_table_def segments_def page_of_frame [OF assms(1), symmetric] st
    by (simp add: map_add_def split: option.split del: upt_Suc)
  show ?thesis
    unfolding t map_of_segment [OF d1 dv P] map_of_segment [OF d2 dv P] map_of_segment [OF d3 dv P]
      fault_paddr_def Let_def r1 r2 r3
    by (auto simp: word_le_nat_alt word_offset)
qed

lemma frame_page: "page_consts M k \<Longrightarrow> va AND PAGE_FRAME M = of_nat (page_of M va)"
  by (simp flip: page_of_frame)

lemma vm_fault_table:
  assumes "page_consts M k" and "spl_consts M" and "spl_ok M s" and "ft \<in> {VM_FAULT_READ, VM_FAULT_WRITE}"
    and "threads s (curthread s) = Some t" and "t_vmspace t \<noteq> NULL" and "addrspaces s (t_vmspace t) = Some as"
    and "as_valid M k as" and "as_fits M as"
  shows "vm_fault M ft va s = (case (translate M as va, free_slot M s) of
       (Some f, Some i) \<Rightarrow>
         Inr (0, s\<lparr>tlb := (tlb s)(i := (of_nat (page_of M va), of_nat f OR TLBLO_DIRTY M OR TLBLO_VALID M))\<rparr>)
     | _ \<Rightarrow> Inr (EFAULT, s))"
  unfolding vm_fault_eq [OF assms(1-8)] fault_paddr_translate [OF assms(1,8,9)] unfolding frame_page [OF assms(1)]
  by (simp split: option.split)

text \<open>
  C12. The page-fault handler does what the page table says. For a read or write fault of a thread with a
  well-formed address space whose segments do not run past the end of the addresses, it returns \<open>EFAULT\<close>
  and changes nothing when no page of the table contains the address or when the translation buffer is full;
  otherwise it returns 0 and the only change is one slot, which was not valid before, and which now maps the page
  of the address to the physical page of the table, valid and writable. The interrupt level is restored and no
  assertion fails.
\<close>

theorem vm_fault_translates:
  assumes "page_consts M k" and "spl_consts M" and "spl_ok M s" and "ft \<in> {VM_FAULT_READ, VM_FAULT_WRITE}"
    and "threads s (curthread s) = Some t" and "t_vmspace t \<noteq> NULL" and "addrspaces s (t_vmspace t) = Some as"
    and "as_valid M k as" and "as_fits M as"
  shows "vm_fault M ft va s = (case (translate M as va, free_slot M s) of
       (Some f, Some i) \<Rightarrow>
         Inr (0, s\<lparr>tlb := (tlb s)(i := (of_nat (page_of M va), of_nat f OR TLBLO_DIRTY M OR TLBLO_VALID M))\<rparr>)
     | _ \<Rightarrow> Inr (EFAULT, s))"
  by (rule vm_fault_table [OF assms])

definition fault_as :: addrspace where
  "fault_as = \<lparr>as_vbase1 = 0x400000, as_pbase1 = 0x10000, as_npages1 = 2, as_vbase2 = 0x10000000, as_pbase2 = 0x20000,
     as_npages2 = 1, as_stackpbase = 0x30000\<rparr>"

definition fault_example :: "(lseq, lseq, lheap) kern" where
  "fault_example = kern_example\<lparr>addrspaces := [0x900 \<mapsto> fault_as], tlb := (\<lambda>_. (0, 0)),
     threads := [0x100 \<mapsto> (new_thread 0x104)\<lparr>t_vmspace := 0x900\<rparr>]\<rparr>"

lemma spl_ok_fault_example: "spl_ok sys161 fault_example"
  by (simp add: fault_example_def spl_ok_def irqs_enabled_def kern_example_def md_example_def sched_example_def
      md.extend_def sched.extend_def sys161_def)

lemma as_valid_fault_as: "as_valid sys161 12 fault_as"
proof -
  have a: "\<And>n. aligned 12 (of_nat (4096 * n))"
    by (simp add: aligned_def)
  show ?thesis using a [of "0x400"] a [of "0x10"] a [of "0x10000"] a [of "0x20"] a [of "0x30"] a [of "0x80000"]
    by (simp add: as_valid_def fault_as_def sys161_def)
qed

lemma as_fits_fault_as: "as_fits sys161 fault_as"
  by (simp add: as_fits_def segments_def fault_as_def sys161_def)

theorem vm_fault_translates_witness:
  "vm_fault sys161 VM_FAULT_READ 0x401234 fault_example
     = Inr (0, fault_example\<lparr>tlb := (\<lambda>_. (0, 0))(0 := (0x401000, 0x11600))\<rparr>)"
proof -
  have "free_slot sys161 fault_example = Some 0"
    by (simp add: free_slot_def fault_example_def sys161_def upt_conv_Cons)
  moreover have "translate sys161 fault_as 0x401234 = Some 0x11000" and "page_of sys161 0x401234 = 0x401000"
    by (simp_all add: translate_def page_table_def segments_def page_of_def fault_as_def sys161_def upt_conv_Cons)
  ultimately show ?thesis
    using vm_fault_translates [OF page_consts_sys161 spl_consts_sys161 spl_ok_fault_example, where ft = VM_FAULT_READ
        and t = "(new_thread 0x104)\<lparr>t_vmspace := 0x900\<rparr>" and as = fault_as and va = "0x401234"] as_valid_fault_as as_fits_fault_as
    by (simp add: fault_example_def) (simp add: sys161_def)
qed

text \<open>
  A fault of a thread that has no address space is reported with \<open>EFAULT\<close>, but on this path the
  handler returns without lowering the interrupt level it raised: the caller goes on with interrupts off
  at level \<open>SPL_HIGH\<close>, although it ran with interrupts on.
\<close>

theorem vm_fault_no_vmspace_keeps_spl:
  assumes "spl_consts M" and "ft \<in> {VM_FAULT_READ, VM_FAULT_WRITE}" and "threads s (curthread s) = Some t"
    and "t_vmspace t = NULL"
  shows "\<exists>s'. vm_fault M ft va s = Inr (EFAULT, s') \<and> curspl s' = SPL_HIGH M \<and> \<not> irqs_enabled M s'"
proof -
  have "vm_fault M ft va s = Inr (EFAULT, snd (splhigh M s))"
    using assms(2-4) by (auto simp: vm_fault_def split_beta Let_def fault_type_defs)
  moreover have "\<not> irqs_enabled M (snd (splhigh M s))"
    using irqs_enabled_splx [OF assms(1), of "SPL_HIGH M" s] assms(1) by (simp add: splhigh_def spl_consts_def)
  ultimately show ?thesis by simp
qed

theorem vm_fault_no_vmspace_keeps_spl_witness:
  "\<exists>s'. vm_fault sys161 VM_FAULT_READ 0 (kern_example\<lparr>curspl := 0, c0_status := 0xff01\<rparr>) = Inr (EFAULT, s')
     \<and> curspl s' = 15 \<and> \<not> irqs_enabled sys161 s'"
proof -
  have "\<exists>s'. vm_fault sys161 VM_FAULT_READ 0 (kern_example\<lparr>curspl := 0, c0_status := 0xff01\<rparr>) = Inr (EFAULT, s')
     \<and> curspl s' = SPL_HIGH sys161 \<and> \<not> irqs_enabled sys161 s'"
    by (rule vm_fault_no_vmspace_keeps_spl [OF spl_consts_sys161, where t = "(new_thread 0x104)\<lparr>t_stack := 0x5000, t_cwd := 0x900\<rparr>"])
      (simp_all add: example_threads_def new_thread_def)
  then show ?thesis by (simp add: sys161_def)
qed

end
