(* ===== verification/Exception.thy ===== *)
theory Exception
  imports Vm_Fault
begin

text \<open>
  The exception entry and return code of \<^verbatim>\<open>kern/mips/exception.S\<close>, as instruction lists run by a small
  interpreter. The entry code builds a \<open>struct trapframe\<close> of 37 words on the kernel stack; the return code
  loads the registers back from it.
\<close>

section \<open>The processor\<close>

text \<open>General registers are numbered as on the MIPS; register 0 reads as zero.\<close>

type_synonym reg = nat

abbreviation (input) r_zero :: reg where "r_zero \<equiv> 0"
abbreviation (input) r_AT :: reg where "r_AT \<equiv> 1"
abbreviation (input) r_v0 :: reg where "r_v0 \<equiv> 2"
abbreviation (input) r_v1 :: reg where "r_v1 \<equiv> 3"
abbreviation (input) r_a0 :: reg where "r_a0 \<equiv> 4"
abbreviation (input) r_a1 :: reg where "r_a1 \<equiv> 5"
abbreviation (input) r_a2 :: reg where "r_a2 \<equiv> 6"
abbreviation (input) r_a3 :: reg where "r_a3 \<equiv> 7"
abbreviation (input) r_t0 :: reg where "r_t0 \<equiv> 8"
abbreviation (input) r_t1 :: reg where "r_t1 \<equiv> 9"
abbreviation (input) r_t2 :: reg where "r_t2 \<equiv> 10"
abbreviation (input) r_t3 :: reg where "r_t3 \<equiv> 11"
abbreviation (input) r_t4 :: reg where "r_t4 \<equiv> 12"
abbreviation (input) r_t5 :: reg where "r_t5 \<equiv> 13"
abbreviation (input) r_t6 :: reg where "r_t6 \<equiv> 14"
abbreviation (input) r_t7 :: reg where "r_t7 \<equiv> 15"
abbreviation (input) r_s0 :: reg where "r_s0 \<equiv> 16"
abbreviation (input) r_s1 :: reg where "r_s1 \<equiv> 17"
abbreviation (input) r_s2 :: reg where "r_s2 \<equiv> 18"
abbreviation (input) r_s3 :: reg where "r_s3 \<equiv> 19"
abbreviation (input) r_s4 :: reg where "r_s4 \<equiv> 20"
abbreviation (input) r_s5 :: reg where "r_s5 \<equiv> 21"
abbreviation (input) r_s6 :: reg where "r_s6 \<equiv> 22"
abbreviation (input) r_s7 :: reg where "r_s7 \<equiv> 23"
abbreviation (input) r_t8 :: reg where "r_t8 \<equiv> 24"
abbreviation (input) r_t9 :: reg where "r_t9 \<equiv> 25"
abbreviation (input) r_k0 :: reg where "r_k0 \<equiv> 26"
abbreviation (input) r_k1 :: reg where "r_k1 \<equiv> 27"
abbreviation (input) r_gp :: reg where "r_gp \<equiv> 28"
abbreviation (input) r_sp :: reg where "r_sp \<equiv> 29"
abbreviation (input) r_s8 :: reg where "r_s8 \<equiv> 30"
abbreviation (input) r_ra :: reg where "r_ra \<equiv> 31"

datatype cop = c0_status_reg | c0_cause_reg | c0_epc_reg | c0_vaddr_reg

datatype instr =
    Move reg reg
  | Mfc0 reg cop
  | Mtc0 reg cop
  | Andi reg reg u32
  | Ori reg reg u32
  | Addi reg reg u32
  | Sw reg u32 reg
  | Lw reg u32 reg
  | LwKstack reg        \<comment> \<open>\<open>la r, curkstack; lw r', 0(r)\<close>\<close>
  | Beqz reg nat        \<comment> \<open>\<open>beq r, $0\<close> over the next instructions (its delay slot is a \<open>nop\<close>)\<close>
  | Mfhi reg
  | Mflo reg
  | Mthi reg
  | Mtlo reg

record processor =
  gpr :: "reg \<Rightarrow> u32"
  hi :: u32
  lo :: u32
  cp0 :: "cop \<Rightarrow> u32"
  mem :: "u32 \<Rightarrow> byte"
  kstack :: u32
  pc :: u32

definition rd :: "processor \<Rightarrow> reg \<Rightarrow> u32" where
  "rd c r = (if r = r_zero then 0 else gpr c r)"

definition wr :: "reg \<Rightarrow> u32 \<Rightarrow> processor \<Rightarrow> processor" where
  "wr r v c = c\<lparr>gpr := (gpr c)(r := v)\<rparr>"

function exec :: "instr list \<Rightarrow> processor \<Rightarrow> processor" where
  "exec [] c = c"
| "exec (Move d r # is) c = exec is (wr d (rd c r) c)"
| "exec (Mfc0 d k # is) c = exec is (wr d (cp0 c k) c)"
| "exec (Mtc0 r k # is) c = exec is (c\<lparr>cp0 := (cp0 c)(k := rd c r)\<rparr>)"
| "exec (Andi d r i # is) c = exec is (wr d (rd c r AND i) c)"
| "exec (Ori d r i # is) c = exec is (wr d (rd c r OR i) c)"
| "exec (Addi d r i # is) c = exec is (wr d (rd c r + i) c)"
| "exec (Sw r i b # is) c = exec is (c\<lparr>mem := store_word (rd c b + i) (rd c r) (mem c)\<rparr>)"
| "exec (Lw d i b # is) c = exec is (wr d (load_word (mem c) (rd c b + i)) c)"
| "exec (LwKstack d # is) c = exec is (wr d (kstack c) c)"
| "exec (Beqz r n # is) c = exec (if rd c r = 0 then drop n is else is) c"
| "exec (Mfhi d # is) c = exec is (wr d (hi c) c)"
| "exec (Mflo d # is) c = exec is (wr d (lo c) c)"
| "exec (Mthi r # is) c = exec is (c\<lparr>hi := rd c r\<rparr>)"
| "exec (Mtlo r # is) c = exec is (c\<lparr>lo := rd c r\<rparr>)"
  by pat_completeness auto
termination by (relation "measure (\<lambda>(is, c). length is)") auto

text \<open>\<open>rfe\<close> pops the three-level stack of mode and interrupt-enable bits of the status register.\<close>

definition rfe :: "processor \<Rightarrow> processor" where
  "rfe c = c\<lparr>cp0 := (cp0 c)(c0_status_reg :=
     (cp0 c c0_status_reg AND NOT 15) OR (drop_bit 2 (cp0 c c0_status_reg) AND 15))\<rparr>"

section \<open>The code\<close>

text \<open>Both vectors find a kernel stack and load the cause; the first also marks it.\<close>

definition utlb_exception :: "machine \<Rightarrow> instr list" where
  "utlb_exception M =
    [Move r_k1 r_sp, Mfc0 r_k0 c0_status_reg, Andi r_k0 r_k0 (CST_KUp M), Beqz r_k0 1,
     LwKstack r_sp,
     Mfc0 r_k0 c0_cause_reg, Ori r_k0 r_k0 1]"

definition exception :: "machine \<Rightarrow> instr list" where
  "exception M =
    [Move r_k1 r_sp, Mfc0 r_k0 c0_status_reg, Andi r_k0 r_k0 (CST_KUp M), Beqz r_k0 1,
     LwKstack r_sp,
     Mfc0 r_k0 c0_cause_reg]"

text \<open>The code of \<open>common_exception\<close> up to the call of \<open>mips_trap\<close>, after the stack space is allocated.\<close>

definition save_trapframe :: "instr list" where
  "save_trapframe =
    [Sw r_ra 160 r_sp, Sw r_s8 156 r_sp, Sw r_sp 152 r_sp, Sw r_gp 148 r_sp, Sw r_k1 144 r_sp, Sw r_k0 140 r_sp,
     Sw r_k1 152 r_sp, Mfc0 r_k1 c0_epc_reg, Sw r_k1 160 r_sp,
     Sw r_t9 136 r_sp, Sw r_t8 132 r_sp, Sw r_s7 128 r_sp, Sw r_s6 124 r_sp, Sw r_s5 120 r_sp, Sw r_s4 116 r_sp,
     Sw r_s3 112 r_sp, Sw r_s2 108 r_sp, Sw r_s1 104 r_sp, Sw r_s0 100 r_sp, Sw r_t7 96 r_sp, Sw r_t6 92 r_sp,
     Sw r_t5 88 r_sp, Sw r_t4 84 r_sp, Sw r_t3 80 r_sp, Sw r_t2 76 r_sp, Sw r_t1 72 r_sp, Sw r_t0 68 r_sp,
     Sw r_a3 64 r_sp, Sw r_a2 60 r_sp, Sw r_a1 56 r_sp, Sw r_a0 52 r_sp, Sw r_v1 48 r_sp, Sw r_v0 44 r_sp,
     Sw r_AT 40 r_sp, Sw r_ra 36 r_sp,
     Mfhi r_t0, Mflo r_t1, Sw r_t0 32 r_sp, Sw r_t1 28 r_sp,
     Sw r_k0 24 r_sp, Mfc0 r_t1 c0_status_reg, Sw r_t1 20 r_sp, Mfc0 r_t2 c0_vaddr_reg, Sw r_t2 16 r_sp,
     Sw r_zero 12 r_sp,
     Addi r_a0 r_sp 16]"

definition common_exception :: "instr list" where
  "common_exception = Addi r_sp r_sp (- 164) # save_trapframe"

definition restore_trapframe :: "instr list" where
  "restore_trapframe =
    [Lw r_t0 20 r_sp, Mtc0 r_t0 c0_status_reg,
     Lw r_t1 28 r_sp, Lw r_t0 32 r_sp, Mtlo r_t1, Mthi r_t0,
     Lw r_ra 36 r_sp, Lw r_AT 40 r_sp, Lw r_v0 44 r_sp, Lw r_v1 48 r_sp, Lw r_a0 52 r_sp, Lw r_a1 56 r_sp,
     Lw r_a2 60 r_sp, Lw r_a3 64 r_sp, Lw r_t0 68 r_sp, Lw r_t1 72 r_sp, Lw r_t2 76 r_sp, Lw r_t3 80 r_sp,
     Lw r_t4 84 r_sp, Lw r_t5 88 r_sp, Lw r_t6 92 r_sp, Lw r_t7 96 r_sp, Lw r_s0 100 r_sp, Lw r_s1 104 r_sp,
     Lw r_s2 108 r_sp, Lw r_s3 112 r_sp, Lw r_s4 116 r_sp, Lw r_s5 120 r_sp, Lw r_s6 124 r_sp, Lw r_s7 128 r_sp,
     Lw r_t8 132 r_sp, Lw r_t9 136 r_sp,
     Lw r_gp 148 r_sp, Lw r_s8 156 r_sp, Lw r_k0 160 r_sp, Lw r_sp 152 r_sp]"

text \<open>The return ends with a jump to \<open>k0\<close> and \<open>rfe\<close> in its delay slot.\<close>

definition exception_return :: "processor \<Rightarrow> processor" where
  "exception_return c = (let c1 = exec restore_trapframe c in rfe (c1\<lparr>pc := rd c1 r_k0\<rparr>))"

text \<open>\<open>asm_usermode(tf)\<close> makes the frame at \<open>a0\<close> the top of the stack and returns from it.\<close>

definition asm_usermode :: "processor \<Rightarrow> processor" where
  "asm_usermode c = exception_return (exec [Addi r_sp r_a0 (- 16)] c)"

section \<open>The trap frame\<close>

text \<open>The structure whose layout the code above fixes, at \<open>sp + 16\<close>.\<close>

record trapframe =
  tf_vaddr :: u32
  tf_status :: u32
  tf_cause :: u32
  tf_lo :: u32
  tf_hi :: u32
  tf_ra :: u32
  tf_at :: u32
  tf_v0 :: u32
  tf_v1 :: u32
  tf_a0 :: u32
  tf_a1 :: u32
  tf_a2 :: u32
  tf_a3 :: u32
  tf_t0 :: u32
  tf_t1 :: u32
  tf_t2 :: u32
  tf_t3 :: u32
  tf_t4 :: u32
  tf_t5 :: u32
  tf_t6 :: u32
  tf_t7 :: u32
  tf_s0 :: u32
  tf_s1 :: u32
  tf_s2 :: u32
  tf_s3 :: u32
  tf_s4 :: u32
  tf_s5 :: u32
  tf_s6 :: u32
  tf_s7 :: u32
  tf_t8 :: u32
  tf_t9 :: u32
  tf_k0 :: u32
  tf_k1 :: u32
  tf_gp :: u32
  tf_sp :: u32
  tf_s8 :: u32
  tf_epc :: u32

definition read_tf :: "(u32 \<Rightarrow> byte) \<Rightarrow> u32 \<Rightarrow> trapframe" where
  "read_tf m p =
    \<lparr>tf_vaddr = load_word m p, tf_status = load_word m (p + 4), tf_cause = load_word m (p + 8),
     tf_lo = load_word m (p + 12), tf_hi = load_word m (p + 16), tf_ra = load_word m (p + 20),
     tf_at = load_word m (p + 24), tf_v0 = load_word m (p + 28), tf_v1 = load_word m (p + 32),
     tf_a0 = load_word m (p + 36), tf_a1 = load_word m (p + 40), tf_a2 = load_word m (p + 44),
     tf_a3 = load_word m (p + 48), tf_t0 = load_word m (p + 52), tf_t1 = load_word m (p + 56),
     tf_t2 = load_word m (p + 60), tf_t3 = load_word m (p + 64), tf_t4 = load_word m (p + 68),
     tf_t5 = load_word m (p + 72), tf_t6 = load_word m (p + 76), tf_t7 = load_word m (p + 80),
     tf_s0 = load_word m (p + 84), tf_s1 = load_word m (p + 88), tf_s2 = load_word m (p + 92),
     tf_s3 = load_word m (p + 96), tf_s4 = load_word m (p + 100), tf_s5 = load_word m (p + 104),
     tf_s6 = load_word m (p + 108), tf_s7 = load_word m (p + 112), tf_t8 = load_word m (p + 116),
     tf_t9 = load_word m (p + 120), tf_k0 = load_word m (p + 124), tf_k1 = load_word m (p + 128),
     tf_gp = load_word m (p + 132), tf_sp = load_word m (p + 136), tf_s8 = load_word m (p + 140),
     tf_epc = load_word m (p + 144)\<rparr>"
text \<open>The registers that a frame holds, by number.\<close>

definition tf_reg :: "trapframe \<Rightarrow> reg \<Rightarrow> u32" where
    "tf_reg tf r = [0, tf_at tf, tf_v0 tf, tf_v1 tf, tf_a0 tf, tf_a1 tf, tf_a2 tf, tf_a3 tf, tf_t0
     tf, tf_t1 tf, tf_t2 tf, tf_t3 tf, tf_t4 tf, tf_t5 tf, tf_t6 tf, tf_t7 tf, tf_s0 tf, tf_s1 tf,
     tf_s2 tf, tf_s3 tf, tf_s4 tf, tf_s5 tf, tf_s6 tf, tf_s7 tf, tf_t8 tf, tf_t9 tf, tf_k0 tf, tf_k1
     tf, tf_gp tf, tf_sp tf, tf_s8 tf, tf_ra tf] ! r"

text \<open>The registers that an exception preserves: all but \<open>$0\<close>, \<open>k0\<close> and \<open>k1\<close>.\<close>

definition saved_regs :: "reg list" where
  "saved_regs = [1, 2, 3, 4, 5, 6, 7, 8, 9, 10, 11, 12, 13, 14, 15, 16, 17, 18, 19, 20, 21, 22, 23, 24, 25, 28, 29, 30, 31]"

lemma saved_regs_iff: "r \<in> set saved_regs \<longleftrightarrow> r < 32 \<and> r \<notin> {0, r_k0, r_k1}"
proof -
  have e: "saved_regs = [1..<26] @ [28..<32]" by code_simp
  have "set saved_regs = {1..<26} \<union> {28..<32}" unfolding e set_append set_upt ..
  then show ?thesis by (simp only: Un_iff atLeastLessThan_iff insert_iff empty_iff) arith
qed

section \<open>Running the code\<close>

lemma rd_simps [simp]:
  "rd c 0 = 0" "r \<noteq> 0 \<Longrightarrow> rd (wr d v c) r = (if r = d then v else rd c r)"
  "rd (c\<lparr>mem := m\<rparr>) r = rd c r" "rd (c\<lparr>hi := x\<rparr>) r = rd c r" "rd (c\<lparr>lo := x\<rparr>) r = rd c r"
  "rd (c\<lparr>cp0 := k\<rparr>) r = rd c r" "rd (c\<lparr>pc := x\<rparr>) r = rd c r"
  by (simp_all add: rd_def wr_def)

lemma wr_simps [simp]:
  "mem (wr d v c) = mem c" "hi (wr d v c) = hi c" "lo (wr d v c) = lo c" "cp0 (wr d v c) = cp0 c"
  "kstack (wr d v c) = kstack c" "pc (wr d v c) = pc c"
  by (simp_all add: wr_def)

text \<open>Two words at offsets that differ by at least four bytes, in both directions around the address space, do not overlap.\<close>

lemma load_store_off:
  assumes "4 \<le> i - j" and "4 \<le> j - i"
  shows "load_word (store_word (b + j) w m) (b + i) = load_word m (b + i)"
proof -
  have ne: "i + x \<noteq> j + y" if x: "x \<in> {0, 1, 2, 3}" and y: "y \<in> {0, 1, 2, 3}" for x y :: u32
  proof
    assume "i + x = j + y"
    then have d: "i - j = y - x" "j - i = x - y" by (simp_all add: algebra_simps)
    show False
      using x y assms unfolding d by (auto; simp add: word_le_nat_alt)
  qed
  show ?thesis
    by (rule load_store_other) (use ne in \<open>auto simp: add.assoc\<close>)
qed

lemma load_store_off_same: "load_word (store_word (b + j) w m) (b + j) = w"
  by simp

text \<open>The frame that the entry code leaves at \<open>b + 16\<close>.\<close>

lemma save_trapframe_reads:
  assumes "rd c r_sp = b"
  defines "m \<equiv> mem (exec save_trapframe c)"
  shows "load_word m (b + 16) = cp0 c c0_vaddr_reg" "load_word m (b + 20) = cp0 c c0_status_reg"
    "load_word m (b + 24) = rd c r_k0" "load_word m (b + 28) = lo c" "load_word m (b + 32) = hi c"
    "load_word m (b + 36) = rd c r_ra" "load_word m (b + 40) = rd c r_AT" "load_word m (b + 44) = rd c r_v0"
    "load_word m (b + 48) = rd c r_v1" "load_word m (b + 52) = rd c r_a0" "load_word m (b + 56) = rd c r_a1"
    "load_word m (b + 60) = rd c r_a2" "load_word m (b + 64) = rd c r_a3" "load_word m (b + 68) = rd c r_t0"
    "load_word m (b + 72) = rd c r_t1" "load_word m (b + 76) = rd c r_t2" "load_word m (b + 80) = rd c r_t3"
    "load_word m (b + 84) = rd c r_t4" "load_word m (b + 88) = rd c r_t5" "load_word m (b + 92) = rd c r_t6"
    "load_word m (b + 96) = rd c r_t7" "load_word m (b + 100) = rd c r_s0" "load_word m (b + 104) = rd c r_s1"
    "load_word m (b + 108) = rd c r_s2" "load_word m (b + 112) = rd c r_s3" "load_word m (b + 116) = rd c r_s4"
    "load_word m (b + 120) = rd c r_s5" "load_word m (b + 124) = rd c r_s6" "load_word m (b + 128) = rd c r_s7"
    "load_word m (b + 132) = rd c r_t8" "load_word m (b + 136) = rd c r_t9" "load_word m (b + 140) = rd c r_k0"
    "load_word m (b + 144) = rd c r_k1" "load_word m (b + 148) = rd c r_gp" "load_word m (b + 152) = rd c r_k1"
    "load_word m (b + 156) = rd c r_s8" "load_word m (b + 160) = cp0 c c0_epc_reg"
  unfolding m_def save_trapframe_def using assms(1)
  by (simp_all add: load_store_off)

lemma save_trapframe_frame:
  assumes "rd c r_sp = b"
  shows "rd (exec save_trapframe c) r_sp = b" "rd (exec save_trapframe c) r_a0 = b + 16"
    "cp0 (exec save_trapframe c) = cp0 c" "kstack (exec save_trapframe c) = kstack c"
  using assms by (simp_all add: save_trapframe_def)

text \<open>What the return code makes of a frame.\<close>

lemma restore_trapframe_loads:
  assumes "rd c r_sp = b"
  defines "tf \<equiv> read_tf (mem c) (b + 16)" and "c' \<equiv> exec restore_trapframe c"
  shows "hi c' = tf_hi tf" "lo c' = tf_lo tf" "rd c' r_k0 = tf_epc tf" "cp0 c' = (cp0 c)(c0_status_reg := tf_status tf)"
    "mem c' = mem c" "kstack c' = kstack c" "r < 32 \<Longrightarrow> r \<notin> {0, r_k0, r_k1} \<Longrightarrow> rd c' r = tf_reg tf r"
proof -
  note d = c'_def tf_def restore_trapframe_def read_tf_def add.commute [of b]
  have f: "rd c r_sp = b" by fact
  show "hi c' = tf_hi tf" "lo c' = tf_lo tf" "rd c' r_k0 = tf_epc tf" "cp0 c' = (cp0 c)(c0_status_reg := tf_status tf)"
    "mem c' = mem c" "kstack c' = kstack c"
    by (simp_all add: d f)
  assume r: "r < 32" "r \<notin> {0, r_k0, r_k1}"
  have "list_all (\<lambda>r. rd c' r = tf_reg tf r) saved_regs"
    by (simp add: d f tf_reg_def saved_regs_def)
  then have "\<forall>x \<in> set saved_regs. rd c' x = tf_reg tf x" unfolding list_all_iff .
  moreover have "r \<in> set saved_regs" using r by (simp add: saved_regs_iff)
  ultimately show "rd c' r = tf_reg tf r" by blast
qed

section \<open>Entry and return\<close>

text \<open>The whole entry path, through either vector.\<close>

definition trap_entry :: "machine \<Rightarrow> bool \<Rightarrow> processor \<Rightarrow> processor" where
  "trap_entry M utlb c = exec common_exception (exec (if utlb then utlb_exception M else exception M) c)"

definition from_user :: "machine \<Rightarrow> processor \<Rightarrow> bool" where
  "from_user M c \<longleftrightarrow> cp0 c c0_status_reg AND CST_KUp M \<noteq> 0"

text \<open>The kernel stack pointer on which the frame is built.\<close>

definition entry_sp :: "machine \<Rightarrow> processor \<Rightarrow> u32" where
  "entry_sp M c = (if from_user M c then kstack c else rd c r_sp) - 164"

text \<open>The processor with the frame allocated and not yet written.\<close>

definition at_save :: "machine \<Rightarrow> bool \<Rightarrow> processor \<Rightarrow> processor" where
  "at_save M utlb c = exec [Addi r_sp r_sp (- 164)] (exec (if utlb then utlb_exception M else exception M) c)"

lemma at_save_spec:
  "rd (at_save M u c) r_sp = entry_sp M c" "rd (at_save M u c) r_k1 = rd c r_sp"
  "rd (at_save M u c) r_k0 = (if u then cp0 c c0_cause_reg OR 1 else cp0 c c0_cause_reg)"
  "r \<noteq> 0 \<Longrightarrow> r \<noteq> r_sp \<Longrightarrow> r \<noteq> r_k0 \<Longrightarrow> r \<noteq> r_k1 \<Longrightarrow> rd (at_save M u c) r = rd c r"
  "mem (at_save M u c) = mem c" "hi (at_save M u c) = hi c" "lo (at_save M u c) = lo c" "cp0 (at_save M u c) = cp0 c"
  "kstack (at_save M u c) = kstack c"
  by (simp_all add: at_save_def utlb_exception_def exception_def entry_sp_def from_user_def)

lemma trap_entry_eq: "trap_entry M u c = exec save_trapframe (at_save M u c)"
  by (simp add: trap_entry_def common_exception_def at_save_def)

lemma trap_entry_regs:
  "rd (trap_entry M u c) r_sp = entry_sp M c" "rd (trap_entry M u c) r_a0 = entry_sp M c + 16"
  "cp0 (trap_entry M u c) = cp0 c" "kstack (trap_entry M u c) = kstack c"
  unfolding trap_entry_eq using save_trapframe_frame [OF at_save_spec(1) [of M u c]] by (simp_all add: at_save_spec)

lemma trap_entry_frame:
  fixes M u c
  defines "tf \<equiv> read_tf (mem (trap_entry M u c)) (entry_sp M c + 16)"
  shows "tf_epc tf = cp0 c c0_epc_reg" "tf_status tf = cp0 c c0_status_reg" "tf_vaddr tf = cp0 c c0_vaddr_reg"
    "tf_cause tf = (if u then cp0 c c0_cause_reg OR 1 else cp0 c c0_cause_reg)" "tf_hi tf = hi c" "tf_lo tf = lo c"
    "r < 32 \<Longrightarrow> r \<notin> {0, r_k0, r_k1} \<Longrightarrow> tf_reg tf r = rd c r"
proof -
  let ?b = "entry_sp M c"
  note rds = save_trapframe_reads [OF at_save_spec(1) [of M u c], unfolded trap_entry_eq [symmetric]]
  note d = tf_def read_tf_def add.assoc rds at_save_spec
  show "tf_epc tf = cp0 c c0_epc_reg" "tf_status tf = cp0 c c0_status_reg" "tf_vaddr tf = cp0 c c0_vaddr_reg"
    "tf_cause tf = (if u then cp0 c c0_cause_reg OR 1 else cp0 c c0_cause_reg)" "tf_hi tf = hi c" "tf_lo tf = lo c"
    by (simp_all add: d)
  assume r: "r < 32" "r \<notin> {0, r_k0, r_k1}"
  have "list_all (\<lambda>r. tf_reg tf r = rd c r) saved_regs"
    by (simp add: d tf_reg_def saved_regs_def)
  then have "\<forall>x \<in> set saved_regs. tf_reg tf x = rd c x" unfolding list_all_iff .
  moreover have "r \<in> set saved_regs" using r by (simp add: saved_regs_iff)
  ultimately show "tf_reg tf r = rd c r" by blast
qed

lemma exception_return_loads:
  assumes "rd c r_sp = b"
  defines "tf \<equiv> read_tf (mem c) (b + 16)" and "c' \<equiv> exception_return c"
  shows "pc c' = tf_epc tf" "hi c' = tf_hi tf" "lo c' = tf_lo tf"
    "cp0 c' c0_status_reg = (tf_status tf AND NOT 15) OR (drop_bit 2 (tf_status tf) AND 15)"
    "r < 32 \<Longrightarrow> r \<notin> {0, r_k0, r_k1} \<Longrightarrow> rd c' r = tf_reg tf r"
  unfolding c'_def tf_def exception_return_def rfe_def Let_def
  using restore_trapframe_loads [OF assms(1)] by simp_all

text \<open>
  C13. Exceptions are transparent. Through either vector, from user or kernel mode, a handler that leaves the
  trap frame alone and returns on the same stack gives back to the interrupted code all of its registers
  (except \<open>k0\<close> and \<open>k1\<close>, which belong to the kernel), the multiplier registers and its position, and pops
  the mode bits of the status register. The frame lies on the current thread's kernel stack when the
  exception came from user mode, below the interrupted stack pointer otherwise.
\<close>

theorem exception_transparent:
  assumes "rd c2 r_sp = rd (trap_entry M u c) r_sp"
    and "read_tf (mem c2) (rd c2 r_sp + 16) = read_tf (mem (trap_entry M u c)) (rd (trap_entry M u c) r_a0)"
  shows "(\<forall>r < 32. r \<notin> {0, r_k0, r_k1} \<longrightarrow> rd (exception_return c2) r = rd c r)
    \<and> hi (exception_return c2) = hi c \<and> lo (exception_return c2) = lo c
    \<and> pc (exception_return c2) = cp0 c c0_epc_reg
    \<and> cp0 (exception_return c2) c0_status_reg
        = (cp0 c c0_status_reg AND NOT 15) OR (drop_bit 2 (cp0 c c0_status_reg) AND 15)
    \<and> rd (trap_entry M u c) r_sp = (if from_user M c then kstack c else rd c r_sp) - 164"
proof -
  have tf: "read_tf (mem c2) (rd c2 r_sp + 16) = read_tf (mem (trap_entry M u c)) (entry_sp M c + 16)"
    using assms(2) by (simp only: trap_entry_regs)
  show ?thesis
    using exception_return_loads [OF refl, where c = c2, unfolded tf] trap_entry_frame [where M = M and u = u and c = c]
    by (simp add: trap_entry_regs) (simp add: entry_sp_def)
qed

definition cpu_example :: processor where
  "cpu_example = \<lparr>gpr = (\<lambda>r. of_nat r * 3), hi = 7, lo = 8,
     cp0 = (\<lambda>k. case k of c0_status_reg \<Rightarrow> 0xff0c | c0_cause_reg \<Rightarrow> 32 | c0_epc_reg \<Rightarrow> 0x400000 | c0_vaddr_reg \<Rightarrow> 0),
     mem = (\<lambda>_. 0), kstack = 0x80005000, pc = 0x80000080\<rparr>"

theorem exception_transparent_witness:
  "rd (exception_return (trap_entry sys161 False cpu_example)) r_v0 = 6
   \<and> pc (exception_return (trap_entry sys161 False cpu_example)) = 0x400000
   \<and> cp0 (exception_return (trap_entry sys161 False cpu_example)) c0_status_reg = 0xff03
   \<and> rd (trap_entry sys161 False cpu_example) r_sp = 0x80004f5c"
proof -
  have "read_tf (mem (trap_entry sys161 False cpu_example)) (rd (trap_entry sys161 False cpu_example) r_sp + 16)
      = read_tf (mem (trap_entry sys161 False cpu_example)) (rd (trap_entry sys161 False cpu_example) r_a0)"
    by (simp add: trap_entry_regs)
  from exception_transparent [OF refl this] show ?thesis
    by (simp add: cpu_example_def rd_def from_user_def) (simp add: sys161_def)
qed

end
