(* ===== verification/Tlb.thy ===== *)
theory Tlb
  imports Exception
begin

text \<open>
  The rest of \<^verbatim>\<open>kern/mips/tlb_mips1.S\<close>: \<open>TLB_Random\<close>, \<open>TLB_Probe\<close> and the start-up loop \<open>TLB_Reset\<close>, on the
  matching rule of the MIPS-I translation buffer. \<open>TLB_Reset\<close> starts from arbitrary contents; it is shown
  to finish and to leave no duplicate entries.
\<close>

section \<open>Operations\<close>

text \<open>
  An entry matches when the virtual page is the same and the entry is global or has the same address-space
  number.
\<close>

definition tlb_matches :: "u32 \<Rightarrow> u32 \<times> u32 \<Rightarrow> bool" where
  "tlb_matches ehi e \<longleftrightarrow> fst e AND 0xfffff000 = ehi AND 0xfffff000
     \<and> (snd e AND 0x100 \<noteq> 0 \<or> fst e AND 0xfc0 = ehi AND 0xfc0)"

text \<open>The instruction \<open>tlbp\<close>.\<close>

definition tlbp :: "machine \<Rightarrow> u32 \<Rightarrow> ('h, 'z) vm_scheme \<Rightarrow> nat option" where
  "tlbp M ehi s = find (\<lambda>i. tlb_matches ehi (tlb s i)) [0..<NUM_TLB M]"

text \<open>\<open>tlbwr\<close> writes the slot \<open>i\<close> that the processor's random register names.\<close>

definition TLB_Random :: "nat \<Rightarrow> u32 \<Rightarrow> u32 \<Rightarrow> ('h, 'z) vm_scheme \<Rightarrow> ('h, 'z) vm_scheme" where
  "TLB_Random i ehi elo s = s\<lparr>tlb := (tlb s)(i := (ehi, elo))\<rparr>"

definition TLB_Probe :: "machine \<Rightarrow> u32 \<Rightarrow> u32 \<Rightarrow> ('h, 'z) vm_scheme \<Rightarrow> int" where
  "TLB_Probe M ehi elo s = (case tlbp M ehi s of None \<Rightarrow> - 1 | Some i \<Rightarrow> int i)"

text \<open>
  The loop of \<open>TLB_Reset\<close>: \<open>i\<close> is the slot to fill, \<open>t1\<close> the next candidate address, which moves on
  whether or not the probe found it (delay slot). \<open>n\<close> bounds the iterations.
\<close>

primrec reset_loop ::
  "machine \<Rightarrow> nat \<Rightarrow> nat \<Rightarrow> u32 \<Rightarrow> ('h, 'z) vm_scheme \<Rightarrow> ('h, 'z) vm_scheme run" where
  "reset_loop M 0 i t1 s = Inl OutOfFuel"
| "reset_loop M (Suc n) i t1 s =
     (case tlbp M t1 s of
        Some _ \<Rightarrow> reset_loop M n i (t1 + 0x1000) s
      | None \<Rightarrow> let s' = TLB_Write t1 0 i s
                in if Suc i \<noteq> 64 then reset_loop M n (Suc i) (t1 + 0x1000) s' else Inr s')"

text \<open>64 slots to fill and at most 64 candidates that are already there: 128 iterations are enough.\<close>

definition TLB_Reset :: "machine \<Rightarrow> ('h, 'z) vm_scheme \<Rightarrow> ('h, 'z) vm_scheme run" where
  "TLB_Reset M s = reset_loop M 128 0 0x81000000 s"

section \<open>The start-up loop\<close>

definition reset_page :: "nat \<Rightarrow> u32" where
  "reset_page k = 0x81000000 + of_nat k * 0x1000"

lemma reset_page_Suc: "reset_page k + 0x1000 = reset_page (Suc k)"
  by (simp add: reset_page_def algebra_simps)

lemma reset_page_take_bit: "take_bit 12 (reset_page k) = 0"
proof -
  have "reset_page k = push_bit 12 (0x81000 + of_nat k)"
    by (simp add: reset_page_def push_bit_eq_mult algebra_simps)
  then show ?thesis by (simp add: take_bit_push_bit)
qed

lemma reset_page_bits:
  "reset_page k AND 0xfffff000 = reset_page k" "reset_page k AND 0xfc0 = 0"
proof -
  have "reset_page k AND NOT (mask 12) = reset_page k"
    by (simp only: and_not_mask_iff reset_page_take_bit)
  moreover have "(0xfffff000 :: u32) = NOT (mask 12)" by (simp add: mask_eq_exp_minus_1)
  ultimately show "reset_page k AND 0xfffff000 = reset_page k" by simp
  have "reset_page k AND mask 12 = 0"
    using reset_page_take_bit [of k] by (simp only: take_bit_eq_mask)
  then have "reset_page k AND (mask 12 AND 0xfc0) = 0" by (simp only: and.assoc [symmetric]) simp
  then show "reset_page k AND 0xfc0 = 0" by (simp add: mask_eq_exp_minus_1)
qed

lemma reset_page_inj: "k < 4096 \<Longrightarrow> k' < 4096 \<Longrightarrow> reset_page k = reset_page k' \<Longrightarrow> k = k'"
proof -
  assume k: "k < 4096" "k' < 4096" and "reset_page k = reset_page k'"
  then have "(of_nat (k * 4096) :: u32) = of_nat (k' * 4096)" by (simp add: reset_page_def)
  then have "unat (of_nat (k * 4096) :: u32) = unat (of_nat (k' * 4096) :: u32)" by simp
  moreover have "unat (of_nat (j * 4096) :: u32) = j * 4096" if "j < 4096" for j
    using that by (subst unat_of_nat) simp
  ultimately show ?thesis using k by (simp del: of_nat_mult)
qed

lemma matches_reset_page:
  "tlb_matches (reset_page k) e \<Longrightarrow> fst e AND 0xfffff000 = reset_page k"
  "tlb_matches (reset_page k) (reset_page k', 0) \<longleftrightarrow> reset_page k' = reset_page k"
  by (simp_all add: tlb_matches_def reset_page_bits)

text \<open>The slots that hold a page at or after candidate \<open>k\<close>: the only ones that can stop a probe.\<close>

definition blockers :: "nat \<Rightarrow> (nat \<Rightarrow> u32 \<times> u32) \<Rightarrow> nat set" where
  "blockers k t = {j. j < 64 \<and> (\<exists>k'. k \<le> k' \<and> k' < 4096 \<and> tlb_matches (reset_page k') (t j))}"

lemma finite_blockers [simp]: "finite (blockers k t)"
  by (rule finite_subset [of _ "{..<64}"]) (auto simp: blockers_def)

lemma card_blockers_le: "card (blockers k t) \<le> 64"
proof -
  have "card (blockers k t) \<le> card {..<64::nat}" by (rule card_mono) (auto simp: blockers_def)
  then show ?thesis by simp
qed

lemma blocked_decreases:
  assumes "tlb_matches (reset_page k) (t j)" and "j < 64" and "k < 4096"
  shows "card (blockers (Suc k) t) < card (blockers k t)"
proof (rule psubset_card_mono)
  have "j \<in> blockers k t" using assms by (auto simp: blockers_def)
  moreover have "j \<notin> blockers (Suc k) t"
  proof
    assume "j \<in> blockers (Suc k) t"
    then obtain k' where k': "Suc k \<le> k'" "k' < 4096" "tlb_matches (reset_page k') (t j)" by (auto simp: blockers_def)
    have "reset_page k = reset_page k'" by (simp flip: matches_reset_page(1) [OF assms(1)] matches_reset_page(1) [OF k'(3)])
    with reset_page_inj [OF assms(3) k'(2)] k'(1) show False by simp
  qed
  moreover have "blockers (Suc k) t \<subseteq> blockers k t"
    unfolding blockers_def by (auto intro: Suc_leD)
  ultimately show "blockers (Suc k) t \<subset> blockers k t" by blast
qed simp

lemma written_decreases:
  assumes "k < 4096"
  shows "card (blockers (Suc k) (t(i := (reset_page k, 0)))) \<le> card (blockers k t)"
proof (rule card_mono)
  show "blockers (Suc k) (t(i := (reset_page k, 0))) \<subseteq> blockers k t"
  proof
    fix j assume "j \<in> blockers (Suc k) (t(i := (reset_page k, 0)))"
    then obtain k' where j: "j < 64" "Suc k \<le> k'" "k' < 4096" "tlb_matches (reset_page k') ((t(i := (reset_page k, 0))) j)"
      by (auto simp: blockers_def)
    have "j \<noteq> i" using j(2,4) reset_page_inj [OF assms j(3)] by (auto simp: matches_reset_page)
    with j have "tlb_matches (reset_page k') (t j)" "k \<le> k'" by auto
    with j show "j \<in> blockers k t" unfolding blockers_def by blast
  qed
qed simp

text \<open>The slots filled so far hold different pages below candidate \<open>k\<close>, not valid.\<close>

definition reset_ok :: "nat \<Rightarrow> nat \<Rightarrow> (nat \<Rightarrow> u32 \<times> u32) \<Rightarrow> bool" where
  "reset_ok i k t \<longleftrightarrow> (\<exists>f. (\<forall>a<i. f a < k \<and> t a = (reset_page (f a), 0)) \<and> inj_on f {..<i})"

lemma reset_ok_mono: "reset_ok i k t \<Longrightarrow> k \<le> k' \<Longrightarrow> reset_ok i k' t"
  unfolding reset_ok_def by (meson order_less_le_trans)

lemma reset_ok_write:
  assumes "reset_ok i k t"
  shows "reset_ok (Suc i) (Suc k) (t(i := (reset_page k, 0)))"
proof -
  obtain f where f: "\<forall>a<i. f a < k \<and> t a = (reset_page (f a), 0)" "inj_on f {..<i}"
    using assms by (auto simp: reset_ok_def)
  have "inj_on (f(i := k)) {..<Suc i}"
    using f by (auto simp: inj_on_def less_Suc_eq)
  then show ?thesis
    unfolding reset_ok_def using f(1) by (intro exI [of _ "f(i := k)"]) (auto simp: less_Suc_eq)
qed

lemma tlbp_cases:
  assumes "NUM_TLB M = 64" and "tlbp M ehi s = Some j"
  shows "j < 64 \<and> tlb_matches ehi (tlb s j)"
  using assms by (auto simp: tlbp_def find_Some_iff)

lemma reset_loop_finishes:
  assumes "NUM_TLB M = 64" and "i < 64" and "64 - i + card (blockers k (tlb s)) \<le> n" and "k + n \<le> 4096"
    and "reset_ok i k (tlb s)"
  shows "\<exists>t. reset_loop M n i (reset_page k) s = Inr (s\<lparr>tlb := t\<rparr>) \<and> reset_ok 64 4096 t \<and> (\<forall>a\<ge>64. t a = tlb s a)"
  using assms(2-)
proof (induction n arbitrary: i k s)
  case 0
  then show ?case by simp
next
  case (Suc n)
  show ?case
  proof (cases "tlbp M (reset_page k) s")
    case (Some j)
    from tlbp_cases [OF assms(1) Some] have "card (blockers (Suc k) (tlb s)) < card (blockers k (tlb s))"
      using Suc.prems by (intro blocked_decreases [where j = j]) auto
    then have "64 - i + card (blockers (Suc k) (tlb s)) \<le> n" "Suc k + n \<le> 4096" "reset_ok i (Suc k) (tlb s)"
      using Suc.prems by (auto intro: reset_ok_mono)
    with Some show ?thesis using Suc.IH [of i "Suc k" s] Suc.prems(1) by (simp add: reset_page_Suc)
  next
    case None
    let ?t = "(tlb s)(i := (reset_page k, 0))"
    have ok: "reset_ok (Suc i) (Suc k) ?t" by (rule reset_ok_write) (rule Suc.prems)
    have c: "card (blockers (Suc k) ?t) \<le> card (blockers k (tlb s))"
      using Suc.prems by (intro written_decreases) auto
    show ?thesis
    proof (cases "Suc i = 64")
      case True
      with ok None Suc.prems show ?thesis
        by (auto simp: TLB_Write_def intro!: exI [of _ ?t] intro: reset_ok_mono)
    next
      case False
      let ?s = "s\<lparr>tlb := ?t\<rparr>"
      have t: "tlb ?s = ?t" by simp
      have "Suc i < 64" "64 - Suc i + card (blockers (Suc k) (tlb ?s)) \<le> n" "Suc k + n \<le> 4096" "reset_ok (Suc i) (Suc k) (tlb ?s)"
        unfolding t using Suc.prems c ok False by linarith+
      from Suc.IH [OF this] obtain t where
        "reset_loop M n (Suc i) (reset_page (Suc k)) ?s = Inr (?s\<lparr>tlb := t\<rparr>)" "reset_ok 64 4096 t" "\<forall>a\<ge>64. t a = tlb ?s a"
        by blast
      with None False Suc.prems show ?thesis by (auto simp: TLB_Write_def reset_page_Suc)
    qed
  qed
qed

lemma TLB_Reset_terminates:
  assumes "NUM_TLB M = 64"
  shows "\<exists>t. TLB_Reset M s = Inr (s\<lparr>tlb := t\<rparr>) \<and> (\<forall>a<64. snd (t a) = 0)
    \<and> (\<forall>a<64. \<forall>b<64. a \<noteq> b \<longrightarrow> \<not> tlb_matches (fst (t a)) (t b))"
proof -
  have "64 - 0 + card (blockers 0 (tlb s)) \<le> 128" using card_blockers_le [of 0 "tlb s"] by simp
  from reset_loop_finishes [OF assms _ this] obtain t where
    t: "TLB_Reset M s = Inr (s\<lparr>tlb := t\<rparr>)" "reset_ok 64 4096 t"
    by (auto simp: TLB_Reset_def reset_page_def reset_ok_def)
  then obtain f where f: "\<forall>a<64. f a < 4096 \<and> t a = (reset_page (f a), 0)" "inj_on f {..<64}"
    by (auto simp: reset_ok_def)
  have "\<not> tlb_matches (fst (t a)) (t b)" if "a < 64" "b < 64" "a \<noteq> b" for a b
    using that f reset_page_inj [of "f b" "f a"] by (auto simp: matches_reset_page inj_on_def)
  with t f show ?thesis by auto
qed

text \<open>
  C31. Whatever the translation buffer holds at power-on, \<open>TLB_Reset\<close> finishes, and afterwards no entry is
  valid and no two entries match the same address, so that no lookup can ever find duplicates. Nothing
  but the buffer changes.
\<close>

theorem TLB_Reset_no_duplicates:
  assumes "NUM_TLB M = 64"
  shows "\<exists>t. TLB_Reset M s = Inr (s\<lparr>tlb := t\<rparr>) \<and> (\<forall>a<64. snd (t a) = 0)
    \<and> (\<forall>a<64. \<forall>b<64. a \<noteq> b \<longrightarrow> \<not> tlb_matches (fst (t a)) (t b))"
  by (rule TLB_Reset_terminates [OF assms])

theorem TLB_Reset_no_duplicates_witness:
  "\<exists>t. TLB_Reset sys161 vm_example = Inr (vm_example\<lparr>tlb := t\<rparr>) \<and> \<not> tlb_matches (fst (t 0)) (t 63)"
proof -
  have "NUM_TLB sys161 = 64" by (simp add: sys161_def)
  from TLB_Reset_no_duplicates [OF this, of vm_example] obtain t where
    "TLB_Reset sys161 vm_example = Inr (vm_example\<lparr>tlb := t\<rparr>)"
    "\<forall>a<64. \<forall>b<64. a \<noteq> b \<longrightarrow> \<not> tlb_matches (fst (t a)) (t b)" by blast
  then show ?thesis by auto
qed

end
