(* ===== verification/Boot.thy ===== *)
theory Boot
  imports Tlb
begin

text \<open>
  From power-on to the kernel menu and back: the entry code \<^verbatim>\<open>kern/mips/start.S\<close>, the bus interface
  \<^verbatim>\<open>kern/mips/lamebus_mips.c\<close>, and \<open>boot\<close>, \<open>shutdown\<close> and \<open>sys_reboot\<close> of \<^verbatim>\<open>kern/main/main.c\<close>.
\<close>

section \<open>What the devices and the file system layer do\<close>

text \<open>
  The bus driver, the device layer and the VFS are not in the repository: the calls the code makes are the
  fields of a parameter record. \<open>lamebus_poweroff\<close> gives \<open>None\<close> when the power goes off.
\<close>

record ('q, 'a, 'h) io = "('q, 'a, 'h) sys" +
  lamebus :: ptr
  console :: "byte list"   \<comment> \<open>what user programs have printed\<close>

record 's devices =
  lamebus_init :: "'s \<Rightarrow> ptr \<times> 's"
  autoconf_lamebus :: "ptr \<Rightarrow> 's \<Rightarrow> 's run"
  lamebus_poweroff :: "ptr \<Rightarrow> 's \<Rightarrow> 's option"
  lamebus_ramsize :: "'s \<Rightarrow> u32"
  lamebus_interrupt :: "ptr \<Rightarrow> 's \<Rightarrow> 's outcome run"
  bus_load :: "u32 \<Rightarrow> 's \<Rightarrow> u32 \<times> 's"
  bus_store :: "u32 \<Rightarrow> u32 \<Rightarrow> 's \<Rightarrow> 's"
  dev_bootstrap :: "('s \<Rightarrow> 's run) \<Rightarrow> 's \<Rightarrow> 's run"
  vfs_bootstrap :: "'s \<Rightarrow> 's run"
  kprintf_bootstrap :: "'s \<Rightarrow> 's run"
  vfs_setbootfs :: "string \<Rightarrow> 's \<Rightarrow> (int \<times> 's) run"
  vfs_clearbootfs :: "'s \<Rightarrow> 's run"
  vfs_clearcurdir :: "'s \<Rightarrow> (int \<times> 's) run"
  vfs_unmountall :: "'s \<Rightarrow> (int \<times> 's) run"

section \<open>The bus\<close>

definition machdep_dev_bootstrap ::
  "machine \<Rightarrow> ('q, 'a, 'h, 'z) io_scheme devices \<Rightarrow> ('q, 'a, 'h, 'z) io_scheme \<Rightarrow> ('q, 'a, 'h, 'z) io_scheme run" where
  "machdep_dev_bootstrap M D s =
     kassert (curspl s > 0) ''curspl>0'' (
     let (bus, s1) = lamebus_init D s;
         s2 = s1\<lparr>lamebus := bus\<rparr>;
         s3 = snd (spl0 M s2)
     in autoconf_lamebus D (lamebus s3) s3)"

definition lamebus_map_area :: "machine \<Rightarrow> ptr \<Rightarrow> int \<Rightarrow> u32 \<Rightarrow> u32 run" where
  "lamebus_map_area M bus slot offset =
     kassert (slot \<ge> 0 \<and> slot < LB_NSLOTS M) ''slot>=0 && slot<LB_NSLOTS'' (
     Inr (LB_BASEADDR M + word_of_int slot * LB_SLOT_SIZE M + offset))"

definition lamebus_read_register ::
  "machine \<Rightarrow> 's devices \<Rightarrow> ptr \<Rightarrow> int \<Rightarrow> u32 \<Rightarrow> 's \<Rightarrow> (u32 \<times> 's) run" where
  "lamebus_read_register M D bus slot offset s =
     bnd (lamebus_map_area M bus slot offset) (\<lambda>p. Inr (bus_load D p s))"

definition lamebus_write_register ::
  "machine \<Rightarrow> 's devices \<Rightarrow> ptr \<Rightarrow> int \<Rightarrow> u32 \<Rightarrow> u32 \<Rightarrow> 's \<Rightarrow> 's run" where
  "lamebus_write_register M D bus slot offset val s =
     bnd (lamebus_map_area M bus slot offset) (\<lambda>p. Inr (bus_store D p val s))"

definition md_poweroff :: "('q, 'a, 'h, 'z) io_scheme devices \<Rightarrow> ('q, 'a, 'h, 'z) io_scheme \<Rightarrow> ('q, 'a, 'h, 'z) io_scheme option" where
  "md_poweroff D s = lamebus_poweroff D (lamebus s) s"

definition md_reboot :: "('q, 'a, 'h, 'z) io_scheme devices \<Rightarrow> ('q, 'a, 'h, 'z) io_scheme \<Rightarrow> ('q, 'a, 'h, 'z) io_scheme option" where
  "md_reboot D s = md_poweroff D s"

definition md_halt :: "machine \<Rightarrow> ('q, 'a, 'h, 'z) io_scheme \<Rightarrow> ('q, 'a, 'h, 'z) io_scheme" where
  "md_halt M s = cpu_halt M s"

definition md_panic :: "('q, 'a, 'h, 'z) io_scheme devices \<Rightarrow> ('q, 'a, 'h, 'z) io_scheme \<Rightarrow> ('q, 'a, 'h, 'z) io_scheme option" where
  "md_panic D s = md_poweroff D s"

definition mips_ramsize :: "'s devices \<Rightarrow> 's \<Rightarrow> u32" where
  "mips_ramsize D s = lamebus_ramsize D s"

definition mips_lamebus_interrupt ::
  "('q, 'a, 'h, 'z) io_scheme devices \<Rightarrow> ('q, 'a, 'h, 'z) io_scheme \<Rightarrow> ('q, 'a, 'h, 'z) io_scheme outcome run" where
  "mips_lamebus_interrupt D s = lamebus_interrupt D (lamebus s) s"

section \<open>Entry\<close>

text \<open>Where the linker placed the end of the kernel image and the code of the exception vectors.\<close>

record image =
  image_end :: u32
  utlb_begin :: u32
  utlb_end :: u32
  exception_begin :: u32
  exception_end :: u32

primrec write_bytes :: "u32 \<Rightarrow> byte list \<Rightarrow> (u32 \<Rightarrow> byte) \<Rightarrow> (u32 \<Rightarrow> byte)" where
  "write_bytes p [] m = m"
| "write_bytes p (b # bs) m = write_bytes (p + 1) bs (m(p := b))"

text \<open>The first page boundary after the boot string, and the page above it for the first stack.\<close>

definition boot_stack_top :: "u32 \<Rightarrow> u32 \<Rightarrow> u32" where
  "boot_stack_top s0 v0 = ((s0 + v0 + 1 + 4095) AND 0xfffff000) + 4096"

text \<open>\<^verbatim>\<open>cache_mips1.S\<close>: the routine returns at once, since the simulated machine has no caches.\<close>

definition mips_flushicache :: "'s \<Rightarrow> 's" where "mips_flushicache s = s"

text \<open>
  \<open>__start\<close> up to the call of \<open>kmain\<close>; \<open>bs\<close> is the boot string (without its null) to which \<open>a0\<close> points, so
  that \<open>strcpy\<close> writes it and a null at \<open>_end\<close> and \<open>strlen\<close> returns its length.
\<close>

definition start_code ::
  "machine \<Rightarrow> image \<Rightarrow> byte list \<Rightarrow> ('q, 'a, 'h, 'z) kern_scheme \<Rightarrow> ('q, 'a, 'h, 'z) kern_scheme run" where
  "start_code M I bs s =
     (let sp0 = R_sp (regs s) - 20;
          m0 = store_word (sp0 + 16) (R_ra (regs s)) (kmem s);
          m1 = write_bytes (image_end I) (bs @ [0]) m0;
          t0 = boot_stack_top (image_end I) (of_nat (length bs));
          sp1 = t0 - 20;
          m2 = store_word (sp1 + 16) 0 m1;
          m3 = memmove 0x80000000 (utlb_begin I) (utlb_end I - utlb_begin I) m2;
          m4 = memmove 0x80000080 (exception_begin I) (exception_end I - exception_begin I) m3;
          s1 = s\<lparr>kmem := m4, curkstack := t0, firstfree := t0,
                 regs := (regs s)\<lparr>R_s0 := image_end I, R_sp := sp1, R_a0 := image_end I\<rparr>\<rparr>
      in bnd (TLB_Reset M (mips_flushicache s1)) (\<lambda>s2. Inr (s2\<lparr>c0_status := CST_IRQMASK M\<rparr>)))"

section \<open>Boot and shutdown\<close>

definition boot ::
  "('q, 'a, 'h) klib \<Rightarrow> machine \<Rightarrow> ('q, 'a, 'h, 'z) io_scheme devices \<Rightarrow> ('q, 'a, 'h, 'z) io_scheme
     \<Rightarrow> ('q, 'a, 'h, 'z) io_scheme run" where
  "boot L M D s =
     bnd (scheduler_bootstrap L (ram_bootstrap M (mips_ramsize D s) s)) (\<lambda>s1.
     bnd (thread_bootstrap L M s1) (\<lambda>(me, s2).
     bnd (vfs_bootstrap D s2) (\<lambda>s3.
     bnd (dev_bootstrap D (machdep_dev_bootstrap M D) s3) (\<lambda>s4.
     bnd (kprintf_bootstrap D (vm_bootstrap s4)) (\<lambda>s5.
     bnd (vfs_setbootfs D ''emu0'' s5) (\<lambda>(err, s6). Inr s6))))))"

definition shutdown ::
  "('q, 'a, 'h) klib \<Rightarrow> machine \<Rightarrow> ('q, 'a, 'h, 'z) io_scheme devices \<Rightarrow> nat \<Rightarrow> ('q, 'a, 'h, 'z) io_scheme
     \<Rightarrow> ('q, 'a, 'h, 'z) io_scheme run" where
  "shutdown L M D fuel s =
     bnd (vfs_clearbootfs D s) (\<lambda>s1.
     bnd (vfs_clearcurdir D s1) (\<lambda>(_, s2).
     bnd (vfs_unmountall D s2) (\<lambda>(_, s3).
     bnd (scheduler_shutdown L fuel (snd (splhigh M s3))) (thread_shutdown L))))"

definition RB_REBOOT :: int where "RB_REBOOT = 0"
definition RB_HALT :: int where "RB_HALT = 1"
definition RB_POWEROFF :: int where "RB_POWEROFF = 2"

lemmas rb_defs = RB_REBOOT_def RB_HALT_def RB_POWEROFF_def

text \<open>
  How \<open>sys_reboot\<close> ends: the power is off, the processor waits forever, or the call returns an error, each with the state at that moment.
\<close>

datatype 's power = PowerOff 's | Halted 's | StillOn int 's

definition sys_reboot ::
  "('q, 'a, 'h) klib \<Rightarrow> machine \<Rightarrow> ('q, 'a, 'h, 'z) io_scheme devices \<Rightarrow> nat \<Rightarrow> int \<Rightarrow> ('q, 'a, 'h, 'z) io_scheme
     \<Rightarrow> ('q, 'a, 'h, 'z) io_scheme power run" where
  "sys_reboot L M D fuel code s =
     (if code \<noteq> RB_REBOOT \<and> code \<noteq> RB_HALT \<and> code \<noteq> RB_POWEROFF then Inr (StillOn EINVAL s) else
      bnd (shutdown L M D fuel s) (\<lambda>s1.
      if code = RB_HALT then Inr (Halted (md_halt M s1))
      else case (if code = RB_REBOOT then md_reboot D s1 else md_poweroff D s1) of
             None \<Rightarrow> Inr (PowerOff s1)
           | Some s2 \<Rightarrow> Inl (Panic ''reboot operation failed'')))"

section \<open>The memory map after entry\<close>

lemma write_bytes_at:
  "length bs < 2 ^ 32 \<Longrightarrow> write_bytes p bs m a = (if unat (a - p) < length bs then bs ! unat (a - p) else m a)"
proof (induction bs arbitrary: p m)
  case Nil
  then show ?case by simp
next
  case (Cons b bs)
  show ?case
  proof (cases "a = p")
    case True
    have "unat (a - (p + 1)) = 2 ^ 32 - 1" using True by (simp add: unsigned_minus_1_eq_mask mask_eq_exp_minus_1)
    then show ?thesis using Cons True by (simp add: Cons.IH)
  next
    case False
    then have "a - p \<noteq> 0" by simp
    then have "unat (a - p) = Suc (unat (a - p - 1))" by (simp add: unat_minus_one unat_gt_0 flip: Suc_diff_1)
    then show ?thesis using Cons False by (simp add: algebra_simps)
  qed
qed

lemma store_word_elsewhere:
  assumes "\<not> (unat a \<le> unat x \<and> unat x < unat a + 4)" and "unat a + 4 \<le> 2 ^ 32"
  shows "store_word a w m x = m x"
proof -
  have "unat (a + i) = unat a + unat i" if "i \<in> {1, 2, 3}" for i
    using assms(2) that by (intro unat_add_no_wrap) auto
  then have "x \<noteq> a + i" if "i \<in> {1, 2, 3}" for i
    using assms(1) that by fastforce
  moreover have "x \<noteq> a" using assms(1) by auto
  ultimately show ?thesis by (simp add: store_word_def)
qed

lemma memmove_at:
  assumes "unat d + unat n \<le> 2 ^ 32"
  shows "memmove d src n m a = (if unat d \<le> unat a \<and> unat a < unat d + unat n then m (src + (a - d)) else m a)"
proof -
  have "a - d < n \<longleftrightarrow> unat d \<le> unat a \<and> unat a < unat d + unat n"
    using assms by (auto simp: word_less_nat_alt unat_sub_if' unat_arith_simps split: if_splits)
  then show ?thesis by (simp add: memmove_def)
qed

lemma memmove_outside:
  assumes "unat d + unat n \<le> unat a" and "unat d + unat n \<le> 2 ^ 32"
  shows "memmove d src n m a = m a"
  using assms by (simp add: memmove_at)

lemma memmove_below:
  assumes "unat a < unat d" and "unat d + unat n \<le> 2 ^ 32"
  shows "memmove d src n m a = m a"
  using assms by (simp add: memmove_at)

lemma memmove_inside:
  assumes "x < unat n"
  shows "memmove d src n m (d + of_nat x) = m (src + of_nat x)"
proof -
  have "x < 2 ^ 32" using assms u32_bound [of n] by linarith
  then have "(of_nat x :: u32) < n" using assms by (simp add: word_less_nat_alt unat_of_nat)
  then show ?thesis by (simp add: memmove_def)
qed

lemma boot_stack_top_bounds:
  assumes "unat e + n + 8192 < 2 ^ 32"
  defines "t \<equiv> unat (boot_stack_top e (of_nat n))"
  shows "unat e + n + 1 + 4096 \<le> t" "t \<le> unat e + n + 8192" "4096 dvd t"
proof -
  let ?x = "e + of_nat n + 1 + 4095 :: u32" and ?u = "unat e + n + 4096"
  have "?x = e + of_nat (n + 4096)" by simp
  moreover have n: "unat (of_nat (n + 4096) :: u32) = n + 4096" using assms(1) by (subst unat_of_nat) simp
  ultimately have x: "unat ?x = ?u" using assms(1) by (simp only:) (subst unat_add_no_wrap; simp)
  have "(0xfffff000 :: u32) = NOT (mask 12)" by (simp add: mask_eq_exp_minus_1)
  then have f: "unat (?x AND 0xfffff000) = ?u - ?u mod 4096"
    using unat_and_not_mask [of ?x 12] x by simp
  have t: "t = ?u - ?u mod 4096 + 4096"
    unfolding t_def boot_stack_top_def using f assms(1) by (subst unat_add_no_wrap) auto
  have m: "?u mod 4096 < 4096" "?u mod 4096 \<le> ?u" by simp_all
  show "unat e + n + 1 + 4096 \<le> t" "t \<le> unat e + n + 8192" using t m by linarith+
  show "4096 dvd t" unfolding t by (rule dvd_add [OF dvd_minus_mod]) simp
qed

text \<open>
  What entry relies on: the kernel image starts above the page of the exception vectors, contains their code, the
  first vector fits below the second, and the loader's stack lies above the image.
\<close>

definition image_ok :: "image \<Rightarrow> u32 \<Rightarrow> bool" where
  "image_ok I sp \<longleftrightarrow> 0x80001000 \<le> unat (utlb_begin I) \<and> unat (utlb_begin I) \<le> unat (utlb_end I) \<and> unat (utlb_end I) \<le> unat (image_end I)
     \<and> 0x80001000 \<le> unat (exception_begin I) \<and> unat (exception_begin I) \<le> unat (exception_end I)
     \<and> unat (exception_end I) \<le> unat (image_end I)
     \<and> unat (utlb_end I) - unat (utlb_begin I) \<le> 128 \<and> unat (exception_end I) - unat (exception_begin I) \<le> 0xf80
     \<and> unat (image_end I) + 4 \<le> unat sp"

text \<open>The memory after entry.\<close>

definition start_mem :: "image \<Rightarrow> byte list \<Rightarrow> regs \<Rightarrow> (u32 \<Rightarrow> byte) \<Rightarrow> (u32 \<Rightarrow> byte)" where
  "start_mem I bs r m =
     memmove 0x80000080 (exception_begin I) (exception_end I - exception_begin I)
      (memmove 0x80000000 (utlb_begin I) (utlb_end I - utlb_begin I)
        (store_word (boot_stack_top (image_end I) (of_nat (length bs)) - 4) 0
          (write_bytes (image_end I) (bs @ [0]) (store_word (R_sp r - 4) (R_ra r) m))))"

lemma start_mem_spec:
  assumes "image_ok I (R_sp r)" and "unat (image_end I) + length bs + 8192 < 2 ^ 32"
  shows "i < length bs \<Longrightarrow> start_mem I bs r m (image_end I + of_nat i) = bs ! i"
    and "start_mem I bs r m (image_end I + of_nat (length bs)) = 0"
    and "x < unat (utlb_end I) - unat (utlb_begin I) \<Longrightarrow> start_mem I bs r m (0x80000000 + of_nat x) = m (utlb_begin I + of_nat x)"
    and "y < unat (exception_end I) - unat (exception_begin I) \<Longrightarrow> start_mem I bs r m (0x80000080 + of_nat y) = m (exception_begin I + of_nat y)"
proof -
  let ?e = "image_end I" and ?t = "boot_stack_top (image_end I) (of_nat (length bs))"
  note t = boot_stack_top_bounds [OF assms(2)]
  have ok: "0x80001000 \<le> unat (utlb_begin I)" "unat (utlb_begin I) \<le> unat (utlb_end I)" "unat (utlb_end I) \<le> unat ?e"
    "0x80001000 \<le> unat (exception_begin I)" "unat (exception_begin I) \<le> unat (exception_end I)" "unat (exception_end I) \<le> unat ?e"
    "unat (utlb_end I) - unat (utlb_begin I) \<le> 128" "unat (exception_end I) - unat (exception_begin I) \<le> 0xf80"
    "unat ?e + 4 \<le> unat (R_sp r)"
    using assms(1) by (auto simp: image_ok_def)
  have t4: "unat (?t - 4) = unat ?t - 4" using t by (simp add: unat_sub word_le_nat_alt)
  have sp4: "unat (R_sp r - 4) = unat (R_sp r) - 4" using ok by (simp add: unat_sub word_le_nat_alt)
  have len: "unat (utlb_end I - utlb_begin I) = unat (utlb_end I) - unat (utlb_begin I)"
    "unat (exception_end I - exception_begin I) = unat (exception_end I) - unat (exception_begin I)"
    using ok by (simp_all add: unat_sub word_le_nat_alt)
  have below: "store_word (?t - 4) 0 (write_bytes ?e (bs @ [0]) (store_word (R_sp r - 4) (R_ra r) m)) a = m a"
    if "unat a < unat ?e" for a
  proof -
    have "store_word (R_sp r - 4) (R_ra r) m a = m a"
      by (rule store_word_elsewhere) (use that ok sp4 u32_bound [of "R_sp r"] in auto)
    moreover have "\<not> unat (a - ?e) < length (bs @ [0])"
      using that assms(2) u32_bound [of a] by (simp add: unat_sub_if')
    ultimately show ?thesis
      using that t t4 assms(2) by (simp add: store_word_elsewhere write_bytes_at)
  qed
  have above: "memmove 0x80000080 (exception_begin I) (exception_end I - exception_begin I)
      (memmove 0x80000000 (utlb_begin I) (utlb_end I - utlb_begin I) f) a = f a" if "0x80001000 \<le> unat a" for f a
  proof -
    have "memmove 0x80000080 (exception_begin I) (exception_end I - exception_begin I) g a = g a" for g
      by (rule memmove_outside) (use that ok len in simp_all)
    moreover have "memmove 0x80000000 (utlb_begin I) (utlb_end I - utlb_begin I) f a = f a"
      by (rule memmove_outside) (use that ok len in simp_all)
    ultimately show ?thesis by simp
  qed
  have str: "start_mem I bs r m (?e + of_nat i) = (bs @ [0]) ! i" if "i \<le> length bs" for i
  proof -
    have a: "unat (?e + of_nat i) = unat ?e + i"
      using that assms(2) by (subst unat_add_no_wrap; subst unat_of_nat) auto
    have d: "unat (?e + of_nat i - ?e) = i" using that assms(2) by (simp add: unat_of_nat)
    have "start_mem I bs r m (?e + of_nat i) = store_word (?t - 4) 0
        (write_bytes ?e (bs @ [0]) (store_word (R_sp r - 4) (R_ra r) m)) (?e + of_nat i)"
      unfolding start_mem_def by (rule above) (use ok a in linarith)
    also have "\<dots> = write_bytes ?e (bs @ [0]) (store_word (R_sp r - 4) (R_ra r) m) (?e + of_nat i)"
      by (rule store_word_elsewhere) (use a t t4 that assms(2) in linarith)+
    also have "\<dots> = (bs @ [0]) ! i"
      using d that assms(2) by (subst write_bytes_at) simp_all
    finally show ?thesis .
  qed
  show "i < length bs \<Longrightarrow> start_mem I bs r m (?e + of_nat i) = bs ! i"
    using str [of i] by (simp add: nth_append)
  show "start_mem I bs r m (?e + of_nat (length bs)) = 0" using str [of "length bs"] by simp
  { assume x: "x < unat (utlb_end I) - unat (utlb_begin I)"
    then have a: "unat (0x80000000 + of_nat x :: u32) = 0x80000000 + x"
      using ok by (subst unat_add_no_wrap; subst unat_of_nat) auto
    have "unat (utlb_begin I + of_nat x) = unat (utlb_begin I) + x"
      using x u32_bound [of "utlb_end I"] by (subst unat_add_no_wrap; subst unat_of_nat) auto
    with ok(3) x have u: "unat (utlb_begin I + of_nat x) < unat ?e" by linarith
    have "start_mem I bs r m (0x80000000 + of_nat x) = memmove 0x80000000 (utlb_begin I) (utlb_end I - utlb_begin I)
        (store_word (?t - 4) 0 (write_bytes ?e (bs @ [0]) (store_word (R_sp r - 4) (R_ra r) m))) (0x80000000 + of_nat x)"
      unfolding start_mem_def by (rule memmove_below) (use x a ok len in simp_all)
    also have "\<dots> = m (utlb_begin I + of_nat x)"
      using x by (subst memmove_inside) (simp_all add: len below [OF u])
    finally show "start_mem I bs r m (0x80000000 + of_nat x) = m (utlb_begin I + of_nat x)" . }
  { assume y: "y < unat (exception_end I) - unat (exception_begin I)"
    have "unat (exception_begin I + of_nat y) = unat (exception_begin I) + y"
      using y u32_bound [of "exception_end I"] by (subst unat_add_no_wrap; subst unat_of_nat) auto
    with ok(6) y have u: "unat (exception_begin I + of_nat y) < unat ?e" "0x80001000 \<le> unat (exception_begin I + of_nat y)"
      using ok(4) by linarith+
    have "memmove 0x80000000 (utlb_begin I) (utlb_end I - utlb_begin I) f (exception_begin I + of_nat y) = f (exception_begin I + of_nat y)" for f
      by (rule memmove_outside) (use u ok len in simp_all)
    then show "start_mem I bs r m (0x80000080 + of_nat y) = m (exception_begin I + of_nat y)"
      unfolding start_mem_def using y by (subst memmove_inside) (simp_all add: len below [OF u(1)]) }
qed

lemma start_code_eq:
  "start_code M I bs s = bnd (TLB_Reset M (s\<lparr>kmem := start_mem I bs (regs s) (kmem s),
       curkstack := boot_stack_top (image_end I) (of_nat (length bs)), firstfree := boot_stack_top (image_end I) (of_nat (length bs)),
       regs := (regs s)\<lparr>R_s0 := image_end I, R_sp := boot_stack_top (image_end I) (of_nat (length bs)) - 20, R_a0 := image_end I\<rparr>\<rparr>))
     (\<lambda>s2. Inr (s2\<lparr>c0_status := CST_IRQMASK M\<rparr>))"
proof -
  have a: "x - 20 + 16 = x - 4" for x :: u32 by (simp add: algebra_simps)
  show ?thesis by (simp only: start_code_def start_mem_def Let_def a mips_flushicache_def)
qed

text \<open>
  C29. Entry sets up the machine for the C code. It finishes, and afterwards: the exception vectors hold the
  handlers' code; the boot string is intact behind the kernel image, where \<open>a0\<close> points; the first stack is
  the page below \<open>curkstack\<close>, page-aligned and above the string; and when \<open>ram_bootstrap\<close> then runs, the
  memory it will hand out starts exactly above that stack and is well-formed, provided the machine has
  more memory than the kernel takes.
\<close>

theorem start_code_memory_map:
  assumes "NUM_TLB M = 64" and "MIPS_KSEG0 M = 0x80000000" and "PAGE_SIZE M = 4096" and "image_ok I (R_sp (regs s))"
    and "unat (image_end I) + length bs + 8192 < 0x80000000 + unat ramsize" and "unat ramsize \<le> unat ram_limit"
  shows "\<exists>s'. start_code M I bs s = Inr s'
    \<and> (\<forall>x < unat (utlb_end I) - unat (utlb_begin I). kmem s' (0x80000000 + of_nat x) = kmem s (utlb_begin I + of_nat x))
    \<and> (\<forall>y < unat (exception_end I) - unat (exception_begin I).
          kmem s' (0x80000080 + of_nat y) = kmem s (exception_begin I + of_nat y))
    \<and> (\<forall>i < length bs. kmem s' (R_a0 (regs s') + of_nat i) = bs ! i)
    \<and> 4096 dvd unat (curkstack s') \<and> unat (image_end I) + length bs + 1 + 4096 \<le> unat (curkstack s')
    \<and> ram_ok M (ram_bootstrap M ramsize s') \<and> firstpaddr (ram_bootstrap M ramsize s') = curkstack s' - 0x80000000"
proof -
  let ?t = "boot_stack_top (image_end I) (of_nat (length bs))"
  have lim: "unat ram_limit = 508 * 1024 * 1024" by (simp add: ram_limit_def)
  have b: "unat (image_end I) + length bs + 8192 < 2 ^ 32" using assms(5,6) lim by simp
  note t = boot_stack_top_bounds [OF b] and m = start_mem_spec [OF assms(4) b]
  let ?s1 = "s\<lparr>kmem := start_mem I bs (regs s) (kmem s), curkstack := ?t, firstfree := ?t,
       regs := (regs s)\<lparr>R_s0 := image_end I, R_sp := ?t - 20, R_a0 := image_end I\<rparr>\<rparr>"
  obtain u where u: "TLB_Reset M ?s1 = Inr (?s1\<lparr>tlb := u\<rparr>)" using TLB_Reset_terminates [OF assms(1), of ?s1] by blast
  define s2 where "s2 = ?s1\<lparr>tlb := u, c0_status := CST_IRQMASK M\<rparr>"
  have s2: "start_code M I bs s = Inr s2" "kmem s2 = start_mem I bs (regs s) (kmem s)" "curkstack s2 = ?t"
      "firstfree s2 = ?t" "R_a0 (regs s2) = image_end I"
    unfolding start_code_eq u s2_def by simp_all
  have e: "0x80001000 \<le> unat (image_end I)" using assms(4) by (auto simp: image_ok_def)
  then have ps: "unat (?t - 0x80000000) = unat ?t - 0x80000000" using t(1) by (simp add: unat_sub word_le_nat_alt)
  have r: "\<not> ramsize > ram_limit" using assms(6) by (simp add: word_less_nat_alt)
  then have "lastpaddr (ram_bootstrap M ramsize s2) = ramsize" "firstpaddr (ram_bootstrap M ramsize s2) = ?t - 0x80000000"
    using s2(4) assms(2) by (simp_all add: ram_bootstrap_def)
  moreover have "0 < unat (?t - 0x80000000)" "unat (?t - 0x80000000) \<le> unat ramsize"
    using ps t e assms(5) by linarith+
  ultimately have "ram_ok M (ram_bootstrap M ramsize s2)" "firstpaddr (ram_bootstrap M ramsize s2) = curkstack s2 - 0x80000000"
    using assms(3,6) s2(3) by (simp_all add: ram_ok_def word_less_nat_alt word_le_nat_alt)
  then show ?thesis
    by (intro exI [of _ s2] conjI allI impI) (use s2 m t in simp_all)
qed

definition image_example :: image where
  "image_example = \<lparr>image_end = 0x80030000, utlb_begin = 0x80002000, utlb_end = 0x8000202c, exception_begin = 0x80002030,
     exception_end = 0x80002058\<rparr>"

theorem start_code_memory_map_witness:
  "\<exists>s'. start_code sys161 image_example [97, 98] (kern_example\<lparr>regs := regs_example\<lparr>R_sp := 0x80200000\<rparr>\<rparr>) = Inr s'
     \<and> kmem s' (R_a0 (regs s') + of_nat 1) = 98 \<and> ram_ok sys161 (ram_bootstrap sys161 0x200000 s')"
proof -
  have ok: "image_ok image_example (R_sp (regs (kern_example\<lparr>regs := regs_example\<lparr>R_sp := 0x80200000\<rparr>\<rparr>)))"
    by (simp add: image_ok_def image_example_def)
  obtain s' where s': "start_code sys161 image_example [97, 98] (kern_example\<lparr>regs := regs_example\<lparr>R_sp := 0x80200000\<rparr>\<rparr>) = Inr s'"
      "\<forall>i < length [97, 98 :: byte]. kmem s' (R_a0 (regs s') + of_nat i) = [97, 98] ! i" "ram_ok sys161 (ram_bootstrap sys161 0x200000 s')"
    using start_code_memory_map [OF _ _ _ ok, of sys161 "[97, 98]" "0x200000"]
    by (auto simp: image_example_def sys161_def ram_limit_def)
  then have "kmem s' (R_a0 (regs s') + of_nat 1) = [97, 98] ! 1" by fastforce
  with s' show ?thesis by auto
qed

section \<open>Boot, shutdown and the bus\<close>

text \<open>A call that does not touch the thread system: it leaves the invariant and the lists of threads as they are.\<close>

definition threads_quiet :: "('q, 'a, 'h) klib \<Rightarrow> ('q, 'a, 'h, 'z) kern_scheme \<Rightarrow> ('q, 'a, 'h, 'z) kern_scheme \<Rightarrow> bool" where
  "threads_quiet L s s' \<longleftrightarrow> (thread_inv L s \<longrightarrow> thread_inv L s' \<and> abs_of L s' = abs_of L s)"

text \<open>What \<open>boot\<close> relies on: no device or file system start-up routine creates or switches threads.\<close>

definition boot_laws :: "('q, 'a, 'h) klib \<Rightarrow> ('q, 'a, 'h, 'z) io_scheme devices \<Rightarrow> bool" where
  "boot_laws L D \<longleftrightarrow> (\<forall>s s'. vfs_bootstrap D s = Inr s' \<longrightarrow> threads_quiet L s s')
     \<and> (\<forall>f s s'. dev_bootstrap D f s = Inr s' \<longrightarrow> threads_quiet L s s')
     \<and> (\<forall>s s'. kprintf_bootstrap D s = Inr s' \<longrightarrow> threads_quiet L s s')
     \<and> (\<forall>n s e s'. vfs_setbootfs D n s = Inr (e, s') \<longrightarrow> threads_quiet L s s')"

text \<open>
  Booting, in the order of \<^verbatim>\<open>main.c\<close>, ends in a state where the invariant of the thread system holds with
  exactly one thread, the running boot thread, and empty lists; a failure to set the boot file system is
  ignored.
\<close>

theorem boot_one_thread:
  assumes "klib_laws L" and "threads s = Map.empty" and "boot_laws L D" and "boot L M D s = Inr s'"
  shows "thread_inv L s' \<and> (\<exists>me. abs_of L s' = \<lparr>a_cur = Some me, a_ready = [], a_sleeping = [], a_zombies = []\<rparr>)"
proof -
  have e: "threads (ram_bootstrap M (mips_ramsize D s) s) = Map.empty" using assms(2) by (simp add: ram_bootstrap_def)
  obtain s1 me s2 where s2: "scheduler_bootstrap L (ram_bootstrap M (mips_ramsize D s) s) = Inr s1" "thread_bootstrap L M s1 = Inr (me, s2)"
    using assms(4) by (auto simp: boot_def bnd_eq_Inr)
  then have i: "thread_inv L s2" "abs_of L s2 = \<lparr>a_cur = Some me, a_ready = [], a_sleeping = [], a_zombies = []\<rparr>"
    using thread_bootstrap_abs [OF assms(1) e, of M me s2] by simp_all
  obtain s3 s4 s5 err where s': "vfs_bootstrap D s2 = Inr s3" "dev_bootstrap D (machdep_dev_bootstrap M D) s3 = Inr s4"
      "kprintf_bootstrap D s4 = Inr s5" "vfs_setbootfs D ''emu0'' s5 = Inr (err, s')"
    using assms(4) s2 by (auto simp: boot_def bnd_eq_Inr vm_bootstrap_def)
  then have "threads_quiet L s2 s3" "threads_quiet L s3 s4" "threads_quiet L s4 s5" "threads_quiet L s5 s'"
    using assms(3) unfolding boot_laws_def by blast+
  with i show ?thesis by (auto simp: threads_quiet_def)
qed

text \<open>Quiet devices that work, over list-based kernel libraries.\<close>

definition quiet_devices :: "'s devices" where
  "quiet_devices = \<lparr>lamebus_init = (\<lambda>s. (0x900, s)), autoconf_lamebus = (\<lambda>_. Inr), lamebus_poweroff = (\<lambda>_ _. None),
     lamebus_ramsize = (\<lambda>_. 0x200000), lamebus_interrupt = (\<lambda>_ s. Inr (Returned s)), bus_load = (\<lambda>_ s. (0, s)),
     bus_store = (\<lambda>_ _ s. s), dev_bootstrap = (\<lambda>_. Inr), vfs_bootstrap = Inr, kprintf_bootstrap = Inr,
     vfs_setbootfs = (\<lambda>_ s. Inr (0, s)), vfs_clearbootfs = Inr, vfs_clearcurdir = (\<lambda>s. Inr (0, s)),
     vfs_unmountall = (\<lambda>s. Inr (0, s))\<rparr>"

definition io_example :: "(lseq, lseq, lheap) io" where
  "io_example = sys.extend sys_example \<lparr>lamebus = 0x900, console = []\<rparr>"

theorem boot_one_thread_witness:
  "\<exists>s'. boot list_klib sys161 quiet_devices (io_example\<lparr>threads := Map.empty\<rparr>) = Inr s' \<and> thread_inv list_klib s'"
proof -
  have l: "boot_laws list_klib quiet_devices" by (simp add: boot_laws_def quiet_devices_def threads_quiet_def)
  have "kheap io_example = kheap kern_example" "numprocesses io_example = 1"
    by (simp_all add: io_example_def sys.extend_def sys_example_def kern.extend_def)
  then obtain s' where "boot list_klib sys161 quiet_devices (io_example\<lparr>threads := Map.empty\<rparr>) = Inr s'"
    by (simp add: boot_def scheduler_bootstrap_def thread_bootstrap_def thread_create_def list_klib_def l_alloc_def ram_bootstrap_def
        mips_ramsize_def vm_bootstrap_def quiet_devices_def fptInitialize_def Let_def split_beta)
  with boot_one_thread [OF klib_laws_list_klib _ l this] show ?thesis by auto
qed

text \<open>What \<open>shutdown\<close> relies on: the VFS calls return, and an empty run queue can be disposed of.\<close>

definition shutdown_laws :: "('q, 'a, 'h) klib \<Rightarrow> ('q, 'a, 'h, 'z) io_scheme devices \<Rightarrow> bool" where
  "shutdown_laws L D \<longleftrightarrow> (\<forall>s. \<exists>s'. vfs_clearbootfs D s = Inr s' \<and> threads_quiet L s s')
     \<and> (\<forall>s. \<exists>e s'. vfs_clearcurdir D s = Inr (e, s') \<and> threads_quiet L s s')
     \<and> (\<forall>s. \<exists>e s'. vfs_unmountall D s = Inr (e, s') \<and> threads_quiet L s s')
     \<and> (\<forall>q h. q_list L q = [] \<longrightarrow> q_destroy L q h \<noteq> None)"

lemma abs_of_ready: "abs_of L s' = abs_of L s \<Longrightarrow> ready L s' = ready L s"
  by (simp add: abs_of_def)

text \<open>
  What is left when the system has gone down from \<open>s\<close>: the boot file system and the current directory were released and everything
  unmounted, in this order, and of the state that these calls leave only the thread lists, which are gone, the heap, into which they
  were freed, and the interrupt level differ; interrupts are off.
\<close>

definition went_down :: "machine \<Rightarrow> ('q, 'a, 'h, 'z) io_scheme devices \<Rightarrow> ('q, 'a, 'h, 'z) io_scheme \<Rightarrow> ('q, 'a, 'h, 'z) io_scheme \<Rightarrow> bool" where
  "went_down M D s s' \<longleftrightarrow> (\<exists>s1 e2 s2 e3 s3 y h. vfs_clearbootfs D s = Inr s1 \<and> vfs_clearcurdir D s1 = Inr (e2, s2)
     \<and> vfs_unmountall D s2 = Inr (e3, s3)
     \<and> s' = s3\<lparr>runqueue := None, sleepers := None, zombies := None, kheap := h, c0_status := y, curspl := SPL_HIGH M\<rparr>)
     \<and> \<not> irqs_enabled M s'"

lemma shutdown_spec:
  assumes "thread_inv L s" and "spl_consts M" and "shutdown_laws L D" and "length (ready L s) < fuel"
  obtains s' where "shutdown L M D fuel s = Inr s'" "went_down M D s s'"
proof -
  obtain s1 where s1: "vfs_clearbootfs D s = Inr s1" "threads_quiet L s s1"
    using assms(3) unfolding shutdown_laws_def by blast
  obtain e2 s2 where s2: "vfs_clearcurdir D s1 = Inr (e2, s2)" "threads_quiet L s1 s2"
    using assms(3) unfolding shutdown_laws_def by blast
  obtain e3 s3 where s3: "vfs_unmountall D s2 = Inr (e3, s3)" "threads_quiet L s2 s3"
    using assms(3) unfolding shutdown_laws_def by blast
  have q: "thread_inv L s3" "abs_of L s3 = abs_of L s"
    using assms(1) s1(2) s2(2) s3(2) by (auto simp: threads_quiet_def)
  let ?s = "snd (splhigh M s3)"
  obtain y where y: "?s = s3\<lparr>c0_status := y, curspl := SPL_HIGH M\<rparr>"
    using splx_shape [of M "SPL_HIGH M" s3] by (auto simp: splhigh_def)
  have hi: "SPL_HIGH M > 0" "\<not> irqs_enabled M ?s"
    using assms(2) irqs_enabled_splx [OF assms(2), of "SPL_HIGH M" s3] by (simp_all add: spl_consts_def splhigh_def)
  obtain rq where rq: "runqueue s3 = Some rq" "queue_laws L" "sleepers s3 \<noteq> None" "zombies s3 \<noteq> None"
    using q(1) by (auto simp: thread_inv_def klib_laws_def)
  have "length (q_list L rq) < fuel" using assms(4) abs_of_ready [OF q(2)] rq(1) by (simp add: ready_def)
  then obtain q' where q': "killall_loop L fuel ?s = Inr (?s\<lparr>runqueue := Some q'\<rparr>)" "q_list L q' = []"
    using killall_loop_enough [of L ?s rq fuel] rq by (auto simp: y)
  obtain h where h: "q_destroy L q' (kheap ?s) = Some h" using assms(3) q'(2) unfolding shutdown_laws_def by blast
  obtain a z where az: "sleepers s3 = Some a" "zombies s3 = Some z" using rq by blast
  let ?r = "?s\<lparr>runqueue := Some q', runqueue := None, kheap := h, sleepers := None, zombies := None, kheap := array_destroy L z (array_destroy L a h)\<rparr>"
  have e: "irqs_enabled M ?r = irqs_enabled M ?s" by (simp add: irqs_enabled_def)
  have "shutdown L M D fuel s = Inr ?r"
    using s1(1) s2(1) s3(1) q'(1) h az hi(1)
    by (simp add: shutdown_def scheduler_shutdown_def scheduler_killall_def thread_shutdown_def y)
  moreover have "?r = s3\<lparr>runqueue := None, sleepers := None, zombies := None, kheap := array_destroy L z (array_destroy L a h),
      c0_status := y, curspl := SPL_HIGH M\<rparr>" by (simp add: y)
  then have "went_down M D s ?r" unfolding went_down_def using s1(1) s2(1) s3(1) hi(2) e by blast
  ultimately show thesis by (rule that)
qed

lemma went_down_halt:
  assumes "spl_consts M" and "went_down M D s s'"
  shows "went_down M D s (md_halt M s')"
proof -
  obtain s1 e2 s2 e3 s3 y h where d: "vfs_clearbootfs D s = Inr s1" "vfs_clearcurdir D s1 = Inr (e2, s2)" "vfs_unmountall D s2 = Inr (e3, s3)"
      "s' = s3\<lparr>runqueue := None, sleepers := None, zombies := None, kheap := h, c0_status := y, curspl := SPL_HIGH M\<rparr>"
    using assms(2) by (auto simp: went_down_def)
  have n: "\<not> irqs_enabled M (md_halt M s')"
    using assms(1) by (simp add: md_halt_def cpu_halt_def interrupts_off_def irqs_enabled_def spl_consts_def bit0_simps)
  have "md_halt M s' = s3\<lparr>runqueue := None, sleepers := None, zombies := None, kheap := h,
      c0_status := c0_status (md_halt M s'), curspl := SPL_HIGH M\<rparr>"
    by (simp add: d(4) md_halt_def cpu_halt_def interrupts_off_def)
  with d(1-3) n show ?thesis unfolding went_down_def by blast
qed


lemma sys_extend_inv:
  "thread_inv L (sys.extend s m) = thread_inv L s" "ready L (sys.extend s m) = ready L s"
  by (simp_all add: thread_inv_def view_defs sys.extend_def cong: option.case_cong)

text \<open>A machine on which unmounting leaves a trace: the letter \<open>U\<close> on the console.\<close>

definition unmount_devices :: "('q, 'a, 'h, 'z) io_scheme devices" where
  "unmount_devices = quiet_devices\<lparr>vfs_unmountall := (\<lambda>s. Inr (0, s\<lparr>console := console s @ [0x55]\<rparr>))\<rparr>"

lemma unmount_devices_laws:
  "shutdown_laws list_klib unmount_devices" "\<forall>b t. lamebus_poweroff unmount_devices b t = None"
  by (auto simp: shutdown_laws_def unmount_devices_def quiet_devices_def threads_quiet_def list_klib_def thread_inv_def abs_of_def view_defs
      cong: option.case_cong)

lemma io_example_inv: "thread_inv list_klib io_example" "length (ready list_klib io_example) < 2"
  using sys_example_inv(1) by (simp_all add: io_example_def sys_extend_inv) (simp add: sys_example_def ready_def list_klib_def)


text \<open>
  A register of a device in slot \<open>slot\<close> at offset \<open>offset\<close> is mapped to its own address inside the bus area, so
  that different registers never share one; a slot number out of range fails the assertion.
\<close>

theorem lamebus_map_area_exact:
  assumes "unat (LB_BASEADDR M) + nat (LB_NSLOTS M) * unat (LB_SLOT_SIZE M) \<le> 2 ^ 32" and "unat offset < unat (LB_SLOT_SIZE M)"
  shows "lamebus_map_area M bus slot offset
    = (if 0 \<le> slot \<and> slot < LB_NSLOTS M
       then Inr (of_nat (unat (LB_BASEADDR M) + nat slot * unat (LB_SLOT_SIZE M) + unat offset))
       else Inl (AssertFail ''slot>=0 && slot<LB_NSLOTS''))
    \<and> (0 \<le> slot \<and> slot < LB_NSLOTS M \<longrightarrow>
       unat (LB_BASEADDR M) + nat slot * unat (LB_SLOT_SIZE M) + unat offset < unat (LB_BASEADDR M) + nat (LB_NSLOTS M) * unat (LB_SLOT_SIZE M))"
proof (cases "0 \<le> slot \<and> slot < LB_NSLOTS M")
  case True
  then have "word_of_int slot = (of_nat (nat slot) :: u32)" by simp
  moreover have "(nat slot + 1) * unat (LB_SLOT_SIZE M) \<le> nat (LB_NSLOTS M) * unat (LB_SLOT_SIZE M)"
    using True by (intro mult_le_mono1) linarith
  ultimately show ?thesis using True assms(2) by (simp add: lamebus_map_area_def)
next
  case False
  then show ?thesis by (simp only: lamebus_map_area_def kassert_def if_False simp_thms)
qed

theorem lamebus_map_area_exact_witness:
  "lamebus_map_area sys161 0 3 8 = Inr 0xbfe30008"
  using lamebus_map_area_exact [of sys161 8 0 3] by (simp add: sys161_def)

end
