(* ===== verification/Trap.thy ===== *)
theory Trap
  imports Boot
begin

text \<open>
  Traps: \<open>mips_trap\<close>, \<open>mips_usermode\<close>, \<open>md_usermode\<close> and \<open>kill_curthread\<close> of \<^verbatim>\<open>kern/mips/trap.c\<close>, \<open>mips_interrupt\<close>
  of \<^verbatim>\<open>interrupt.c\<close>, and \<open>mips_syscall\<close> and \<open>md_forkentry\<close> of \<^verbatim>\<open>syscall.c\<close>. The trap frame on the kernel stack is
  passed as a value with its address.
\<close>

section \<open>How a trap ends\<close>

text \<open>
  The handler returns to the interrupted code with a result, or the thread gives up the processor inside
  it (another thread runs, or none; the rest is done when it is switched to again), or the machine is down.
\<close>

datatype ('b, 's) trap_out = Back 'b 's | Away 's | Down "'s power"

definition on_back ::
  "('b \<Rightarrow> 's \<Rightarrow> ('c, 's) trap_out run) \<Rightarrow> ('b, 's) trap_out \<Rightarrow> ('c, 's) trap_out run" where
  "on_back k out = (case out of Back b s \<Rightarrow> k b s | Away s \<Rightarrow> Inr (Away s) | Down d \<Rightarrow> Inr (Down d))"

lemma on_back_simps [simp]:
  "on_back k (Back b s) = k b s" "on_back k (Away s) = Inr (Away s)" "on_back k (Down d) = Inr (Down d)"
  by (simp_all add: on_back_def)

definition of_outcome :: "('s \<Rightarrow> ('b, 's) trap_out run) \<Rightarrow> 's outcome \<Rightarrow> ('b, 's) trap_out run" where
  "of_outcome k out = (case out of Returned s \<Rightarrow> k s | Switched s \<Rightarrow> Inr (Away s) | Idling s \<Rightarrow> Inr (Away s))"

section \<open>System calls\<close>

text \<open>The call numbers of \<^verbatim>\<open>kern/callno.h\<close>.\<close>

definition callno_table :: "(string \<times> int) list" where
  "callno_table =
    [(''_exit'', 0), (''execv'', 1), (''fork'', 2), (''waitpid'', 3), (''open'', 4), (''read'', 5), (''write'', 6), (''close'', 7),
     (''reboot'', 9), (''sync'', 8), (''sbrk'', 10), (''getpid'', 11), (''ioctl'', 12), (''lseek'', 13), (''fsync'', 14),
     (''ftruncate'', 15), (''fstat'', 16), (''remove'', 17), (''rename'', 18), (''link'', 19), (''mkdir'', 20), (''rmdir'', 21),
     (''chdir'', 22), (''getdirentry'', 23), (''symlink'', 24), (''readlink'', 25), (''dup2'', 26), (''pipe'', 27),
     (''__time'', 28), (''__getcwd'', 29), (''stat'', 30), (''lstat'', 31), (''getppid'', 32)]"

definition SYS__exit :: int where "SYS__exit = 0"
definition SYS_execv :: int where "SYS_execv = 1"
definition SYS_fork :: int where "SYS_fork = 2"
definition SYS_waitpid :: int where "SYS_waitpid = 3"
definition SYS_write :: int where "SYS_write = 6"
definition SYS_reboot :: int where "SYS_reboot = 9"
definition SYS_getpid :: int where "SYS_getpid = 11"
definition SYS_getppid :: int where "SYS_getppid = 32"

lemmas callno_defs = SYS__exit_def SYS_execv_def SYS_fork_def SYS_waitpid_def SYS_write_def SYS_reboot_def SYS_getpid_def
  SYS_getppid_def

text \<open>
  The calls whose implementations (the \<^verbatim>\<open>userprog\<close> directory) are not in the repository, and a read of a
  byte of user memory (\<open>None\<close>: a fault that cannot be handled). \<open>sys_waitpid\<close> returns the error and what it
  stores through its last argument.
\<close>

record 's userprog =
  sys_getpid :: "'s \<Rightarrow> s32"
  sys_getppid :: "'s \<Rightarrow> s32"
  sys_execv :: "u32 \<Rightarrow> u32 \<Rightarrow> 's \<Rightarrow> (s32, 's) trap_out run"
  sys_fork :: "trapframe \<Rightarrow> 's \<Rightarrow> (s32, 's) trap_out run"
  sys_waitpid :: "u32 \<Rightarrow> u32 \<Rightarrow> u32 \<Rightarrow> 's \<Rightarrow> (s32 \<times> s32, 's) trap_out run"
  sys__exit :: "u32 \<Rightarrow> 's \<Rightarrow> 's outcome run"
  user_byte :: "u32 \<Rightarrow> 's \<Rightarrow> byte option"

text \<open>The loop of the \<open>write\<close> patch, which reads user memory directly.\<close>

primrec write_loop ::
  "('q, 'a, 'h, 'z) io_scheme userprog \<Rightarrow> u32 \<Rightarrow> nat list \<Rightarrow> ('q, 'a, 'h, 'z) io_scheme \<Rightarrow> ('q, 'a, 'h, 'z) io_scheme run" where
  "write_loop X base [] s = Inr s"
| "write_loop X base (i # is) s =
     (case user_byte X (base + of_nat i) s of
        None \<Rightarrow> Inl (Panic ''Fatal exception in kernel mode'')
      | Some c \<Rightarrow> write_loop X base is (s\<lparr>console := console s @ [c]\<rparr>))"

text \<open>
  The \<open>switch\<close> of \<open>mips_syscall\<close>: the error code and the return value. On the \<open>write\<close> path the code never sets
  \<open>err\<close>, so its value is whatever the register or stack slot held: the argument \<open>junk\<close>.
\<close>

definition syscall_switch ::
  "('q, 'a, 'h) klib \<Rightarrow> machine \<Rightarrow> ('q, 'a, 'h, 'z) io_scheme devices \<Rightarrow> nat \<Rightarrow> ('q, 'a, 'h, 'z) io_scheme userprog \<Rightarrow> s32
     \<Rightarrow> trapframe \<Rightarrow> ('q, 'a, 'h, 'z) io_scheme \<Rightarrow> (s32 \<times> s32, ('q, 'a, 'h, 'z) io_scheme) trap_out run" where
  "syscall_switch L M D fuel X junk tf s =
     (let callno = sint (tf_v0 tf)
      in if callno = SYS_reboot then
           bnd (sys_reboot L M D fuel (sint (tf_a0 tf)) s) (\<lambda>p. case p of
             StillOn e s1 \<Rightarrow> Inr (Back (word_of_int e, 0) s1)
           | Halted s1 \<Rightarrow> Inr (Down (Halted s1))
           | PowerOff s1 \<Rightarrow> Inr (Down (PowerOff s1)))
         else if callno = SYS_write then
           bnd (write_loop X (tf_a1 tf) [0..<unat (tf_a2 tf)] s) (\<lambda>s1. Inr (Back (junk, 0) s1))
         else if callno = SYS_getpid then Inr (Back (0, sys_getpid X s + 1) s)
         else if callno = SYS_getppid then Inr (Back (0, sys_getppid X s + 1) s)
         else if callno = SYS_execv then
           bnd (sys_execv X (tf_a0 tf) (tf_a1 tf) s) (on_back (\<lambda>err s1. Inr (Back (err, 0) s1)))
         else if callno = SYS_fork then
           bnd (sys_fork X tf s) (on_back (\<lambda>retval s1.
             Inr (Back (if sint retval < 0 then - retval else 0, retval) s1)))
         else if callno = SYS_waitpid then sys_waitpid X (tf_a0 tf) (tf_a1 tf) (tf_a2 tf) s
         else if callno = SYS__exit then
           bnd (sys__exit X (tf_a0 tf) s) (of_outcome (\<lambda>s1. Inr (Back (0, 0) s1)))
         else Inr (Back (word_of_int ENOSYS, 0) s))"

text \<open>What the end of \<open>mips_syscall\<close> stores in the frame.\<close>

definition syscall_result :: "s32 \<Rightarrow> s32 \<Rightarrow> trapframe \<Rightarrow> trapframe" where
  "syscall_result err retval tf =
     (if err \<noteq> 0 then tf\<lparr>tf_v0 := err, tf_a3 := 1, tf_epc := tf_epc tf + 4\<rparr>
      else tf\<lparr>tf_v0 := retval, tf_a3 := 0, tf_epc := tf_epc tf + 4\<rparr>)"

definition mips_syscall ::
  "('q, 'a, 'h) klib \<Rightarrow> machine \<Rightarrow> ('q, 'a, 'h, 'z) io_scheme devices \<Rightarrow> nat \<Rightarrow> ('q, 'a, 'h, 'z) io_scheme userprog \<Rightarrow> s32
     \<Rightarrow> trapframe \<Rightarrow> ('q, 'a, 'h, 'z) io_scheme \<Rightarrow> (trapframe, ('q, 'a, 'h, 'z) io_scheme) trap_out run" where
  "mips_syscall L M D fuel X junk tf s =
     kassert (curspl s = 0) ''curspl==0'' (
     bnd (syscall_switch L M D fuel X junk tf s) (on_back (\<lambda>(err, retval) s1.
     kassert (curspl s1 = 0) ''curspl==0'' (Inr (Back (syscall_result err retval tf) s1)))))"

section \<open>Interrupts\<close>

definition LAMEBUS_IRQ_BIT :: u32 where "LAMEBUS_IRQ_BIT = 0x400"
definition LAMEBUS_NMI_BIT :: u32 where "LAMEBUS_NMI_BIT = 0x800"

definition mips_interrupt ::
  "('q, 'a, 'h, 'z) io_scheme devices \<Rightarrow> u32 \<Rightarrow> ('q, 'a, 'h, 'z) io_scheme \<Rightarrow> (unit, ('q, 'a, 'h, 'z) io_scheme) trap_out run" where
  "mips_interrupt D cause s =
     (let old_in = in_interrupt s; s1 = s\<lparr>in_interrupt := 1\<rparr>
      in kassert (curspl s1 > 0) ''curspl>0'' (
         if cause AND LAMEBUS_IRQ_BIT \<noteq> 0 then
           bnd (mips_lamebus_interrupt D s1) (of_outcome (\<lambda>s2. Inr (Back () (s2\<lparr>in_interrupt := old_in\<rparr>))))
         else if cause AND LAMEBUS_NMI_BIT \<noteq> 0 then Inl (Panic ''Received NMI'')
         else Inl (Panic ''Unknown interrupt'')))"

section \<open>The trap handler\<close>

definition trapcodenames :: "string list" where
  "trapcodenames =
    [''Interrupt'', ''TLB modify trap'', ''TLB miss on load'', ''TLB miss on store'', ''Address error on load'',
     ''Address error on store'', ''Bus error on code'', ''Bus error on data'', ''System call'', ''Break instruction'',
     ''Illegal instruction'', ''Coprocessor unusable'', ''Arithmetic overflow'']"

definition NTRAPCODES :: u32 where "NTRAPCODES = 13"

type_synonym ('q, 'a, 'h, 'z) events =
  "(('q, 'a, 'h, 'z) kern_scheme \<Rightarrow> ('q, 'a, 'h, 'z) kern_scheme run) list"

definition kill_curthread ::
  "('q, 'a, 'h) klib \<Rightarrow> machine \<Rightarrow> ('q, 'a, 'h, 'z) events \<Rightarrow> u32 \<Rightarrow> ('q, 'a, 'h, 'z) kern_scheme
     \<Rightarrow> ('b, ('q, 'a, 'h, 'z) kern_scheme) trap_out run" where
  "kill_curthread L M evs code s =
     kassert (code < NTRAPCODES) ''code<NTRAPCODES'' (
     deref (threads s) (curthread s) ''curthread'' (\<lambda>t.
     bnd (thread_exit L M evs (s\<lparr>threads := (threads s)(curthread s \<mapsto> t\<lparr>pros_exit := 1\<rparr>)\<rparr>))
       (of_outcome (\<lambda>s1. Inl (Panic ''I don't know how to handle this'')))))"

text \<open>The trap frame must lie on the current thread's stack.\<close>

definition stack_check :: "machine \<Rightarrow> u32 \<Rightarrow> ('q, 'a, 'h, 'z) kern_scheme \<Rightarrow> 'r run \<Rightarrow> 'r run" where
  "stack_check M tfp s k =
     (if curthread s = NULL then k else
      deref (threads s) (curthread s) ''curthread'' (\<lambda>t.
      if t_stack t = NULL then k else
      kassert (tfp > t_stack t) ''tf > t_stack'' (
      kassert (tfp < t_stack t + STACK_SIZE M) ''tf < t_stack+STACK_SIZE'' k)))"

text \<open>The \<open>switch\<close> on the memory exceptions: whether the fault was handled.\<close>

definition trap_fault ::
  "machine \<Rightarrow> u32 \<Rightarrow> trapframe \<Rightarrow> ('q, 'a, 'h, 'z) kern_scheme \<Rightarrow> (bool \<times> ('q, 'a, 'h, 'z) kern_scheme) run" where
  "trap_fault M code tf s =
     (let try = (\<lambda>ft. bnd (vm_fault M ft (tf_vaddr tf) s) (\<lambda>(r, s1). Inr (r = 0, s1)))
      in if code = EX_MOD M then try VM_FAULT_READONLY
         else if code = EX_TLBL M then try VM_FAULT_READ
         else if code = EX_TLBS M then try VM_FAULT_WRITE
         else if code = EX_IBE M \<or> code = EX_DBE M then Inl (Panic ''Bus error exception'')
         else Inr (False, s))"

text \<open>A fault that nobody handled.\<close>

definition trap_fatal ::
  "('q, 'a, 'h) klib \<Rightarrow> machine \<Rightarrow> ('q, 'a, 'h, 'z) events \<Rightarrow> u32 \<Rightarrow> bool \<Rightarrow> trapframe
     \<Rightarrow> ('q, 'a, 'h, 'z) kern_scheme \<Rightarrow> (trapframe, ('q, 'a, 'h, 'z) kern_scheme) trap_out run" where
  "trap_fatal L M evs code iskern tf s =
     (if \<not> iskern then kill_curthread L M evs code s
      else if curthread s = NULL then Inl (Panic ''I can't handle this... I think I'll just die now...'')
      else
      deref (threads s) (curthread s) ''curthread'' (\<lambda>t.
      if pcb_badfaultfunc (t_pcb t) \<noteq> NULL then Inr (Back (tf\<lparr>tf_epc := pcb_badfaultfunc (t_pcb t)\<rparr>) s)
      else Inl (Panic ''I can't handle this... I think I'll just die now...'')))"

text \<open>The code after the label \<open>done\<close>.\<close>

definition trap_done ::
  "machine \<Rightarrow> int \<Rightarrow> u32 \<Rightarrow> trapframe \<Rightarrow> ('q, 'a, 'h, 'z) kern_scheme
     \<Rightarrow> (trapframe, ('q, 'a, 'h, 'z) kern_scheme) trap_out run" where
  "trap_done M savespl tfp tf s =
     (let s1 = (snd (splhigh M s))\<lparr>curspl := savespl\<rparr>
      in kassert (SAME_STACK M (curkstack s1 - 1) tfp) ''SAME_STACK'' (Inr (Back tf s1)))"

definition trap_code :: "machine \<Rightarrow> trapframe \<Rightarrow> u32" where
  "trap_code M tf = drop_bit (CCA_CODESHIFT M) (tf_cause tf AND CCA_CODE M)"

definition mips_trap ::
  "('q, 'a, 'h) klib \<Rightarrow> machine \<Rightarrow> ('q, 'a, 'h, ('z) io_ext sys_ext) events \<Rightarrow> ('q, 'a, 'h, 'z) io_scheme devices \<Rightarrow> nat
     \<Rightarrow> ('q, 'a, 'h, 'z) io_scheme userprog \<Rightarrow> s32 \<Rightarrow> u32 \<Rightarrow> trapframe
     \<Rightarrow> ('q, 'a, 'h, 'z) io_scheme \<Rightarrow> (trapframe, ('q, 'a, 'h, 'z) io_scheme) trap_out run" where
  "mips_trap L M evs D fuel X junk tfp tf s =
     (let savespl = curspl s;
          s1 = s\<lparr>curspl := SPL_HIGH M\<rparr>;
          code = trap_code M tf;
          iskern = (tf_status tf AND CST_KUp M = 0)
      in kassert (code < NTRAPCODES) ''code<NTRAPCODES'' (
         stack_check M tfp s1 (
         if code = EX_IRQ M then
           bnd (mips_interrupt D (tf_cause tf) s1) (on_back (\<lambda>_ s2. trap_done M savespl tfp tf s2))
         else
         let s2 = snd (splx M savespl s1)
         in if code = EX_SYS M then
              kassert (curspl s2 = 0) ''curspl==0'' (
              bnd (mips_syscall L M D fuel X junk tf s2) (on_back (\<lambda>tf' s3. trap_done M savespl tfp tf' s3)))
            else
              bnd (trap_fault M code tf s2) (\<lambda>(handled, s3).
              if handled then trap_done M savespl tfp tf s3
              else bnd (trap_fatal L M evs code iskern tf s3) (on_back (\<lambda>tf' s4. trap_done M savespl tfp tf' s4))))))"

section \<open>Entering user mode\<close>

text \<open>The state and frame with which \<open>asm_usermode\<close> leaves for user mode.\<close>

definition mips_usermode ::
  "machine \<Rightarrow> u32 \<Rightarrow> trapframe \<Rightarrow> ('q, 'a, 'h, 'z) kern_scheme \<Rightarrow> (trapframe \<times> ('q, 'a, 'h, 'z) kern_scheme) run" where
  "mips_usermode M tfp tf s =
     (let s1 = (snd (splhigh M s))\<lparr>curspl := 0\<rparr>
      in kassert (SAME_STACK M (curkstack s1 - 1) tfp) ''SAME_STACK'' (Inr (tf, s1)))"

text \<open>The frame after \<open>bzero\<close>.\<close>

definition tf_zero :: trapframe where
  "tf_zero = read_tf (\<lambda>_. 0) 0"

definition md_usermode ::
  "machine \<Rightarrow> u32 \<Rightarrow> u32 \<Rightarrow> u32 \<Rightarrow> u32 \<Rightarrow> u32 \<Rightarrow> ('q, 'a, 'h, 'z) kern_scheme
     \<Rightarrow> (trapframe \<times> ('q, 'a, 'h, 'z) kern_scheme) run" where
  "md_usermode M tfp argc argv stack entry s =
     mips_usermode M tfp (tf_zero\<lparr>tf_status := CST_IRQMASK M OR CST_IEp M OR CST_KUp M, tf_epc := entry, tf_a0 := argc,
       tf_a1 := argv, tf_sp := stack\<rparr>) s"

text \<open>
  The child of a \<open>fork\<close>. \<open>data1\<close> is meant to point to three words, but the code uses the addresses \<open>data1\<close>,
  \<open>data1 + 1\<close> and \<open>data1 + 2\<close> themselves as the words, sets the program counter to \<open>+ 4\<close> (\<open>=+\<close>), and frees
  \<open>data1\<close> twice. The second \<open>kfree\<close> is a call like the first in the model; the allocator, which is not in the repository, may stop there.
\<close>

definition md_forkentry ::
  "('q, 'a, 'h) klib \<Rightarrow> machine \<Rightarrow> u32 \<Rightarrow> ptr \<Rightarrow> u32 \<Rightarrow> ('q, 'a, 'h, 'z) kern_scheme
     \<Rightarrow> (trapframe \<times> ('q, 'a, 'h, 'z) kern_scheme) run" where
  "md_forkentry L M tfp data1 newpid s =
     (let child_tf = read_tf (kmem s) data1
      in deref (threads s) (curthread s) ''curthread'' (\<lambda>t.
         let t1 = t\<lparr>t_vmspace := data1 + 1, pid := newpid, parent := data1 + 2\<rparr>;
             s1 = s\<lparr>threads := (threads s)(curthread s \<mapsto> t1)\<rparr>
         in deref (tables s1) (full_process_table s1) ''full_process_table'' (\<lambda>tab.
            if sint (pid t1) < 0 \<or> sint (pid t1) \<ge> int (length tab) then Inl (BadDeref ''full_process_table[pid]'') else
            let s2 = s1\<lparr>tables := (tables s1)(full_process_table s1 \<mapsto> tab[nat (sint (pid t1)) := curthread s1])\<rparr>;
                tf' = child_tf\<lparr>tf_v0 := 0, tf_a3 := 0, tf_epc := 4\<rparr>;
                s3 = s2\<lparr>kheap := kfree L data1 (kfree L data1 (kheap s2))\<rparr>
            in mips_usermode M tfp tf' (as_activate M (t_vmspace t1) s3))))"

section \<open>The interrupt level across a trap\<close>

lemma on_back_eq_Back:
  "on_back k out = Inr (Back c s') \<longleftrightarrow> (\<exists>b s. out = Back b s \<and> k b s = Inr (Back c s'))"
  by (cases out) auto

lemma trap_done_level:
  assumes "spl_consts M" and "trap_done M spl tfp tf s = Inr (Back tf' s')"
  shows "curspl s' = spl" "\<not> irqs_enabled M s'" "tf' = tf" "SAME_STACK M (curkstack s' - 1) tfp"
proof -
  have "\<not> irqs_enabled M (snd (splhigh M s))"
    using irqs_enabled_splx [OF assms(1), of "SPL_HIGH M" s] assms(1) by (simp add: splhigh_def spl_consts_def)
  with assms(2) show "curspl s' = spl" "\<not> irqs_enabled M s'" "tf' = tf" "SAME_STACK M (curkstack s' - 1) tfp"
    by (auto simp: trap_done_def kassert_def Let_def irqs_enabled_def split: if_splits)
qed

text \<open>
  C17. Whatever the trap was (interrupt, system call, page fault, or a fault redirected to a recovery
  routine), when \<open>mips_trap\<close> returns to the interrupted code it does so with interrupts off, so that the
  return from exception is not disturbed, with \<open>curspl\<close> as the interrupted code had it, and with the frame
  on the kernel stack that the next exception will use. (Returns after the thread was switched away inside the trap are
  not covered.)
\<close>

theorem mips_trap_restores_level:
  assumes "spl_consts M" and "mips_trap L M evs D fuel X junk tfp tf s = Inr (Back tf' s')"
  shows "curspl s' = curspl s \<and> \<not> irqs_enabled M s' \<and> SAME_STACK M (curkstack s' - 1) tfp"
proof -
  obtain tf1 s1 where d: "trap_done M (curspl s) tfp tf1 s1 = Inr (Back tf' s')"
    using assms(2)
    by (auto simp: mips_trap_def Let_def stack_check_def run_eq_Inr on_back_eq_Back split: if_splits)
  show ?thesis using trap_done_level [OF assms(1) d] by simp
qed

section \<open>System calls\<close>

text \<open>A frame that lies on the current thread's stack, for a thread that has one.\<close>

definition frame_on_stack :: "machine \<Rightarrow> u32 \<Rightarrow> ('q, 'a, 'h, 'z) kern_scheme \<Rightarrow> bool" where
  "frame_on_stack M tfp s \<longleftrightarrow> SAME_STACK M (curkstack s - 1) tfp \<and> curthread s \<noteq> NULL
     \<and> (\<exists>t. threads s (curthread s) = Some t \<and> (t_stack t \<noteq> NULL \<longrightarrow> tfp > t_stack t \<and> tfp < t_stack t + STACK_SIZE M))"

lemma stack_check_ok: "frame_on_stack M tfp s \<Longrightarrow> stack_check M tfp s k = k"
  by (auto simp: frame_on_stack_def stack_check_def)

text \<open>A trap from code that ran with interrupts on: the processor turned them off, the level is still 0.\<close>

lemma trap_level_zero:
  assumes "curspl s = 0"
  shows "snd (splx M 0 (s\<lparr>curspl := SPL_HIGH M\<rparr>)) = interrupts_on M s"
  using assms by (cases s) (simp add: splx_def Let_def interrupts_on_def)

lemma mips_trap_syscall:
  assumes "trap_code M tf = EX_SYS M" and "EX_SYS M < NTRAPCODES" and "EX_SYS M \<noteq> EX_IRQ M"
    and "curspl s = 0" and "frame_on_stack M tfp s"
  shows "mips_trap L M evs D fuel X junk tfp tf s
      = bnd (mips_syscall L M D fuel X junk tf (interrupts_on M s)) (on_back (\<lambda>tf' s3. trap_done M 0 tfp tf' s3))"
proof -
  have "frame_on_stack M tfp (s\<lparr>curspl := SPL_HIGH M\<rparr>)" using assms(5) by (simp add: frame_on_stack_def)
  then show ?thesis
    using assms trap_level_zero [of s M] by (simp add: mips_trap_def Let_def stack_check_ok interrupts_on_def)
qed

text \<open>
  C3. The system call convention, end to end. A user program executes \<open>syscall\<close>; the entry code builds the
  frame, \<open>mips_trap\<close> dispatches the call (outcome \<open>err\<close>, \<open>retval\<close>) and the frame it leaves is loaded by the
  return code. Then the program continues at the next instruction, with \<open>v0\<close> the error code and \<open>a3 = 1\<close> if
  the call failed, and \<open>v0\<close> the return value and \<open>a3 = 0\<close> otherwise; every other register (except the kernel's
  \<open>k0\<close> and \<open>k1\<close>) is unchanged.
\<close>

theorem syscall_convention:
  assumes "EX_SYS M < NTRAPCODES" and "EX_SYS M \<noteq> EX_IRQ M"
    and "trap_code M tf = EX_SYS M" and "curspl s = 0" and "frame_on_stack M (entry_sp M c + 16) s"
    and tf: "tf = read_tf (mem (trap_entry M False c)) (entry_sp M c + 16)"
    and call: "syscall_switch L M D fuel X junk tf (interrupts_on M s) = Inr (Back (err, retval) s1)"
    and s1: "curspl s1 = 0" "curkstack s1 = curkstack s"
    and c2: "rd c2 r_sp = entry_sp M c"
  shows "\<exists>tf' s'. mips_trap L M evs D fuel X junk (entry_sp M c + 16) tf s = Inr (Back tf' s') \<and> curspl s' = 0
    \<and> (read_tf (mem c2) (entry_sp M c + 16) = tf' \<longrightarrow>
         pc (exception_return c2) = cp0 c c0_epc_reg + 4
       \<and> rd (exception_return c2) r_v0 = (if err \<noteq> 0 then err else retval)
       \<and> rd (exception_return c2) r_a3 = (if err \<noteq> 0 then 1 else 0)
       \<and> (\<forall>r < 32. r \<notin> {0, r_k0, r_k1, r_v0, r_a3} \<longrightarrow> rd (exception_return c2) r = rd c r))"
proof -
  let ?tfp = "entry_sp M c + 16" and ?tf = "syscall_result err retval tf"
  note trap = mips_trap_syscall [OF assms(3,1,2,4,5), of L evs D fuel X junk]
  have "mips_syscall L M D fuel X junk tf (interrupts_on M s) = Inr (Back ?tf s1)"
    using call assms(4) s1(1) by (simp add: mips_syscall_def interrupts_on_def)
  moreover have "SAME_STACK M (curkstack s1 - 1) ?tfp" using assms(5) s1(2) by (simp add: frame_on_stack_def)
  ultimately obtain s' where s': "mips_trap L M evs D fuel X junk ?tfp tf s = Inr (Back ?tf s')" "curspl s' = 0"
    using trap splx_shape [of M "SPL_HIGH M" s1] by (auto simp: trap_done_def Let_def splhigh_def)
  have regs: "tf_reg ?tf r_v0 = (if err \<noteq> 0 then err else retval)" "tf_reg ?tf r_a3 = (if err \<noteq> 0 then 1 else 0)"
    "tf_epc ?tf = tf_epc tf + 4"
    by (simp_all add: syscall_result_def tf_reg_def)
  have other: "tf_reg ?tf r = tf_reg tf r" if "r < 32" "r \<noteq> r_v0" "r \<noteq> r_a3" for r
    using that by (auto simp: syscall_result_def tf_reg_def less_Suc_eq numeral_eq_Suc nth_Cons')
  show ?thesis
  proof (intro exI conjI impI)
    assume "read_tf (mem c2) ?tfp = ?tf"
    note ret = exception_return_loads [OF c2, unfolded this]
    show "pc (exception_return c2) = cp0 c c0_epc_reg + 4"
      using ret(1) regs(3) trap_entry_frame(1) [where M = M and u = False and c = c] tf by simp
    show "rd (exception_return c2) r_v0 = (if err \<noteq> 0 then err else retval)"
      "rd (exception_return c2) r_a3 = (if err \<noteq> 0 then 1 else 0)"
      using ret(5) [of r_v0] ret(5) [of r_a3] regs(1,2) by simp_all
    show "\<forall>r < 32. r \<notin> {0, r_k0, r_k1, r_v0, r_a3} \<longrightarrow> rd (exception_return c2) r = rd c r"
      using ret(5) other trap_entry_frame(7) [where M = M and u = False and c = c] tf by auto
  qed (use s' in simp_all)
qed

text \<open>A user program makes call 100, which does not exist, on the stack at \<open>0x80004000\<close>.\<close>

definition user_example :: processor where
  "user_example = cpu_example\<lparr>gpr := (\<lambda>r. of_nat r * 3)(r_v0 := 100)\<rparr>"

definition no_userprog :: "'s userprog" where
  "no_userprog = \<lparr>sys_getpid = (\<lambda>_. 4), sys_getppid = (\<lambda>_. 0), sys_execv = (\<lambda>_ _ s. Inr (Back (word_of_int ENOMEM) s)),
     sys_fork = (\<lambda>_ s. Inr (Back (- word_of_int ENOMEM) s)), sys_waitpid = (\<lambda>_ _ _ s. Inr (Back (0, 0) s)),
     sys__exit = (\<lambda>_ s. Inr (Idling s)), user_byte = (\<lambda>_ _. Some 65)\<rparr>"

definition trap_example :: "(lseq, lseq, lheap) io" where
  "trap_example = io_example\<lparr>curspl := 0, c0_status := 0xff0c, curkstack := 0x80005000,
     threads := [0x100 \<mapsto> (new_thread 0x104)\<lparr>t_stack := 0x80004000\<rparr>]\<rparr>"

lemma trap_example_frame: "frame_on_stack sys161 (entry_sp sys161 user_example + 16) trap_example"
  by (simp add: frame_on_stack_def trap_example_def io_example_def sys_example_def sys.extend_def kern.extend_def entry_sp_def
      from_user_def user_example_def cpu_example_def kern_example_def md.extend_def) (simp add: sys161_def)

lemma read_tf_store:
  "read_tf (store_word (b + 44) v m) (b + 16) = (read_tf m (b + 16))\<lparr>tf_v0 := v\<rparr>"
  "read_tf (store_word (b + 64) v m) (b + 16) = (read_tf m (b + 16))\<lparr>tf_a3 := v\<rparr>"
  "read_tf (store_word (b + 160) v m) (b + 16) = (read_tf m (b + 16))\<lparr>tf_epc := v\<rparr>"
  by (simp_all add: read_tf_def add.assoc load_store_off)

theorem syscall_convention_witness:
  "\<exists>s' c2. mips_trap list_klib sys161 [] quiet_devices 1 no_userprog 7 (entry_sp sys161 user_example + 16)
      (read_tf (mem (trap_entry sys161 False user_example)) (entry_sp sys161 user_example + 16)) trap_example
        = Inr (Back (read_tf (mem c2) (entry_sp sys161 user_example + 16)) s')
    \<and> pc (exception_return c2) = 0x400004 \<and> rd (exception_return c2) r_v0 = 23 \<and> rd (exception_return c2) r_a3 = 1"
proof -
  let ?b = "entry_sp sys161 user_example" and ?c = "trap_entry sys161 False user_example"
  let ?tf = "read_tf (mem ?c) (?b + 16)"
  let ?c2 = "?c\<lparr>mem := store_word (?b + 160) (tf_epc ?tf + 4) (store_word (?b + 64) 1 (store_word (?b + 44) 23 (mem ?c)))\<rparr>"
  note f = trap_entry_frame [where M = sys161 and u = False and c = user_example]
  have "tf_reg ?tf r_v0 = 100" "tf_cause ?tf = 32"
    using f(4) f(7) [of r_v0] by (simp_all add: user_example_def cpu_example_def rd_def)
  then have tf: "tf_v0 ?tf = 100" "trap_code sys161 ?tf = EX_SYS sys161" by (simp_all add: tf_reg_def trap_code_def sys161_def)
  have k: "EX_SYS sys161 < NTRAPCODES" "EX_SYS sys161 \<noteq> EX_IRQ sys161" "curspl trap_example = 0"
    by (simp_all add: sys161_def NTRAPCODES_def trap_example_def)
  have call: "syscall_switch list_klib sys161 quiet_devices 1 no_userprog 7 ?tf (interrupts_on sys161 trap_example)
      = Inr (Back (23, 0) (interrupts_on sys161 trap_example))"
    using tf(1) by (simp add: syscall_switch_def callno_defs ENOSYS_def)
  have sp: "rd ?c2 r_sp = ?b" by (simp add: trap_entry_regs)
  have s1: "curspl (interrupts_on sys161 trap_example) = 0"
    "curkstack (interrupts_on sys161 trap_example) = curkstack trap_example" using k(3) by (simp_all add: interrupts_on_def)
  obtain tf' s' where t: "mips_trap list_klib sys161 [] quiet_devices 1 no_userprog 7 (?b + 16) ?tf trap_example = Inr (Back tf' s')"
      "read_tf (mem ?c2) (?b + 16) = tf' \<longrightarrow> pc (exception_return ?c2) = cp0 user_example c0_epc_reg + 4
       \<and> rd (exception_return ?c2) r_v0 = 23 \<and> rd (exception_return ?c2) r_a3 = 1"
    using syscall_convention [OF k(1,2) tf(2) k(3) trap_example_frame refl call s1 sp, of "[]"] by auto
  moreover have "tf' = syscall_result 23 0 ?tf"
    using t(1) mips_trap_syscall [OF tf(2) k trap_example_frame, of list_klib "[]" quiet_devices 1 no_userprog 7] call k(3)
    by (auto simp: mips_syscall_def interrupts_on_def trap_done_def kassert_def Let_def split: if_splits)
  moreover have "syscall_result 23 0 ?tf = read_tf (mem ?c2) (?b + 16)"
    by (simp add: read_tf_store syscall_result_def)
  moreover have "cp0 user_example c0_epc_reg = 0x400000" by (simp add: user_example_def cpu_example_def)
  ultimately show ?thesis by (intro exI [of _ s'] exI [of _ ?c2]) simp
qed

text \<open>The same state takes a bus interrupt.\<close>

lemma trap_example_simps [simp]:
  "curthread trap_example = 0x100" "curspl trap_example = 0" "curkstack trap_example = 0x80005000"
  "threads trap_example = [0x100 \<mapsto> (new_thread 0x104)\<lparr>t_stack := 0x80004000\<rparr>]"
  by (simp_all add: trap_example_def io_example_def sys.extend_def)

theorem mips_trap_restores_level_witness:
  "\<exists>tf' s'. mips_trap list_klib sys161 [] quiet_devices 1 no_userprog 7 0x80004f00 (tf_zero\<lparr>tf_cause := 0x400\<rparr>) trap_example
      = Inr (Back tf' s') \<and> curspl s' = 0 \<and> \<not> irqs_enabled sys161 s'"
proof -
  obtain tf' s' where t: "mips_trap list_klib sys161 [] quiet_devices 1 no_userprog 7 0x80004f00 (tf_zero\<lparr>tf_cause := 0x400\<rparr>) trap_example
      = Inr (Back tf' s')"
    by (simp add: mips_trap_def stack_check_def trap_code_def mips_interrupt_def mips_lamebus_interrupt_def quiet_devices_def
        of_outcome_def trap_done_def Let_def new_thread_def NTRAPCODES_def LAMEBUS_IRQ_BIT_def splhigh_def splx_def interrupts_off_def
        sys161_def)
  from mips_trap_restores_level [OF spl_consts_sys161 t] t show ?thesis by auto
qed

end
