(* ===== verification/Trap_Spec.thy ===== *)
theory Trap_Spec
  imports Trap
begin

text \<open>
  What traps do to the running program: a page fault on a mapped page refills the translation buffer and
  retries, a fatal fault in user mode ends that thread and nothing else, a fault in kernel code that asked
  for it is redirected, and a thread enters user mode in the state that its frame describes.
\<close>

section \<open>Page faults\<close>

text \<open>The exception codes that the handler tells apart.\<close>

definition codes_apart :: "machine \<Rightarrow> bool" where
  "codes_apart M \<longleftrightarrow> distinct [EX_IRQ M, EX_MOD M, EX_TLBL M, EX_TLBS M, EX_IBE M, EX_DBE M, EX_SYS M]
     \<and> (\<forall>c \<in> {EX_IRQ M, EX_MOD M, EX_TLBL M, EX_TLBS M, EX_IBE M, EX_DBE M, EX_SYS M}. c < NTRAPCODES)"

lemma codes_apart_sys161: "codes_apart sys161"
  by (simp add: codes_apart_def sys161_def NTRAPCODES_def)

lemma mips_trap_fault:
  assumes "codes_apart M" and "trap_code M tf \<notin> {EX_IRQ M, EX_SYS M}" and "trap_code M tf < NTRAPCODES"
    and "curspl s = 0" and "frame_on_stack M tfp s"
  shows "mips_trap L M evs D fuel X junk tfp tf s
      = bnd (trap_fault M (trap_code M tf) tf (interrupts_on M s)) (\<lambda>(handled, s3).
              if handled then trap_done M 0 tfp tf s3
              else bnd (trap_fatal L M evs (trap_code M tf) (tf_status tf AND CST_KUp M = 0) tf s3)
                     (on_back (\<lambda>tf' s4. trap_done M 0 tfp tf' s4)))"
proof -
  have "frame_on_stack M tfp (s\<lparr>curspl := SPL_HIGH M\<rparr>)" using assms(5) by (simp add: frame_on_stack_def)
  then show ?thesis
    using assms trap_level_zero [of s M] by (simp add: mips_trap_def Let_def stack_check_ok)
qed

lemma spl_ok_interrupts_on: "spl_consts M \<Longrightarrow> curspl s = 0 \<Longrightarrow> spl_ok M (interrupts_on M s)"
  by (simp add: spl_ok_def irqs_enabled_def interrupts_on_def spl_consts_def bit0_simps)

text \<open>
  C10. A load or store of a user program to an address that its page table maps, but the translation buffer
  does not hold, is transparent: with a free slot the handler fills it with the page and the physical page of the
  page table, valid and writable, and returns with the frame unchanged, so that the instruction is executed again;
  threads and heap are untouched.
\<close>

theorem mips_trap_refills_tlb:
  assumes "codes_apart M" and "page_consts M k" and "spl_consts M" and "trap_code M tf \<in> {EX_TLBL M, EX_TLBS M}"
    and "curspl s = 0" and "frame_on_stack M tfp s" and "threads s (curthread s) = Some t" and "t_vmspace t \<noteq> NULL"
    and "addrspaces s (t_vmspace t) = Some as" and "as_valid M k as" and "as_fits M as"
    and "translate M as (tf_vaddr tf) = Some f" and "free_slot M s = Some i"
  shows "\<exists>s'. mips_trap L M evs D fuel X junk tfp tf s = Inr (Back tf s') \<and> threads s' = threads s \<and> kheap s' = kheap s
    \<and> tlb s' = (tlb s)(i := (of_nat (page_of M (tf_vaddr tf)), of_nat f OR TLBLO_DIRTY M OR TLBLO_VALID M))"
proof -
  let ?s = "interrupts_on M s"
  let ?s1 = "?s\<lparr>tlb := (tlb s)(i := (of_nat (page_of M (tf_vaddr tf)), of_nat f OR TLBLO_DIRTY M OR TLBLO_VALID M))\<rparr>"
  have v: "vm_fault M ft (tf_vaddr tf) ?s = Inr (0, ?s1)" if "ft \<in> {VM_FAULT_READ, VM_FAULT_WRITE}" for ft
    using vm_fault_table [OF assms(2,3) spl_ok_interrupts_on [OF assms(3,5)] that, of t as "tf_vaddr tf"] assms(7-13)
    by (simp add: interrupts_on_def free_slot_def)
  have "trap_fault M (trap_code M tf) tf ?s = Inr (True, ?s1)"
    using assms(1,4) v [of VM_FAULT_READ] v [of VM_FAULT_WRITE] by (auto simp: trap_fault_def Let_def codes_apart_def)
  moreover have "trap_code M tf \<notin> {EX_IRQ M, EX_SYS M}" "trap_code M tf < NTRAPCODES"
    using assms(1,4) by (auto simp: codes_apart_def)
  moreover have "SAME_STACK M (curkstack ?s1 - 1) tfp" using assms(6) by (simp add: frame_on_stack_def interrupts_on_def)
  ultimately show ?thesis
    using mips_trap_fault [OF assms(1) _ _ assms(5,6), of tf L evs D fuel X junk] splx_shape [of M "SPL_HIGH M" ?s1]
    by (auto simp: trap_done_def Let_def splhigh_def interrupts_on_def)
qed

definition refill_example :: "(lseq, lseq, lheap) io" where
  "refill_example = trap_example\<lparr>addrspaces := [0x900 \<mapsto> fault_as], tlb := (\<lambda>_. (0, 0)),
     threads := [0x100 \<mapsto> (new_thread 0x104)\<lparr>t_stack := 0x80004000, t_vmspace := 0x900\<rparr>]\<rparr>"

theorem mips_trap_refills_tlb_witness:
  "\<exists>s'. mips_trap list_klib sys161 [] quiet_devices 1 no_userprog 7 0x80004f00
      (tf_zero\<lparr>tf_cause := 8, tf_vaddr := 0x401234, tf_status := 0xff0c\<rparr>) refill_example
      = Inr (Back (tf_zero\<lparr>tf_cause := 8, tf_vaddr := 0x401234, tf_status := 0xff0c\<rparr>) s') \<and> tlb s' 0 = (0x401000, 0x11600)"
proof -
  let ?tf = "tf_zero\<lparr>tf_cause := 8, tf_vaddr := 0x401234, tf_status := 0xff0c\<rparr>"
  have c: "trap_code sys161 ?tf \<in> {EX_TLBL sys161, EX_TLBS sys161}" "curspl refill_example = 0"
    by (simp_all add: trap_code_def sys161_def refill_example_def trap_example_def)
  have f: "frame_on_stack sys161 0x80004f00 refill_example"
    by (simp add: frame_on_stack_def refill_example_def new_thread_def) (simp add: sys161_def)
  have p: "translate sys161 fault_as (tf_vaddr ?tf) = Some 0x11000" "free_slot sys161 refill_example = Some 0"
      "page_of sys161 (tf_vaddr ?tf) = 0x401000"
    by (simp_all add: translate_def page_table_def segments_def page_of_def fault_as_def sys161_def free_slot_def
        refill_example_def upt_conv_Cons)
  have t: "threads refill_example (curthread refill_example) = Some ((new_thread 0x104)\<lparr>t_stack := 0x80004000, t_vmspace := 0x900\<rparr>)"
    "addrspaces refill_example 0x900 = Some fault_as"
    by (simp_all add: refill_example_def)
  show ?thesis
    using mips_trap_refills_tlb [OF codes_apart_sys161 page_consts_sys161 spl_consts_sys161 c f t(1) _ _ as_valid_fault_as as_fits_fault_as p(1,2),
        of list_klib "[]" quiet_devices 1 no_userprog 7] t(2) p(3)
    by auto (simp_all add: sys161_def)
qed

section \<open>Fatal faults\<close>

text \<open>The mark that a dead thread leaves for its parent survives \<open>thread_exit\<close>.\<close>

lemma scheduler_threads:
  "scheduler L M [] s = Inr pk \<Longrightarrow> threads (case pk of StillIdle s' \<Rightarrow> s' | Picked t s' \<Rightarrow> s') = threads s"
  by (auto simp: scheduler_def take_head_def run_eq_Inr Let_def split: if_splits option.splits prod.splits)

lemma md_switch_mark:
  "md_switch M old nu s = Inr (True, s') \<Longrightarrow> map_option pros_exit (threads s' p) = map_option pros_exit (threads s p)"
  by (auto simp: md_switch_def mips_switch_def run_eq_Inr Let_def split: if_splits)

lemma park_threads: "park L st cur s = Inr s' \<Longrightarrow> threads s' = threads s"
  by (auto simp: park_def make_runnable_def run_eq_Inr Let_def split_beta split: if_splits)

lemma exit_cleanup_mark:
  "threads s (curthread s) = Some t
    \<Longrightarrow> map_option pros_exit (threads (exit_cleanup L t s) (curthread s)) = Some (pros_exit t)"
  by (simp add: exit_cleanup_def as_destroy_def Let_def)

lemma check_magic_Inr: "check_magic t s k = Inr r \<Longrightarrow> k = Inr r"
  by (auto simp: check_magic_def run_eq_Inr Let_def)

lemma mi_switch_pick_mark:
  assumes "mi_switch_pick L M [] cur s = Inr out" and "\<not> is_returned out"
  shows "map_option pros_exit (threads (out_state out) p) = map_option pros_exit (threads s p)"
proof -
  obtain pk where pk: "scheduler L M [] s = Inr pk" using assms(1) by (auto simp: mi_switch_pick_def run_eq_Inr)
  show ?thesis
  proof (cases pk)
    case (StillIdle s1)
    with assms(1) pk scheduler_threads [OF pk] show ?thesis by (auto simp: mi_switch_pick_def out_state_def)
  next
    case (Picked nxt s1)
    then obtain b s2 where sw: "md_switch M cur nxt (s1\<lparr>curthread := nxt\<rparr>) = Inr (b, s2)"
      using assms(1) pk by (auto simp: mi_switch_pick_def run_eq_Inr)
    with assms pk Picked have "b" "out = Switched s2"
      by (auto simp: mi_switch_pick_def is_returned_def run_eq_Inr split: if_splits)
    with md_switch_mark [of M cur nxt _ s2 p] sw scheduler_threads [OF pk] Picked show ?thesis by (simp add: out_state_def)
  qed
qed

lemma thread_exit_mark:
  assumes "thread_exit L M [] s = Inr out" and "\<not> is_returned out" and "threads s (curthread s) = Some t"
  shows "map_option pros_exit (threads (out_state out) (curthread s)) = Some (pros_exit t)"
proof -
  let ?c = "exit_cleanup L t (snd (splhigh M s))"
  let ?s = "?c\<lparr>numthreads := numthreads ?c - 1\<rparr>"
  have mark: "map_option pros_exit (threads ?s (curthread s)) = Some (pros_exit t)"
    using exit_cleanup_mark [of "snd (splhigh M s)" t L] assms(3) by simp
  obtain out1 where o: "mi_switch L M [] S_ZOMB ?s = Inr out1"
      "on_return (\<lambda>s2. Inl (Panic ''Thread came back from the dead!'')) out1 = Inr out"
    using assms(1,3) by (auto simp: thread_exit_def Let_def run_eq_Inr dest!: check_magic_Inr split: if_splits)
  then have e: "out1 = out" "\<not> is_returned out1"
    by (auto simp: on_return_def is_returned_def split: outcome.splits)
  have "curthread ?s \<noteq> NULL" using o(1) e by (auto simp: mi_switch_def is_returned_def run_eq_Inr split: if_splits)
  then obtain s1 where "park L S_ZOMB (curthread ?s) (?s\<lparr>curthread := NULL\<rparr>) = Inr s1"
      "mi_switch_pick L M [] (curthread ?s) s1 = Inr out"
    using o(1) e(1) by (auto simp: mi_switch_def Let_def run_eq_Inr dest!: check_magic_Inr split: if_splits)
  with mi_switch_pick_mark [of L M _ s1 out "curthread s"] park_threads mark assms(2) show ?thesis
    by fastforce
qed

text \<open>
  An access that the page table of the running thread does not cover, or for which the translation buffer has no room: the two
  reasons for which \<open>vm_fault\<close> refuses.
\<close>

definition bad_access :: "machine \<Rightarrow> nat \<Rightarrow> trapframe \<Rightarrow> ('q, 'a, 'h, 'z) kern_scheme \<Rightarrow> bool" where
  "bad_access M k tf s \<longleftrightarrow> trap_code M tf \<in> {EX_TLBL M, EX_TLBS M}
     \<and> (\<exists>t as. threads s (curthread s) = Some t \<and> t_vmspace t \<noteq> NULL \<and> addrspaces s (t_vmspace t) = Some as
         \<and> as_valid M k as \<and> as_fits M as \<and> (translate M as (tf_vaddr tf) = None \<or> free_slot M s = None))"

lemma trap_fault_refused:
  assumes "codes_apart M" and "page_consts M k" and "spl_consts M" and "spl_ok M s" and "bad_access M k tf s"
  shows "trap_fault M (trap_code M tf) tf s = Inr (False, s)"
proof -
  obtain t as where t: "threads s (curthread s) = Some t" "t_vmspace t \<noteq> NULL" "addrspaces s (t_vmspace t) = Some as"
      "as_valid M k as" "as_fits M as" "translate M as (tf_vaddr tf) = None \<or> free_slot M s = None"
    using assms(5) by (auto simp: bad_access_def)
  have "vm_fault M ft (tf_vaddr tf) s = Inr (EFAULT, s)" if "ft \<in> {VM_FAULT_READ, VM_FAULT_WRITE}" for ft
    using vm_fault_table [OF assms(2,3,4) that t(1-5)] t(6) by (auto split: option.splits)
  then have v: "vm_fault M VM_FAULT_READ (tf_vaddr tf) s = Inr (EFAULT, s)" "vm_fault M VM_FAULT_WRITE (tf_vaddr tf) s = Inr (EFAULT, s)"
    by simp_all
  have "trap_code M tf \<in> {EX_TLBL M, EX_TLBS M}" using assms(5) by (simp add: bad_access_def)
  then show ?thesis using assms(1) v by (auto simp: trap_fault_def Let_def codes_apart_def errno_defs)
qed


lemma blocks_ok_vmspace:
  assumes "blocks_ok own T" and "T p = Some t" and "t_vmspace t = NULL" and "v \<notin> own" and "v \<noteq> NULL"
  shows "blocks_ok (insert v own) (T(p \<mapsto> t\<lparr>t_vmspace := v\<rparr>))"
proof -
  let ?T = "T(p \<mapsto> t\<lparr>t_vmspace := v\<rparr>)"
  have e: "thread_blocks p (t\<lparr>t_vmspace := v\<rparr>) = thread_blocks p t @ [v]" using assms(3,5) by (simp add: thread_blocks_def)
  have own: "set (thread_blocks q u) \<subseteq> own" "distinct (thread_blocks q u)" if "T q = Some u" for q u
    using blocks_okD [OF assms(1) that] by simp_all
  have new: "set (thread_blocks p (t\<lparr>t_vmspace := v\<rparr>)) \<inter> set (thread_blocks q u) = {}" if "T q = Some u" "q \<noteq> p" for q u
  proof -
    have "set (thread_blocks p t) \<inter> set (thread_blocks q u) = {}"
      using assms(1,2) that unfolding blocks_ok_def by blast
    with own(1) [OF that(1)] assms(4) show ?thesis unfolding e by auto
  qed
  show ?thesis
    unfolding blocks_ok_def
  proof (intro conjI allI impI)
    show "?T NULL = None" using assms(1,2) by (auto simp: blocks_ok_def)
  next
    fix q u assume "?T q = Some u"
    then show "distinct (thread_blocks q u)" "set (thread_blocks q u) \<subseteq> insert v own"
      using own [of q] own [OF assms(2)] assms(4) e by (auto split: if_splits)
  next
    fix q r u w assume "?T q = Some u \<and> ?T r = Some w \<and> q \<noteq> r"
    then show "set (thread_blocks q u) \<inter> set (thread_blocks r w) = {}"
      using new [of q u] new [of r w] assms(1) unfolding blocks_ok_def by (auto split: if_splits)
  qed
qed

text \<open>
  A running thread whose stack is below \<open>0x5000 + STACK_SIZE\<close> and whose program has the pages of \<open>fault_as\<close>: it
  loads from the unmapped address \<open>0x600000\<close>.
\<close>

definition segv_example :: "(lseq, lseq, lheap) io" where
  "segv_example = io_example\<lparr>curspl := 0, c0_status := 0xff0c, curkstack := 0x6000, addrspaces := [0xa00 \<mapsto> fault_as], tlb := (\<lambda>_. (0, 0)),
     kheap := ([0x600], insert 0xa00 (snd (kheap kern_example))),
     threads := example_threads(0x100 \<mapsto> (new_thread 0x104)\<lparr>t_stack := 0x5000, t_cwd := 0x900, t_vmspace := 0xa00\<rparr>)\<rparr>"

lemma segv_example_fields:
  "curthread segv_example = 0x100" "curspl segv_example = 0" "curkstack segv_example = 0x6000" "addrspaces segv_example = [0xa00 \<mapsto> fault_as]"
  "tlb segv_example = (\<lambda>_. (0, 0))" "kheap segv_example = ([0x600], insert 0xa00 (snd (kheap kern_example)))"
  "threads segv_example = example_threads(0x100 \<mapsto> (new_thread 0x104)\<lparr>t_stack := 0x5000, t_cwd := 0x900, t_vmspace := 0xa00\<rparr>)"
  "runqueue segv_example = runqueue kern_example" "sleepers segv_example = sleepers kern_example"
  "zombies segv_example = zombies kern_example" "numthreads segv_example = numthreads kern_example" "kmem segv_example = kmem kern_example"
  by (simp_all add: segv_example_def io_example_def sys.extend_def sys_example_def kern.extend_def)

lemma segv_example_lists:
  "ready list_klib segv_example = [0x200]" "slp list_klib segv_example = [0x300, 0x500]" "zmb list_klib segv_example = [0x400]"
  "running segv_example = [0x100]" "zmb_room list_klib segv_example = 8" "run_room list_klib segv_example = 8" "slp_room list_klib segv_example = 8"
  by (simp_all add: view_defs segv_example_fields list_klib_def)

lemma segv_example_inv:
  "can_switch list_klib segv_example" "length (zmb list_klib segv_example) < zmb_room list_klib segv_example"
  "abs_of list_klib segv_example = abs_of list_klib kern_example"
proof -
  have t: "example_threads 0x100 = Some ((new_thread 0x104)\<lparr>t_stack := 0x5000, t_cwd := 0x900\<rparr>)"
    "t_vmspace ((new_thread 0x104)\<lparr>t_stack := 0x5000, t_cwd := 0x900\<rparr>) = NULL"
    by (simp_all add: example_threads_def new_thread_def)
  have "blocks_ok (insert 0xa00 (k_owned list_klib (kheap kern_example)))
      (example_threads(0x100 \<mapsto> (new_thread 0x104)\<lparr>t_stack := 0x5000, t_cwd := 0x900, t_vmspace := 0xa00\<rparr>))"
    by (rule blocks_ok_vmspace [OF blocks_ok_example t]) (simp_all add: list_klib_def)
  then have b: "blocks_ok (k_owned list_klib (kheap segv_example)) (threads segv_example)"
    by (simp add: segv_example_fields list_klib_def)
  have d: "set [0x100, 0x200, 0x300, 0x500, 0x400] \<subseteq> dom (threads segv_example)"
    "\<exists>t. threads segv_example 0x400 = Some t \<and> t_vmspace t = NULL \<and> t_cwd t = NULL"
    by (simp_all add: segv_example_fields example_threads_def new_thread_def)
  have "thread_inv list_klib segv_example"
    using b d by (simp add: thread_inv_def klib_laws_list_klib live_def segv_example_lists segv_example_fields(8-11))
  moreover have "rooms_ok list_klib segv_example" by (simp add: rooms_ok_def segv_example_lists segv_example_fields)
  moreover have "stack_intact segv_example"
    by (simp add: stack_intact_def segv_example_fields put_magic_def)
  ultimately show "can_switch list_klib segv_example" by (simp add: can_switch_def segv_example_fields)
  show "length (zmb list_klib segv_example) < zmb_room list_klib segv_example" by (simp add: segv_example_lists)
  show "abs_of list_klib segv_example = abs_of list_klib kern_example"
    by (simp add: abs_of_def segv_example_lists segv_example_fields sleepaddr_of_def)
qed


text \<open>
  A fatal fault in kernel code between the setting and clearing of \<open>pcb_badfaultfunc\<close> does not panic: the
  interrupted code resumes at the recovery routine, with all its other registers as they were.
\<close>

theorem kernel_fault_recovers:
  assumes "codes_apart M" and "trap_code M tf < NTRAPCODES" and "tf_status tf AND CST_KUp M = 0"
    and "trap_code M tf \<notin> {EX_IRQ M, EX_SYS M, EX_MOD M, EX_TLBL M, EX_TLBS M, EX_IBE M, EX_DBE M}"
    and "curspl s = 0" and "frame_on_stack M tfp s" and "threads s (curthread s) = Some t" and "pcb_badfaultfunc (t_pcb t) \<noteq> NULL"
  shows "\<exists>s'. mips_trap L M evs D fuel X junk tfp tf s = Inr (Back (tf\<lparr>tf_epc := pcb_badfaultfunc (t_pcb t)\<rparr>) s')
    \<and> threads s' = threads s"
proof -
  let ?s = "interrupts_on M s"
  have "trap_fault M (trap_code M tf) tf ?s = Inr (False, ?s)" using assms(4) by (simp add: trap_fault_def)
  moreover have "trap_fatal L M evs (trap_code M tf) True tf ?s = Inr (Back (tf\<lparr>tf_epc := pcb_badfaultfunc (t_pcb t)\<rparr>) ?s)"
    using assms(6-8) by (simp add: trap_fatal_def interrupts_on_def frame_on_stack_def)
  moreover have "SAME_STACK M (curkstack ?s - 1) tfp" using assms(6) by (simp add: frame_on_stack_def interrupts_on_def)
  ultimately show ?thesis
    using mips_trap_fault [OF assms(1) _ assms(2,5,6), of L evs D fuel X junk] assms(3,4) splx_shape [of M "SPL_HIGH M" ?s]
    by (auto simp: trap_done_def Let_def splhigh_def interrupts_on_def)
qed

theorem kernel_fault_recovers_witness:
  "\<exists>s'. mips_trap list_klib sys161 [] quiet_devices 1 no_userprog 7 0x80004f00 (tf_zero\<lparr>tf_cause := 16\<rparr>)
      (trap_example\<lparr>threads := [0x100 \<mapsto> (new_thread 0x104)\<lparr>t_stack := 0x80004000,
          t_pcb := md_initpcb0 trap_example\<lparr>pcb_badfaultfunc := 0x80007000\<rparr>\<rparr>]\<rparr>)
      = Inr (Back (tf_zero\<lparr>tf_cause := 16, tf_epc := 0x80007000\<rparr>) s')"
proof -
  let ?t = "(new_thread 0x104)\<lparr>t_stack := 0x80004000, t_pcb := md_initpcb0 trap_example\<lparr>pcb_badfaultfunc := 0x80007000\<rparr>\<rparr>"
  let ?s = "trap_example\<lparr>threads := [0x100 \<mapsto> ?t]\<rparr>" and ?tf = "tf_zero\<lparr>tf_cause := 16\<rparr>"
  have c: "trap_code sys161 ?tf < NTRAPCODES" "tf_status ?tf AND CST_KUp sys161 = 0"
    "trap_code sys161 ?tf \<notin> {EX_IRQ sys161, EX_SYS sys161, EX_MOD sys161, EX_TLBL sys161, EX_TLBS sys161, EX_IBE sys161, EX_DBE sys161}"
    by (simp_all add: trap_code_def sys161_def NTRAPCODES_def tf_zero_def read_tf_def load_word_def)
  have f: "curspl ?s = 0" "frame_on_stack sys161 0x80004f00 ?s" "threads ?s (curthread ?s) = Some ?t" "pcb_badfaultfunc (t_pcb ?t) \<noteq> NULL"
    by (simp_all add: frame_on_stack_def) (simp add: sys161_def)
  show ?thesis
    using kernel_fault_recovers [OF codes_apart_sys161 c f, of list_klib "[]" quiet_devices 1 no_userprog 7] by auto
qed

section \<open>Entering user mode\<close>

lemma asm_usermode_loads:
  assumes "rd c r_a0 = tfp"
  defines "tf \<equiv> read_tf (mem c) tfp" and "c' \<equiv> asm_usermode c"
  shows "pc c' = tf_epc tf" "cp0 c' c0_status_reg = (tf_status tf AND NOT 15) OR (drop_bit 2 (tf_status tf) AND 15)"
    "r < 32 \<Longrightarrow> r \<notin> {0, r_k0, r_k1} \<Longrightarrow> rd c' r = tf_reg tf r"
proof -
  let ?c = "exec [Addi r_sp r_a0 (- 16)] c"
  have "rd ?c r_sp = tfp - 16" "mem ?c = mem c" using assms(1) by simp_all
  then show "pc c' = tf_epc tf" "cp0 c' c0_status_reg = (tf_status tf AND NOT 15) OR (drop_bit 2 (tf_status tf) AND 15)"
    "r < 32 \<Longrightarrow> r \<notin> {0, r_k0, r_k1} \<Longrightarrow> rd c' r = tf_reg tf r"
    using exception_return_loads [of ?c "tfp - 16"] unfolding c'_def tf_def asm_usermode_def by simp_all
qed

text \<open>
  A new program starts as \<open>exec\<close> promises: through \<open>md_usermode\<close> and the return code the processor is at the entry
  point in user mode with interrupts on, the stack pointer and the two argument registers as given, and
  every other register zero, so that nothing of the kernel leaks into the program; the kernel's level is 0.
\<close>

theorem md_usermode_starts_program:
  assumes "md_usermode M tfp argc argv stack entry s = Inr (tf, s')" and "rd c r_a0 = tfp" and "read_tf (mem c) tfp = tf"
    and "CST_KUp M = 8" and "CST_IEp M = 4" and "CST_IRQMASK M AND 63 = 0"
  shows "curspl s' = 0 \<and> pc (asm_usermode c) = entry \<and> rd (asm_usermode c) r_sp = stack \<and> rd (asm_usermode c) r_a0 = argc
    \<and> rd (asm_usermode c) r_a1 = argv \<and> cp0 (asm_usermode c) c0_status_reg = CST_IRQMASK M OR 3
    \<and> (\<forall>r < 32. r \<notin> {r_k0, r_k1, r_sp, r_a0, r_a1} \<longrightarrow> rd (asm_usermode c) r = 0)"
proof -
  have tf: "tf = tf_zero\<lparr>tf_status := CST_IRQMASK M OR CST_IEp M OR CST_KUp M, tf_epc := entry, tf_a0 := argc,
       tf_a1 := argv, tf_sp := stack\<rparr>" "curspl s' = 0"
    using assms(1) by (auto simp: md_usermode_def mips_usermode_def kassert_def Let_def split: if_splits)
  have n: "(63 :: u32) = mask 6" "(15 :: u32) = mask 4" "(3 :: u32) = mask 2" "(4 :: u32) OR 8 = push_bit 2 (mask 2)"
    by (simp_all add: mask_eq_exp_minus_1 push_bit_eq_mult)
  have low: "\<not> bit (CST_IRQMASK M) n" if "n < 6" for n
  proof -
    have "\<not> bit (CST_IRQMASK M AND 63) n" using assms(6) by simp
    then show ?thesis using that unfolding n(1) by (simp add: bit_simps)
  qed
  have "tf_status tf = CST_IRQMASK M OR push_bit 2 (mask 2)"
    using assms(4,5) n(4) by (simp add: tf)
  then have st: "(tf_status tf AND NOT 15) OR (drop_bit 2 (tf_status tf) AND 15) = CST_IRQMASK M OR 3"
    unfolding n(2,3) by (intro bit_word_eqI) (auto simp: bit_simps low)
  have zero: "tf_reg tf_zero r = 0" if "r < 32" for r
    using that by (auto simp: tf_zero_def read_tf_def load_word_def tf_reg_def less_Suc_eq numeral_eq_Suc nth_Cons')
  have regs: "tf_reg tf r_sp = stack" "tf_reg tf r_a0 = argc" "tf_reg tf r_a1 = argv" "tf_epc tf = entry"
    by (simp_all add: tf tf_reg_def)
  have other: "tf_reg tf r = tf_reg tf_zero r" if "r < 32" "r \<notin> {r_sp, r_a0, r_a1}" for r
    using that by (auto simp: tf tf_reg_def less_Suc_eq numeral_eq_Suc nth_Cons')
  note l = asm_usermode_loads [OF assms(2), unfolded assms(3)]
  show ?thesis
    using l(1,2) l(3) [of r_sp] l(3) [of r_a0] l(3) [of r_a1] l(3) regs st tf(2) other zero by (auto simp: rd_def)
qed

lemma splhigh_activate [simp]:
  "curkstack (snd (splhigh M (as_activate M p s))) = curkstack s" "threads (as_activate M p s) = threads s"
  using splx_shape [of M "SPL_HIGH M" "as_activate M p s"] as_activate_shape [of M p s] by (auto simp: splhigh_def)

text \<open>
  C40. The child of a \<open>fork\<close> does not come back from the call: whatever frame the parent left, \<open>md_forkentry\<close> sends it to
  address 4 (\<^verbatim>\<open>child_tf.tf_epc =+ 4\<close>), and makes its address space and its parent the addresses just behind the
  frame's own, \<open>data1 + 1\<close> and \<open>data1 + 2\<close>. A process number outside the table is a stray write.
\<close>

theorem md_forkentry_child:
  assumes "threads s (curthread s) = Some t" and "tables s (full_process_table s) = Some tab"
    and "SAME_STACK M (curkstack s - 1) tfp"
  shows "case md_forkentry L M tfp dp newpid s of
      Inl e \<Rightarrow> e = BadDeref ''full_process_table[pid]'' \<and> (sint newpid < 0 \<or> int (length tab) \<le> sint newpid)
    | Inr (tf', s') \<Rightarrow> 0 \<le> sint newpid \<and> sint newpid < int (length tab) \<and> tf_epc tf' = 4 \<and> tf_v0 tf' = 0 \<and> tf_a3 tf' = 0
        \<and> (\<exists>t'. threads s' (curthread s) = Some t' \<and> t_vmspace t' = dp + 1 \<and> parent t' = dp + 2)"
  using assms by (auto simp: md_forkentry_def mips_usermode_def Let_def)

theorem md_forkentry_child_witness:
  "\<exists>tf' s'. md_forkentry list_klib sys161 0x80004f00 0x700 5
      (trap_example\<lparr>full_process_table := 0x800, tables := [0x800 \<mapsto> replicate 128 0]\<rparr>) = Inr (tf', s') \<and> tf_epc tf' = 4"
proof -
  let ?s = "trap_example\<lparr>full_process_table := 0x800, tables := [0x800 \<mapsto> replicate 128 0]\<rparr>"
  have h: "threads ?s (curthread ?s) = Some ((new_thread 0x104)\<lparr>t_stack := 0x80004000\<rparr>)"
    "tables ?s (full_process_table ?s) = Some (replicate 128 0)" "SAME_STACK sys161 (curkstack ?s - 1) 0x80004f00"
    by (simp_all add: sys161_def)
  from md_forkentry_child [OF h, where L = list_klib and newpid = 5 and dp = "0x700"] show ?thesis
    by (auto split: sum.splits)
qed

text \<open>A program with entry point \<open>0x400000\<close> and one argument; its frame is at \<open>0x80004f00\<close>.\<close>

lemma read_new_frame:
  "read_tf (store_word (p + 4) st (store_word (p + 36) a0 (store_word (p + 40) a1 (store_word (p + 136) sp
     (store_word (p + 144) e (\<lambda>_. 0)))))) p = tf_zero\<lparr>tf_status := st, tf_epc := e, tf_a0 := a0, tf_a1 := a1, tf_sp := sp\<rparr>"
proof -
  have z: "load_word (\<lambda>_. 0) x = 0" for x by (simp add: load_word_def)
  show ?thesis
    using load_store_off [of 0, simplified]
    by (simp add: read_tf_def tf_zero_def load_store_off z)
qed

definition user_start :: processor where
  "user_start = cpu_example\<lparr>gpr := (\<lambda>r. 0x80004f00), mem :=
     store_word (0x80004f00 + 4) 0xff0c (store_word (0x80004f00 + 36) 1 (store_word (0x80004f00 + 40) 0x7ffffff4
       (store_word (0x80004f00 + 136) 0x7ffffff0 (store_word (0x80004f00 + 144) 0x400000 (\<lambda>_. 0)))))\<rparr>"

theorem md_usermode_starts_program_witness:
  "pc (asm_usermode user_start) = 0x400000 \<and> rd (asm_usermode user_start) r_sp = 0x7ffffff0
   \<and> cp0 (asm_usermode user_start) c0_status_reg = 0xff03"
proof -
  obtain tf s' where m: "md_usermode sys161 0x80004f00 1 0x7ffffff4 0x7ffffff0 0x400000 trap_example = Inr (tf, s')"
      "tf = tf_zero\<lparr>tf_status := 0xff0c, tf_epc := 0x400000, tf_a0 := 1, tf_a1 := 0x7ffffff4, tf_sp := 0x7ffffff0\<rparr>"
    by (simp add: md_usermode_def mips_usermode_def Let_def sys161_def splhigh_def splx_def interrupts_off_def)
  have "rd user_start r_a0 = 0x80004f00" "mem user_start = store_word (0x80004f00 + 4) 0xff0c (store_word (0x80004f00 + 36) 1
      (store_word (0x80004f00 + 40) 0x7ffffff4 (store_word (0x80004f00 + 136) 0x7ffffff0 (store_word (0x80004f00 + 144) 0x400000 (\<lambda>_. 0)))))"
    by (simp_all add: user_start_def rd_def)
  with m(2) have c: "rd user_start r_a0 = 0x80004f00" "read_tf (mem user_start) 0x80004f00 = tf"
    using read_new_frame [of "0x80004f00" "0xff0c" 1 "0x7ffffff4" "0x7ffffff0" "0x400000"] by simp_all
  have k: "CST_KUp sys161 = 8" "CST_IEp sys161 = 4" "CST_IRQMASK sys161 AND 63 = 0" by (simp_all add: sys161_def)
  from md_usermode_starts_program [OF m(1) c k] show ?thesis by (simp add: sys161_def)
qed

end
