(* ===== verification/Stoplight.thy ===== *)
theory Stoplight
  imports Synch_Spec
begin

text \<open>
  The vehicles at the three-way intersection, \<^verbatim>\<open>kern/asst1/stoplight.c\<close>, and the drivers of \<^verbatim>\<open>catlock.c\<close> and
  \<^verbatim>\<open>catsem.c\<close>. Each vehicle runs \<open>turnleft\<close> or \<open>turnright\<close> as a program over shared locks and counters; the
  threads interleave between any two of its steps. Acquiring a lock waits until it is free, releasing a lock that one does not hold
  does nothing; \<open>Stoplight_Kernel\<close> shows that the locks of the kernel behave like this.
\<close>

section \<open>Programs\<close>

text \<open>Routes and segments are numbered 0, 1, 2: routes A, B, C and segments AB, BC, CA.\<close>

datatype ilock = Seg nat | Truck nat   \<comment> \<open>\<open>lockAB\<close>, \<open>lockBC\<close>, \<open>lockCA\<close> and \<open>tlA\<close>, \<open>tlB\<close>, \<open>tlC\<close>\<close>

text \<open>
  \<open>cars++\<close> and \<open>cars--\<close> are not atomic: a load into a register and a store. \<open>Enter\<close> and \<open>Leave\<close> are the calls of
  \<open>message_enter\<close> and \<open>message_leave\<close>.
\<close>

datatype vinstr =
    LoadCars nat
  | StoreCars nat int        \<comment> \<open>register plus an increment\<close>
  | UnlessPos nat            \<comment> \<open>\<open>if (cars > 0)\<close> around the next instruction\<close>
  | UnlessZero nat           \<comment> \<open>\<open>if (cars == 0)\<close> around the next instruction\<close>
  | Acquire ilock
  | Release ilock
  | Enter nat
  | Leave nat

definition turnleft :: "nat \<Rightarrow> nat \<Rightarrow> vinstr list" where
  "turnleft vehicledirection vehicletype =
     (if vehicledirection = 0 then
        (if vehicletype = 0 then [LoadCars 0, StoreCars 0 1] else []) @
        [UnlessPos 0, Acquire (Truck 0),
         Acquire (Seg 0), LoadCars 0, StoreCars 0 (- 1),
         UnlessZero 0, Release (Truck 0),
         Enter 0,
         Acquire (Seg 1), Leave 0, Release (Seg 0),
         Enter 1, Leave 1, Release (Seg 1)]
      else if vehicledirection = 1 then
        (if vehicletype = 0 then [LoadCars 1, StoreCars 1 1] else []) @
        [UnlessPos 1, Acquire (Truck 1),
         Acquire (Seg 1), LoadCars 1, StoreCars 1 (- 1),
         UnlessZero 1, Release (Truck 1),
         Enter 1,
         Acquire (Seg 2), Leave 1, Release (Seg 1),
         Enter 2, Leave 2, Release (Seg 2)]
      else if vehicledirection = 2 then
        (if vehicletype = 0 then [LoadCars 2, StoreCars 2 1] else []) @
        [UnlessPos 2, Acquire (Truck 2),
         Acquire (Seg 2), LoadCars 2, StoreCars 2 (- 1),
         UnlessZero 2, Release (Truck 2),
         Enter 2,
         Acquire (Seg 0), Leave 2, Release (Seg 2),
         Enter 0, Leave 0, Release (Seg 0)]
      else [])"

definition turnright :: "nat \<Rightarrow> nat \<Rightarrow> vinstr list" where
  "turnright vehicledirection vehicletype =
     (if vehicledirection = 0 then
        (if vehicletype = 0 then [LoadCars 0, StoreCars 0 1] else []) @
        [UnlessPos 0, Acquire (Truck 0),
         Acquire (Seg 0), LoadCars 0, StoreCars 0 (- 1),
         UnlessZero 0, Release (Truck 0),
         Enter 0, Leave 0, Release (Seg 0)]
      else if vehicledirection = 1 then
        (if vehicletype = 0 then [LoadCars 1, StoreCars 1 1] else []) @
        [UnlessPos 1, Acquire (Truck 1),
         Acquire (Seg 1), LoadCars 1, StoreCars 1 (- 1),
         UnlessZero 1, Release (Truck 1),
         Enter 1, Leave 1, Release (Seg 1)]
      else if vehicledirection = 2 then
        (if vehicletype = 0 then [LoadCars 2, StoreCars 2 1] else []) @
        [UnlessPos 2, Acquire (Truck 2),
         Acquire (Seg 2), LoadCars 2, StoreCars 2 (- 1),
         UnlessZero 2, Release (Truck 2),
         Enter 2, Leave 2, Release (Seg 2)]
      else [])"

definition directions :: "string list" where "directions = [''left'', ''right'']"

text \<open>
  \<open>approachintersection\<close> with the three random numbers: the word it announces (\<open>None\<close>: an index outside the
  array) and the program it runs.
\<close>

definition approachintersection :: "nat \<Rightarrow> nat \<Rightarrow> nat \<Rightarrow> string option \<times> vinstr list" where
  "approachintersection r1 r2 r3 =
     (let vehicledirection = r1 mod 3; turndirection = r2 mod 2; vehicletype = r3 mod 2;
          word = (if vehicledirection < length directions then Some (directions ! vehicledirection) else None)
      in (word, if turndirection = 0 then turnleft vehicledirection vehicletype
                else if turndirection = 1 then turnright vehicledirection vehicletype else []))"

section \<open>Interleaved execution\<close>

record junction =
  owner :: "ilock \<Rightarrow> nat option"
  cars :: "nat \<Rightarrow> int"
  reg :: "nat \<Rightarrow> int"
  code :: "nat \<Rightarrow> vinstr list"
  inside :: "nat \<Rightarrow> nat set"     \<comment> \<open>vehicles that have announced entering a segment and not leaving it\<close>

text \<open>One step of vehicle \<open>v\<close>; \<open>None\<close> when it has finished or has to wait.\<close>

definition vstep :: "nat \<Rightarrow> junction \<Rightarrow> junction option" where
  "vstep v s = (case code s v of
     [] \<Rightarrow> None
   | LoadCars r # p \<Rightarrow> Some (s\<lparr>code := (code s)(v := p), reg := (reg s)(v := cars s r)\<rparr>)
   | StoreCars r i # p \<Rightarrow> Some (s\<lparr>code := (code s)(v := p), cars := (cars s)(r := reg s v + i)\<rparr>)
   | UnlessPos r # p \<Rightarrow> Some (s\<lparr>code := (code s)(v := if cars s r > 0 then p else tl p)\<rparr>)
   | UnlessZero r # p \<Rightarrow> Some (s\<lparr>code := (code s)(v := if cars s r = 0 then p else tl p)\<rparr>)
   | Acquire l # p \<Rightarrow> (if owner s l = None
       then Some (s\<lparr>code := (code s)(v := p), owner := (owner s)(l \<mapsto> v)\<rparr>) else None)
   | Release l # p \<Rightarrow> Some (s\<lparr>code := (code s)(v := p),
       owner := (if owner s l = Some v then (owner s)(l := None) else owner s)\<rparr>)
   | Enter x # p \<Rightarrow> Some (s\<lparr>code := (code s)(v := p), inside := (inside s)(x := insert v (inside s x))\<rparr>)
   | Leave x # p \<Rightarrow> Some (s\<lparr>code := (code s)(v := p), inside := (inside s)(x := inside s x - {v})\<rparr>))"

inductive reaches :: "junction \<Rightarrow> junction \<Rightarrow> bool" where
  reaches_refl: "reaches s s"
| reaches_step: "reaches s t \<Longrightarrow> vstep v t = Some u \<Longrightarrow> reaches s u"

text \<open>All locks free, no cars; vehicle \<open>v\<close> made the random choices \<open>ch v\<close>.\<close>

definition start :: "(nat \<Rightarrow> nat \<times> nat \<times> nat) \<Rightarrow> junction" where
  "start ch = \<lparr>owner = (\<lambda>_. None), cars = (\<lambda>_. 0), reg = (\<lambda>_. 0),
     code = (\<lambda>v. case ch v of (r1, r2, r3) \<Rightarrow> snd (approachintersection r1 r2 r3)), inside = (\<lambda>_. {})\<rparr>"

section \<open>Segments are exclusive\<close>

text \<open>
  The discipline of a program that holds the segments \<open>H\<close> and is in the segments \<open>I\<close>: it enters only segments it
  holds and releases only segments it has left, on every path.
\<close>

function disciplined :: "nat set \<Rightarrow> nat set \<Rightarrow> vinstr list \<Rightarrow> bool" where
  "disciplined H I [] = True"
| "disciplined H I (LoadCars r # p) = disciplined H I p"
| "disciplined H I (StoreCars r i # p) = disciplined H I p"
| "disciplined H I (UnlessPos r # p) = (disciplined H I p \<and> disciplined H I (tl p))"
| "disciplined H I (UnlessZero r # p) = (disciplined H I p \<and> disciplined H I (tl p))"
| "disciplined H I (Acquire (Seg x) # p) = disciplined (insert x H) I p"
| "disciplined H I (Acquire (Truck x) # p) = disciplined H I p"
| "disciplined H I (Release (Seg x) # p) = (x \<notin> I \<and> disciplined (H - {x}) I p)"
| "disciplined H I (Release (Truck x) # p) = disciplined H I p"
| "disciplined H I (Enter x # p) = (x \<in> H \<and> disciplined H (insert x I) p)"
| "disciplined H I (Leave x # p) = disciplined H (I - {x}) p"
  by pat_completeness auto
termination by (relation "measure (\<lambda>(H, I, p). length p)") auto

lemma disciplined_turns: "disciplined {} {} (snd (approachintersection r1 r2 r3))"
proof -
  have "r1 mod 3 = 0 \<or> r1 mod 3 = 1 \<or> r1 mod 3 = 2" "r2 mod 2 = 0 \<or> r2 mod 2 = 1" "r3 mod 2 = 0 \<or> r3 mod 2 = 1" by auto
  then show ?thesis
    by (elim disjE; simp add: approachintersection_def Let_def turnleft_def turnright_def)
qed

definition holds :: "junction \<Rightarrow> nat \<Rightarrow> nat set" where "holds s v = {x. owner s (Seg x) = Some v}"
definition within :: "junction \<Rightarrow> nat \<Rightarrow> nat set" where "within s v = {x. v \<in> inside s x}"

definition junction_ok :: "junction \<Rightarrow> bool" where
  "junction_ok s \<longleftrightarrow> (\<forall>v. within s v \<subseteq> holds s v \<and> disciplined (holds s v) (within s v) (code s v))"

lemma vstep_others:
  assumes "vstep v s = Some u" and "w \<noteq> v"
  shows "holds u w = holds s w" "within u w = within s w" "code u w = code s w"
  using assms by (auto simp: vstep_def holds_def within_def split: list.splits vinstr.splits if_splits)

lemma holds_updates:
  "owner s (Seg x) = None \<Longrightarrow> holds (s\<lparr>code := c, owner := (owner s)(Seg x \<mapsto> v)\<rparr>) v = insert x (holds s v)"
  "holds (s\<lparr>code := c, owner := (if owner s (Seg x) = Some v then (owner s)(Seg x := None) else owner s)\<rparr>) v = holds s v - {x}"
  "holds (s\<lparr>code := c, owner := (owner s)(Truck x \<mapsto> v)\<rparr>) v = holds s v"
  "holds (s\<lparr>code := c, owner := (if owner s (Truck x) = Some v then (owner s)(Truck x := None) else owner s)\<rparr>) v = holds s v"
  "holds (s\<lparr>code := c\<rparr>) v = holds s v" "holds (s\<lparr>reg := r\<rparr>) v = holds s v" "holds (s\<lparr>cars := k\<rparr>) v = holds s v"
  "holds (s\<lparr>inside := n\<rparr>) v = holds s v"
  by (auto simp: holds_def)

lemma within_updates:
  "within (s\<lparr>code := c, inside := (inside s)(x := insert v (inside s x))\<rparr>) v = insert x (within s v)"
  "within (s\<lparr>code := c, inside := (inside s)(x := inside s x - {v})\<rparr>) v = within s v - {x}"
  "within (s\<lparr>code := c\<rparr>) v = within s v" "within (s\<lparr>reg := r\<rparr>) v = within s v" "within (s\<lparr>cars := k\<rparr>) v = within s v"
  "within (s\<lparr>owner := ow\<rparr>) v = within s v"
  by (auto simp: within_def)

lemma vstep_self:
  assumes "vstep v s = Some u" and "within s v \<subseteq> holds s v" and "disciplined (holds s v) (within s v) (code s v)"
  shows "within u v \<subseteq> holds u v \<and> disciplined (holds u v) (within u v) (code u v)"
proof (cases "code s v")
  case Nil
  with assms(1) show ?thesis by (simp add: vstep_def)
next
  case (Cons i p)
  note d = assms [unfolded Cons]
  show ?thesis
  proof (cases i)
    case (Acquire l)
    with d Cons show ?thesis
      by (cases l) (auto simp: vstep_def holds_updates within_updates split: if_splits)
  next
    case (Release l)
    with d Cons show ?thesis
      by (cases l) (auto simp: vstep_def holds_updates within_updates)
  qed (use d Cons in \<open>auto simp: vstep_def holds_updates within_updates split: if_splits\<close>)
qed

lemma junction_ok_reaches:
  assumes "reaches s u" and "junction_ok s"
  shows "junction_ok u"
  using assms
proof (induction rule: reaches.induct)
  case (reaches_step s t v u)
  then have ok: "junction_ok t" by blast
  have "within u w \<subseteq> holds u w \<and> disciplined (holds u w) (within u w) (code u w)" for w
    using ok vstep_self [OF reaches_step(2)] vstep_others [OF reaches_step(2)] by (cases "w = v") (auto simp: junction_ok_def)
  then show ?case by (simp add: junction_ok_def)
qed

lemma junction_ok_start: "junction_ok (start ch)"
  using disciplined_turns by (simp add: junction_ok_def start_def holds_def within_def split_beta)

text \<open>
  No crash: in every interleaving of any number of vehicles, whatever their routes, types and turns, at
  most one vehicle is in a segment of the intersection at any time, and it holds the segment's lock.
\<close>

theorem segments_exclusive:
  assumes "reaches (start ch) s" and "v \<in> inside s x"
  shows "owner s (Seg x) = Some v \<and> inside s x = {v}"
proof -
  have o: "owner s (Seg x) = Some w" if "w \<in> inside s x" for w
    using that junction_ok_reaches [OF assms(1) junction_ok_start]
    by (auto simp: junction_ok_def holds_def within_def subset_iff)
  have "w = v" if "w \<in> inside s x" for w using o [OF that] o [OF assms(2)] by simp
  with o [OF assms(2)] assms(2) show ?thesis by blast
qed

section \<open>Vehicles get stuck\<close>

primrec run_schedule :: "nat list \<Rightarrow> junction \<Rightarrow> junction option" where
  "run_schedule [] s = Some s"
| "run_schedule (v # vs) s = (case vstep v s of None \<Rightarrow> None | Some u \<Rightarrow> run_schedule vs u)"

lemma run_schedule_reaches: "run_schedule vs t = Some u \<Longrightarrow> reaches s t \<Longrightarrow> reaches s u"
  by (induction vs arbitrary: t) (auto split: option.splits intro: reaches_step)

lemma start_simps [simp]:
  "owner (start ch) l = None" "cars (start ch) r = 0" "reg (start ch) v = 0" "inside (start ch) x = {}"
  "code (start ch) v = snd (approachintersection (fst (ch v)) (fst (snd (ch v))) (snd (snd (ch v))))"
  by (simp_all add: start_def split_beta)

lemma programs:
  "snd (approachintersection 0 1 0) = [LoadCars 0, StoreCars 0 1, UnlessPos 0, Acquire (Truck 0), Acquire (Seg 0), LoadCars 0,
     StoreCars 0 (- 1), UnlessZero 0, Release (Truck 0), Enter 0, Leave 0, Release (Seg 0)]"
  "snd (approachintersection 0 0 1) = [UnlessPos 0, Acquire (Truck 0), Acquire (Seg 0), LoadCars 0, StoreCars 0 (- 1),
     UnlessZero 0, Release (Truck 0), Enter 0, Acquire (Seg 1), Leave 0, Release (Seg 0), Enter 1, Leave 1, Release (Seg 1)]"
  "snd (approachintersection 1 0 1) = [UnlessPos 1, Acquire (Truck 1), Acquire (Seg 1), LoadCars 1, StoreCars 1 (- 1),
     UnlessZero 1, Release (Truck 1), Enter 1, Acquire (Seg 2), Leave 1, Release (Seg 1), Enter 2, Leave 2, Release (Seg 2)]"
  "snd (approachintersection 2 0 1) = [UnlessPos 2, Acquire (Truck 2), Acquire (Seg 2), LoadCars 2, StoreCars 2 (- 1),
     UnlessZero 2, Release (Truck 2), Enter 2, Acquire (Seg 0), Leave 2, Release (Seg 2), Enter 0, Leave 0, Release (Seg 0)]"
  by (simp_all add: approachintersection_def Let_def turnleft_def turnright_def)

lemmas schedule_simps = vstep_def programs [unfolded One_nat_def]

theorem segments_exclusive_witness:
  "\<exists>s. reaches (start (\<lambda>v. (0, 1, 0))) s \<and> inside s 0 = {7}"
proof -
  obtain s where s: "run_schedule [7, 7, 7, 7, 7, 7, 7, 7, 7, 7] (start (\<lambda>v. (0, 1, 0))) = Some s" "7 \<in> inside s 0"
    by (simp add: schedule_simps)
  from run_schedule_reaches [OF s(1) reaches_refl] segments_exclusive [OF _ s(2)] show ?thesis by blast
qed

text \<open>A lock that nobody who still runs holds is never released.\<close>

definition abandoned :: "nat \<Rightarrow> nat \<Rightarrow> junction \<Rightarrow> bool" where
  "abandoned v r s \<longleftrightarrow> code s v = [] \<and> owner s (Truck r) = Some v"

lemma abandoned_step: "abandoned v r s \<Longrightarrow> vstep w s = Some u \<Longrightarrow> abandoned v r u"
  by (auto simp: abandoned_def vstep_def split: list.splits vinstr.splits if_splits)

lemma waiting_step:
  "abandoned v r s \<Longrightarrow> code s x = Acquire (Truck r) # p \<Longrightarrow> vstep w s = Some u \<Longrightarrow> code u x = Acquire (Truck r) # p"
  by (auto simp: abandoned_def vstep_def split: list.splits vinstr.splits if_splits)

lemma stuck_forever:
  assumes "reaches s u" and "abandoned v r s" and "code s x = Acquire (Truck r) # p"
  shows "abandoned v r u \<and> code u x = Acquire (Truck r) # p"
  using assms by (induction rule: reaches.induct) (auto intro: abandoned_step waiting_step)

text \<open>
  C26. Two cars that come from the same route at the same time are enough to block it: the first takes the truck
  lock, finds another car counted when it should release it, and leaves with the lock; the second then
  waits for that lock in every continuation, and never completes its turn.
\<close>

theorem second_car_stuck:
  "\<exists>s. reaches (start (\<lambda>v. (0, 1, 0))) s \<and> code s 0 = []
     \<and> (\<forall>u. reaches s u \<longrightarrow> vstep 1 u = None \<and> code u 1 \<noteq> [])"
proof -
  obtain s where s: "run_schedule [0, 0, 1, 1, 0, 0, 1, 0, 0, 0, 0, 0, 0, 0] (start (\<lambda>v. (0, 1, 0))) = Some s"
      "abandoned 0 0 s" "code s 1 = Acquire (Truck 0) # drop 4 (snd (approachintersection 0 1 0))"
    by (simp add: schedule_simps abandoned_def)
  have "vstep 1 u = None \<and> code u 1 \<noteq> []" if "reaches s u" for u
    using stuck_forever [OF that s(2,3)] by (auto simp: vstep_def abandoned_def)
  with s run_schedule_reaches [OF s(1) reaches_refl] show ?thesis by (auto simp: abandoned_def)
qed

theorem second_car_stuck_witness:
  "\<exists>s. reaches (start (\<lambda>v. (0, 1, 0))) s \<and> code s 0 = [] \<and> vstep 1 s = None \<and> code s 1 \<noteq> []"
  using second_car_stuck reaches_refl by blast

definition gridlock :: "junction \<Rightarrow> bool" where
  "gridlock s \<longleftrightarrow> (\<forall>v < 3. owner s (Seg v) = Some v \<and> (\<exists>p. code s v = Acquire (Seg ((v + 1) mod 3)) # p))"

lemma gridlock_stuck:
  assumes "gridlock s" and "v < 3"
  shows "vstep v s = None" "code s v \<noteq> []"
proof -
  obtain p where p: "code s v = Acquire (Seg ((v + 1) mod 3)) # p" using assms by (auto simp: gridlock_def)
  have "(v + 1) mod 3 < 3" by simp
  then have "owner s (Seg ((v + 1) mod 3)) = Some ((v + 1) mod 3)" using assms(1) unfolding gridlock_def by blast
  with p show "vstep v s = None" "code s v \<noteq> []" by (simp_all add: vstep_def)
qed

lemma gridlock_step:
  assumes "gridlock s" and "vstep w s = Some u"
  shows "gridlock u"
proof -
  have w: "\<not> w < 3" using gridlock_stuck(1) [OF assms(1)] assms(2) by fastforce
  have "owner u (Seg v) = Some v \<and> code u v = code s v" if "v < 3" for v
  proof -
    have "owner s (Seg v) = Some v" "w \<noteq> v" using assms(1) that w by (auto simp: gridlock_def)
    then show ?thesis using assms(2) by (auto simp: vstep_def split: list.splits vinstr.splits if_splits)
  qed
  then show ?thesis using assms(1) by (simp add: gridlock_def)
qed

lemma gridlock_reaches: "reaches s u \<Longrightarrow> gridlock s \<Longrightarrow> gridlock u"
  by (induction rule: reaches.induct) (auto intro: gridlock_step)

text \<open>A truck that turns left from an empty route gets into its first segment and waits for the second.\<close>

definition left_program :: "nat \<Rightarrow> nat \<Rightarrow> vinstr list" where
  "left_program r n = [UnlessPos r, Acquire (Truck r), Acquire (Seg r), LoadCars r, StoreCars r (- 1),
     UnlessZero r, Release (Truck r), Enter r, Acquire (Seg n), Leave r, Release (Seg r), Enter n, Leave n, Release (Seg n)]"

definition left_half :: "nat \<Rightarrow> nat \<Rightarrow> nat \<Rightarrow> junction \<Rightarrow> junction" where
  "left_half v r n s = s\<lparr>code := (code s)(v := drop 8 (left_program r n)), owner := (owner s)(Seg r \<mapsto> v),
     cars := (cars s)(r := - 1), reg := (reg s)(v := 0), inside := (inside s)(r := insert v (inside s r))\<rparr>"

lemma left_half_run:
  assumes "code s v = left_program r n" and "cars s r = 0" and "owner s (Seg r) = None"
  shows "run_schedule [v, v, v, v, v, v] s = Some (left_half v r n s)"
  using assms by (simp add: left_program_def vstep_def left_half_def)

text \<open>
  C27. Three vehicles that turn left from the three routes can block each other forever: each holds the segment
  that the next one needs. (The truck locks do not prevent this; for trucks they are not even taken.)
\<close>

theorem left_turns_gridlock:
  "\<exists>s. reaches (start (\<lambda>v. (v, 0, 1))) s \<and> (\<forall>u. reaches s u \<longrightarrow> (\<forall>v < 3. vstep v u = None \<and> code u v \<noteq> []))"
proof -
  let ?s0 = "start (\<lambda>v. (v, 0, 1))"
  define s1 where "s1 = left_half 0 0 1 ?s0"
  define s2 where "s2 = left_half 1 1 2 s1"
  define s3 where "s3 = left_half 2 2 0 s2"
  have "run_schedule [0, 0, 0, 0, 0, 0] ?s0 = Some s1"
    unfolding s1_def by (rule left_half_run) (simp_all add: programs [unfolded One_nat_def] left_program_def)
  moreover have "run_schedule [1, 1, 1, 1, 1, 1] s1 = Some s2"
    unfolding s2_def by (rule left_half_run) (simp_all add: s1_def left_half_def programs [unfolded One_nat_def] left_program_def)
  moreover have "run_schedule [2, 2, 2, 2, 2, 2] s2 = Some s3"
    unfolding s3_def by (rule left_half_run) (simp_all add: s2_def s1_def left_half_def programs [unfolded One_nat_def] left_program_def)
  ultimately have r: "reaches ?s0 s3" by (blast intro: run_schedule_reaches reaches_refl)
  have d: "drop 8 (left_program r n) = Acquire (Seg n) # drop 9 (left_program r n)" for r n by (simp add: left_program_def)
  have "v < 3 \<longleftrightarrow> v = 0 \<or> v = 1 \<or> v = 2" for v :: nat by auto
  then have "gridlock s3" by (auto simp: gridlock_def s3_def s2_def s1_def left_half_def d)
  then have "\<forall>v < 3. vstep v u = None \<and> code u v \<noteq> []" if "reaches s3 u" for u
    using gridlock_stuck [OF gridlock_reaches [OF that]] by blast
  with r show ?thesis by blast
qed

theorem left_turns_gridlock_witness:
  "\<exists>s. reaches (start (\<lambda>v. (v, 0, 1))) s \<and> vstep 2 s = None \<and> code s 2 \<noteq> []"
proof -
  obtain s where s: "reaches (start (\<lambda>v. (v, 0, 1))) s"
      "\<forall>u. reaches s u \<longrightarrow> (\<forall>v < 3. vstep v u = None \<and> code u v \<noteq> [])"
    using left_turns_gridlock by blast
  then have "vstep 2 s = None \<and> code s 2 \<noteq> []" using reaches_refl [of s] by simp
  with s(1) show ?thesis by blast
qed

section \<open>The drivers\<close>

text \<open>The bodies of the cat and mouse threads are empty.\<close>

definition catlock :: "ptr \<Rightarrow> u32 \<Rightarrow> 's \<Rightarrow> 's run" where "catlock unusedpointer catnumber s = Inr s"
definition mouselock :: "ptr \<Rightarrow> u32 \<Rightarrow> 's \<Rightarrow> 's run" where "mouselock unusedpointer mousenumber s = Inr s"
definition catsem :: "ptr \<Rightarrow> u32 \<Rightarrow> 's \<Rightarrow> 's run" where "catsem unusedpointer catnumber s = Inr s"
definition mousesem :: "ptr \<Rightarrow> u32 \<Rightarrow> 's \<Rightarrow> 's run" where "mousesem unusedpointer mousenumber s = Inr s"

text \<open>The loops that start the threads; \<open>func\<close> is the address of the function, \<open>who\<close> the prefix of the panic message.\<close>

primrec fork_loop ::
  "('q, 'a, 'h) klib \<Rightarrow> machine \<Rightarrow> string \<Rightarrow> string \<Rightarrow> u32 \<Rightarrow> nat list \<Rightarrow> ('q, 'a, 'h, 'z) kern_scheme \<Rightarrow> ('q, 'a, 'h, 'z) kern_scheme run" where
  "fork_loop L M name who func [] s = Inr s"
| "fork_loop L M name who func (index # is) s =
     bnd (thread_fork L M name NULL (of_nat index) func s) (\<lambda>((error, ret), s1).
     if error \<noteq> 0 then Inl (Panic (who @ '': thread_fork failed'')) else fork_loop L M name who func is s1)"

definition NCATS :: nat where "NCATS = 6"
definition NMICE :: nat where "NMICE = 2"
definition NVEHICLES :: nat where "NVEHICLES = 20"

definition catmouselock ::
  "('q, 'a, 'h) klib \<Rightarrow> machine \<Rightarrow> u32 \<Rightarrow> u32 \<Rightarrow> ('q, 'a, 'h, 'z) kern_scheme \<Rightarrow> (int \<times> ('q, 'a, 'h, 'z) kern_scheme) run" where
  "catmouselock L M cat mouse s =
     bnd (fork_loop L M ''catlock thread'' ''catlock'' cat [0..<NCATS] s) (\<lambda>s1.
     bnd (fork_loop L M ''mouselock thread'' ''mouselock'' mouse [0..<NMICE] s1) (\<lambda>s2. Inr (0, s2)))"

definition catmousesem ::
  "('q, 'a, 'h) klib \<Rightarrow> machine \<Rightarrow> u32 \<Rightarrow> u32 \<Rightarrow> ('q, 'a, 'h, 'z) kern_scheme \<Rightarrow> (int \<times> ('q, 'a, 'h, 'z) kern_scheme) run" where
  "catmousesem L M cat mouse s =
     bnd (fork_loop L M ''catsem Thread'' ''catsem'' cat [0..<NCATS] s) (\<lambda>s1.
     bnd (fork_loop L M ''mousesem Thread'' ''mousesem'' mouse [0..<NMICE] s1) (\<lambda>s2. Inr (0, s2)))"

text \<open>\<open>createvehicles\<close> also returns the locks it made, in the order of creation, and leaves the counters at 0.\<close>

definition createvehicles ::
  "('q, 'a, 'h) klib \<Rightarrow> machine \<Rightarrow> u32 \<Rightarrow> ('q, 'a, 'h, 'z) sys_scheme \<Rightarrow> (int \<times> ptr list \<times> (nat \<Rightarrow> int) \<times> ('q, 'a, 'h, 'z) sys_scheme) run" where
  "createvehicles L M approach s =
     (let (lockAB, s1) = lock_create L ''AB'' s;
          (lockBC, s2) = lock_create L ''BC'' s1;
          (lockCA, s3) = lock_create L ''CA'' s2;
          (tempy, s4) = lock_create L ''temp'' s3;
          (tlA, s5) = lock_create L ''truckA'' s4;
          (tlB, s6) = lock_create L ''truckB'' s5;
          (tlC, s7) = lock_create L ''truckC'' s6
      in bnd (fork_loop L M ''approachintersection thread'' ''approachintersection'' approach [0..<NVEHICLES] s7) (\<lambda>s8.
         Inr (0, [lockAB, lockBC, lockCA, tempy, tlA, tlB, tlC], (\<lambda>_. 0), s8)))"

text \<open>How a fork loop may end: all threads started, or a panic, or the unchecked allocation of the process table.\<close>

definition forked :: "('q, 'a, 'h) klib \<Rightarrow> nat \<Rightarrow> ('q, 'a, 'h, 'z) kern_scheme \<Rightarrow> ('q, 'a, 'h, 'z) kern_scheme \<Rightarrow> bool" where
  "forked L n s s' \<longleftrightarrow> thread_inv L s' \<and> curthread s' = curthread s \<and> sint (numthreads s') = sint (numthreads s) + int n
     \<and> (\<exists>ps. length ps = n \<and> distinct ps \<and> set ps \<inter> dom (threads s) = {} \<and> set ps \<union> dom (threads s) = dom (threads s')
          \<and> abs_of L s' = (abs_of L s)\<lparr>a_ready := a_ready (abs_of L s) @ ps\<rparr>)"

lemma forked_trans:
  assumes "forked L n s t" and "forked L m t u"
  shows "forked L (n + m) s u"
proof -
  obtain ps where p: "length ps = n" "distinct ps" "set ps \<inter> dom (threads s) = {}" "set ps \<union> dom (threads s) = dom (threads t)"
      "abs_of L t = (abs_of L s)\<lparr>a_ready := a_ready (abs_of L s) @ ps\<rparr>"
    using assms(1) by (auto simp: forked_def)
  obtain qs where q: "length qs = m" "distinct qs" "set qs \<inter> dom (threads t) = {}" "set qs \<union> dom (threads t) = dom (threads u)"
      "abs_of L u = (abs_of L t)\<lparr>a_ready := a_ready (abs_of L t) @ qs\<rparr>"
    using assms(2) by (auto simp: forked_def)
  have "length (ps @ qs) = n + m" "distinct (ps @ qs)" "set (ps @ qs) \<inter> dom (threads s) = {}"
    using p(1-3) q(1-3) unfolding p(4) [symmetric] by auto
  moreover have "set (ps @ qs) \<union> dom (threads s) = dom (threads u)" unfolding q(4) [symmetric] p(4) [symmetric] by auto
  moreover have "abs_of L u = (abs_of L s)\<lparr>a_ready := a_ready (abs_of L s) @ ps @ qs\<rparr>" using p(5) q(5) by simp
  ultimately show ?thesis using assms unfolding forked_def by (intro conjI exI [of _ "ps @ qs"]) simp_all
qed

lemma fork_loop_spec:
  assumes "thread_inv L s" and "curthread s \<noteq> NULL" and "spl_consts M" and "sint (numthreads s) + int (length idx) < 2 ^ 31"
  shows "case fork_loop L M name who func idx s of
      Inr s' \<Rightarrow> forked L (length idx) s s'
    | Inl e \<Rightarrow> e = Panic (who @ '': thread_fork failed'') \<or> e = BadDeref ''full_process_table''"
  using assms(1,2,4)
proof (induction idx arbitrary: s)
  case Nil
  then show ?case by (simp add: forked_def)
next
  case (Cons i idx)
  have n: "sint (numthreads s) < 2 ^ 31 - 1" using Cons.prems(3) by simp
  show ?case
  proof (cases "thread_fork L M name NULL (of_nat i) func s")
    case (Inl e)
    then show ?thesis using thread_fork_abs [OF Cons.prems(1,2) assms(3) n, of name NULL "of_nat i" func] by auto
  next
    case (Inr b)
    obtain r ret s1 where b: "b = ((r, ret), s1)" by (cases b) auto
    have f: "fork_promise L s r ret s1"
      using thread_fork_abs [OF Cons.prems(1,2) assms(3) n, of name NULL "of_nat i" func] Inr b by auto
    show ?thesis
    proof (cases "r = 0")
      case False
      then show ?thesis using Inr b by simp
    next
      case True
      then have one: "forked L 1 s s1" "curthread s1 \<noteq> NULL" "thread_inv L s1" "sint (numthreads s1) + int (length idx) < 2 ^ 31"
        using f Cons.prems sint_plus_one [OF n] unfolding fork_promise_def forked_def spec_fork_def
        by (auto intro!: exI [of _ "[_]"])
      from Cons.IH [OF one(3,2,4)] show ?thesis
        using Inr b True forked_trans [OF one(1), of "length idx"] by (auto split: sum.splits)
    qed
  qed
qed

text \<open>
  The menu command \<open>catmouselock\<close> either starts all eight threads, six cats and then two mice, in order at the end of
  the ready list, with the thread system's invariant intact, and returns 0; or it panics because a fork
  failed (or dies in the unchecked allocation of the process table). It never returns with fewer threads.
\<close>

theorem catmouselock_forks:
  assumes "thread_inv L s" and "curthread s \<noteq> NULL" and "spl_consts M" and "sint (numthreads s) + 8 < 2 ^ 31"
  shows "case catmouselock L M cat mouse s of
      Inr (r, s') \<Rightarrow> r = 0 \<and> forked L 8 s s'
    | Inl e \<Rightarrow> e \<in> {Panic ''catlock: thread_fork failed'', Panic ''mouselock: thread_fork failed'', BadDeref ''full_process_table''}"
proof (cases "fork_loop L M ''catlock thread'' ''catlock'' cat [0..<NCATS] s")
  case (Inl e)
  then show ?thesis
    using fork_loop_spec [OF assms(1-3), where idx = "[0..<NCATS]" and name = "''catlock thread''" and who = "''catlock''" and func = cat] assms(4)
    by (auto simp: catmouselock_def NCATS_def)
next
  case (Inr s1)
  then have c: "forked L 6 s s1"
    using fork_loop_spec [OF assms(1-3), where idx = "[0..<NCATS]" and name = "''catlock thread''" and who = "''catlock''" and func = cat] assms(4)
    by (simp add: NCATS_def)
  then have s1: "thread_inv L s1" "curthread s1 \<noteq> NULL" "sint (numthreads s1) + int (length [0..<NMICE]) < 2 ^ 31"
    using assms(2,4) by (simp_all add: forked_def NMICE_def)
  show ?thesis
    using fork_loop_spec [OF s1(1,2) assms(3) s1(3), where name = "''mouselock thread''" and who = "''mouselock''" and func = mouse] Inr
      forked_trans [OF c, of 2] by (auto simp: catmouselock_def NMICE_def split: sum.splits)
qed

text \<open>The example's heap has memory for one more thread; the second fork fails.\<close>

theorem catmouselock_forks_witness:
  "case catmouselock list_klib sys161 0x80001000 0x80002000 kern_example of
      Inr (r, s') \<Rightarrow> r = 0 \<and> forked list_klib 8 kern_example s'
    | Inl e \<Rightarrow> e \<in> {Panic ''catlock: thread_fork failed'', Panic ''mouselock: thread_fork failed'', BadDeref ''full_process_table''}"
  by (rule catmouselock_forks [OF thread_inv_example _ spl_consts_sys161]) simp_all

end
