(* ===== verification/Menu.thy ===== *)
theory Menu
  imports Trap_Spec Stoplight
begin

text \<open>
  The in-kernel menu, \<^verbatim>\<open>kern/main/menu.c\<close>: splitting of command lines, the command table, the commands and the
  dispatcher, and \<open>getinterval\<close>. Build options are a parameter record; the VFS, the program loader and the test
  programs that the commands call are not in the repository and form the record \<open>menu_env\<close>.
\<close>

section \<open>Time\<close>

definition getinterval :: "s32 \<Rightarrow> u32 \<Rightarrow> s32 \<Rightarrow> u32 \<Rightarrow> s32 \<times> u32" where
  "getinterval s1 ns1 s2 ns2 =
     (let (ns2', s2') = (if ns2 < ns1 then (ns2 + 1000000000, s2 - 1) else (ns2, s2))
      in (s2' - s1, ns2' - ns1))"

section \<open>Words\<close>

text \<open>
  The sequence of tokens that \<open>strtok_r(s, seps, &context)\<close> and the following calls with \<open>NULL\<close> return: the
  maximal non-empty runs of characters that are not separators.
\<close>

function tokens :: "char list \<Rightarrow> string \<Rightarrow> string list" where
  "tokens seps s =
     (case dropWhile (\<lambda>c. c \<in> set seps) s of
        [] \<Rightarrow> []
      | c # cs \<Rightarrow> (c # takeWhile (\<lambda>c. c \<notin> set seps) cs) # tokens seps (dropWhile (\<lambda>c. c \<notin> set seps) cs))"
  by pat_completeness auto
termination
proof (relation "measure (\<lambda>(seps, s). length s)")
  fix seps s and c :: char and cs
  assume "dropWhile (\<lambda>c. c \<in> set seps) s = c # cs"
  then have "length (c # cs) \<le> length s" using length_dropWhile_le [of "\<lambda>c. c \<in> set seps" s] by simp
  moreover have "length (dropWhile (\<lambda>c. c \<notin> set seps) cs) \<le> length cs" by (rule length_dropWhile_le)
  ultimately show "((seps, dropWhile (\<lambda>c. c \<notin> set seps) cs), seps, s) \<in> measure (\<lambda>(seps, s). length s)" by simp
qed auto

declare tokens.simps [simp del]

section \<open>Environment and commands\<close>

record options =
  opt_synchprobs :: bool
  opt_sfs :: bool
  opt_net :: bool

type_synonym 's command = "string list \<Rightarrow> 's \<Rightarrow> (int, 's) trap_out run"

record 's menu_env =
  vfs_chdir :: "string \<Rightarrow> 's \<Rightarrow> (int \<times> 's) run"
  vfs_getcwd :: "'s \<Rightarrow> (int \<times> 's) run"
  vfs_sync :: "'s \<Rightarrow> 's run"
  vfs_unmount :: "string \<Rightarrow> 's \<Rightarrow> (int \<times> 's) run"
  sfs_mount :: "string \<Rightarrow> 's \<Rightarrow> (int \<times> 's) run"
  runprogram :: "string \<Rightarrow> 's \<Rightarrow> (int, 's) trap_out run"
  gettime :: "'s \<Rightarrow> s32 \<times> u32"
  testfn :: "string \<Rightarrow> 's command"     \<comment> \<open>the test functions of \<^verbatim>\<open>test.h\<close>, by name\<close>
  args_addr :: u32                     \<comment> \<open>where the array \<open>args\<close> lies\<close>
  code_addr :: "string \<Rightarrow> u32"          \<comment> \<open>where the linker placed a function\<close>

definition plain :: "('s \<Rightarrow> (int \<times> 's) run) \<Rightarrow> 's \<Rightarrow> (int, 's) trap_out run" where
  "plain f s = bnd (f s) (\<lambda>(r, s1). Inr (Back r s1))"

text \<open>The thread that runs a program; \<open>args\<close> is what its first argument points to.\<close>

definition cmd_progthread :: "'s menu_env \<Rightarrow> string list \<Rightarrow> nat \<Rightarrow> 's \<Rightarrow> (unit, 's) trap_out run" where
  "cmd_progthread E args nargs s =
     kassert (nargs \<ge> 1) ''nargs >= 1'' (
     if args = [] then Inl (BadDeref ''args[0]'') else
     kassert (length (args ! 0) < 128) ''strlen(args[0]) < sizeof(progname)'' (
     bnd (runprogram E (args ! 0) s) (on_back (\<lambda>result s1. Inr (Back () s1)))))"

text \<open>\<open>off\<close> is how many words of the array were dropped before.\<close>

definition common_prog ::
  "('q, 'a, 'h) klib \<Rightarrow> machine \<Rightarrow> ('q, 'a, 'h, 'z) io_scheme menu_env \<Rightarrow> nat \<Rightarrow> ('q, 'a, 'h, 'z) io_scheme command" where
  "common_prog L M E off args s =
     (case args of [] \<Rightarrow> Inl (BadDeref ''args[0]'')
      | a # _ \<Rightarrow>
        bnd (thread_fork L M a (args_addr E + 4 * of_nat off) (of_nat (length args)) (code_addr E ''cmd_progthread'') s)
          (\<lambda>((result, ret), s1). Inr (Back (if result \<noteq> 0 then result else 0) s1)))"

definition cmd_prog ::
  "('q, 'a, 'h) klib \<Rightarrow> machine \<Rightarrow> ('q, 'a, 'h, 'z) io_scheme menu_env \<Rightarrow> ('q, 'a, 'h, 'z) io_scheme command" where
  "cmd_prog L M E args s = (if length args < 2 then Inr (Back EINVAL s) else common_prog L M E 1 (tl args) s)"

definition cmd_shell ::
  "('q, 'a, 'h) klib \<Rightarrow> machine \<Rightarrow> ('q, 'a, 'h, 'z) io_scheme menu_env \<Rightarrow> ('q, 'a, 'h, 'z) io_scheme command" where
  "cmd_shell L M E args s = (if length args \<noteq> 1 then Inr (Back EINVAL s) else common_prog L M E 0 (args[0 := ''/bin/sh'']) s)"

definition cmd_chdir :: "'s menu_env \<Rightarrow> 's command" where
  "cmd_chdir E args s = (if length args \<noteq> 2 then Inr (Back EINVAL s) else plain (vfs_chdir E (args ! 1)) s)"

definition cmd_pwd :: "'s menu_env \<Rightarrow> 's command" where
  "cmd_pwd E args s = plain (vfs_getcwd E) s"

definition cmd_sync :: "'s menu_env \<Rightarrow> 's command" where
  "cmd_sync E args s = bnd (vfs_sync E s) (\<lambda>s1. Inr (Back 0 s1))"

definition cmd_panic :: "'s command" where
  "cmd_panic args s = Inl (Panic ''User requested panic'')"

definition cmd_quit ::
  "('q, 'a, 'h) klib \<Rightarrow> machine \<Rightarrow> ('q, 'a, 'h, ('z) io_ext sys_ext) events \<Rightarrow> ('q, 'a, 'h, 'z) io_scheme devices \<Rightarrow> nat
     \<Rightarrow> ('q, 'a, 'h, 'z) io_scheme menu_env \<Rightarrow> ('q, 'a, 'h, 'z) io_scheme command" where
  "cmd_quit L M evs D fuel E args s =
     bnd (vfs_sync E s) (\<lambda>s1.
     bnd (sys_reboot L M D fuel RB_POWEROFF s1) (\<lambda>p. case p of
       PowerOff s2 \<Rightarrow> Inr (Down (PowerOff s2))
     | Halted s2 \<Rightarrow> Inr (Down (Halted s2))
     | StillOn e s2 \<Rightarrow> bnd (thread_exit L M evs s2) (of_outcome (\<lambda>s3. Inr (Back 0 s3)))))"

text \<open>A colon after a device name is dropped (\<open>device[strlen(device)-1]\<close>: the name must not be empty).\<close>

definition strip_colon :: "string \<Rightarrow> string run" where
  "strip_colon d = (if d = [] then Inl (BadDeref ''device[-1]'') else Inr (if last d = CHR '':'' then butlast d else d))"

definition mounttable :: "options \<Rightarrow> 's menu_env \<Rightarrow> (string \<times> (string \<Rightarrow> 's \<Rightarrow> (int \<times> 's) run)) list" where
  "mounttable Op E = (if opt_sfs Op then [(''sfs'', sfs_mount E)] else [])"

definition cmd_mount :: "options \<Rightarrow> 's menu_env \<Rightarrow> 's command" where
  "cmd_mount Op E args s =
     (if length args \<noteq> 3 then Inr (Back EINVAL s) else
      bnd (strip_colon (args ! 2)) (\<lambda>device.
      case map_of (mounttable Op E) (args ! 1) of
        Some func \<Rightarrow> plain (func device) s
      | None \<Rightarrow> Inr (Back EINVAL s)))"

definition cmd_unmount :: "'s menu_env \<Rightarrow> 's command" where
  "cmd_unmount E args s =
     (if length args \<noteq> 2 then Inr (Back EINVAL s) else
      bnd (strip_colon (args ! 1)) (\<lambda>device. plain (vfs_unmount E device) s))"

definition cmd_bootfs :: "'s devices \<Rightarrow> 's command" where
  "cmd_bootfs D args s =
     (if length args \<noteq> 2 then Inr (Back EINVAL s) else
      bnd (strip_colon (args ! 1)) (\<lambda>device. plain (vfs_setbootfs D device) s))"

definition cmd_kheapstats :: "'s command" where
  "cmd_kheapstats args s = Inr (Back 0 s)"

section \<open>Menus\<close>

text \<open>The two columns that \<open>showmenu\<close> prints.\<close>

definition showmenu :: "string list \<Rightarrow> (string \<times> string option) list" where
  "showmenu x =
     (let ct = length x; half = (ct + 1) div 2
      in map (\<lambda>i. (x ! i, if i + half < ct then Some (x ! (i + half)) else None)) [0..<half])"

definition opsmenu :: "string list" where
  "opsmenu = [''[s]       Shell                     '', ''[p]       Other program             '',
     ''[mount]   Mount a filesystem        '', ''[unmount] Unmount a filesystem      '',
     ''[bootfs]  Set \"boot\" filesystem     '', ''[pf]      Print a file              '',
     ''[cd]      Change directory          '', ''[pwd]     Print current directory   '',
     ''[sync]    Sync filesystems          '', ''[panic]   Intentional panic         '',
     ''[q]       Quit and shut down        '']"

definition testmenu :: "options \<Rightarrow> string list" where
  "testmenu Op = [''[at]  Array test                    '', ''[bt]  Bitmap test                   '',
     ''[qt]  Queue test                    '', ''[km1] Kernel malloc test            '',
     ''[km2] kmalloc stress test           '', ''[tt1] Thread test 1                 '',
     ''[tt2] Thread test 2                 '', ''[tt3] Thread test 3                 ''] @
     (if opt_net Op then [''[net] Network test                  ''] else []) @
     [''[sy1] Semaphore test                '', ''[sy2] Lock test             (1)     '',
     ''[sy3] CV test               (1)     '', ''[fs1] Filesystem test               '',
     ''[fs2] FS read stress        (4)     '', ''[fs3] FS write stress       (4)     '',
     ''[fs4] FS write stress 2     (4)     '', ''[fs5] FS create stress      (4)     '']"

definition mainmenu :: "options \<Rightarrow> string list" where
  "mainmenu Op = [''[?o] Operations menu                '', ''[?t] Tests menu                     ''] @
     (if opt_synchprobs Op then [''[1a] Cat/mouse with semaphores      '', ''[1b] Cat/mouse with locks and CVs   '',
        ''[1c] Stoplight                      ''] else []) @
     [''[kh] Kernel heap stats              '', ''[q] Quit and shut down              '']"

text \<open>The commands that only print.\<close>

definition cmd_opsmenu :: "'s command" where "cmd_opsmenu args s = Inr (Back 0 s)"
definition cmd_testmenu :: "'s command" where "cmd_testmenu args s = Inr (Back 0 s)"
definition cmd_mainmenu :: "'s command" where "cmd_mainmenu args s = Inr (Back 0 s)"

section \<open>Dispatch\<close>

definition cmdtable ::
  "('q, 'a, 'h) klib \<Rightarrow> machine \<Rightarrow> ('q, 'a, 'h, ('z) io_ext sys_ext) events \<Rightarrow> ('q, 'a, 'h, 'z) io_scheme devices \<Rightarrow> nat
     \<Rightarrow> options \<Rightarrow> ('q, 'a, 'h, 'z) io_scheme menu_env \<Rightarrow> (string \<times> ('q, 'a, 'h, 'z) io_scheme command) list" where
  "cmdtable L M evs D fuel Op E =
    [(''?'', cmd_mainmenu), (''h'', cmd_mainmenu), (''help'', cmd_mainmenu), (''?o'', cmd_opsmenu), (''?t'', cmd_testmenu),
     (''s'', cmd_shell L M E), (''p'', cmd_prog L M E), (''mount'', cmd_mount Op E), (''unmount'', cmd_unmount E),
     (''bootfs'', cmd_bootfs D), (''pf'', testfn E ''printfile''), (''cd'', cmd_chdir E), (''pwd'', cmd_pwd E),
     (''sync'', cmd_sync E), (''panic'', cmd_panic), (''q'', cmd_quit L M evs D fuel E), (''exit'', cmd_quit L M evs D fuel E),
     (''halt'', cmd_quit L M evs D fuel E)] @
    (if opt_synchprobs Op then
      [(''1a'', \<lambda>_. plain (catmousesem L M (code_addr E ''catsem'') (code_addr E ''mousesem''))),
       (''1b'', \<lambda>_. plain (catmouselock L M (code_addr E ''catlock'') (code_addr E ''mouselock''))),
       (''1c'', \<lambda>_ s. bnd (createvehicles L M (code_addr E ''approachintersection'') s)
                  (\<lambda>(r, lks, cs, s1). Inr (Back r s1)))] else []) @
    [(''kh'', cmd_kheapstats), (''at'', testfn E ''arraytest''), (''bt'', testfn E ''bitmaptest''), (''qt'', testfn E ''queuetest''),
     (''km1'', testfn E ''malloctest''), (''km2'', testfn E ''mallocstress'')] @
    (if opt_net Op then [(''net'', testfn E ''nettest'')] else []) @
    [(''tt1'', testfn E ''threadtest''), (''tt2'', testfn E ''threadtest2''), (''tt3'', testfn E ''threadtest3''),
     (''sy1'', testfn E ''semtest''), (''sy2'', testfn E ''locktest''), (''sy3'', testfn E ''cvtest''), (''fs1'', testfn E ''fstest''),
     (''fs2'', testfn E ''readstress''), (''fs3'', testfn E ''writestress''), (''fs4'', testfn E ''writestress2''),
     (''fs5'', testfn E ''createstress'')]"

definition MAXMENUARGS :: nat where "MAXMENUARGS = 16"

text \<open>The loop that collects the words; \<open>None\<close> when there are too many.\<close>

primrec collect_args :: "string list \<Rightarrow> string list \<Rightarrow> string list option" where
  "collect_args [] args = Some args"
| "collect_args (word # ws) args = (if length args \<ge> MAXMENUARGS then None else collect_args ws (args @ [word]))"

text \<open>The result and, when a command ran, the time it took (which the code prints).\<close>

definition cmd_dispatch ::
  "'s menu_env \<Rightarrow> (string \<times> 's command) list \<Rightarrow> string \<Rightarrow> 's \<Rightarrow> (int \<times> (s32 \<times> u32) option, 's) trap_out run" where
  "cmd_dispatch E table cmd s =
     (case collect_args (tokens [CHR '' '', CHR 0x09] cmd) [] of
        None \<Rightarrow> Inr (Back (E2BIG, None) s)
      | Some args \<Rightarrow>
        if args = [] then Inr (Back (0, None) s)
        else case find (\<lambda>(name, func). name \<noteq> [] \<and> args ! 0 = name) table of
               None \<Rightarrow> Inr (Back (EINVAL, None) s)
             | Some (name, func) \<Rightarrow>
                 let (bs, bns) = gettime E s
                 in bnd (func args s) (on_back (\<lambda>result s1.
                    let (as, ans) = gettime E s1 in Inr (Back (result, Some (getinterval bs bns as ans)) s1))))"

text \<open>The commands of a line, one after the other; a failure on the boot command line is fatal.\<close>

primrec execute_loop ::
  "'s menu_env \<Rightarrow> (string \<times> 's command) list \<Rightarrow> bool \<Rightarrow> string list \<Rightarrow> 's \<Rightarrow> (unit, 's) trap_out run" where
  "execute_loop E table isargs [] s = Inr (Back () s)"
| "execute_loop E table isargs (command # cs) s =
     bnd (cmd_dispatch E table command s) (on_back (\<lambda>(result, _) s1.
     if result \<noteq> 0 \<and> isargs then Inl (Panic ''Failure processing kernel arguments'')
     else execute_loop E table isargs cs s1))"

definition menu_execute ::
  "'s menu_env \<Rightarrow> (string \<times> 's command) list \<Rightarrow> string \<Rightarrow> bool \<Rightarrow> 's \<Rightarrow> (unit, 's) trap_out run" where
  "menu_execute E table line isargs s = execute_loop E table isargs (tokens '';'' line) s"

text \<open>The prompt loop, over the lines that are typed; at the end of the list it waits for the next line.\<close>

primrec menu_loop ::
  "'s menu_env \<Rightarrow> (string \<times> 's command) list \<Rightarrow> string list \<Rightarrow> 's \<Rightarrow> (unit, 's) trap_out run" where
  "menu_loop E table [] s = Inr (Back () s)"
| "menu_loop E table (buf # bufs) s = bnd (menu_execute E table buf False s) (on_back (\<lambda>_ s1. menu_loop E table bufs s1))"

definition menu ::
  "'s menu_env \<Rightarrow> (string \<times> 's command) list \<Rightarrow> string list \<Rightarrow> string \<Rightarrow> 's \<Rightarrow> (unit, 's) trap_out run" where
  "menu E table bufs args s = bnd (menu_execute E table args True s) (on_back (\<lambda>_ s1. menu_loop E table bufs s1))"

definition kmain ::
  "('q, 'a, 'h) klib \<Rightarrow> machine \<Rightarrow> ('q, 'a, 'h, 'z) io_scheme devices \<Rightarrow> ('q, 'a, 'h, 'z) io_scheme menu_env
     \<Rightarrow> (string \<times> ('q, 'a, 'h, 'z) io_scheme command) list \<Rightarrow> string list \<Rightarrow> string
     \<Rightarrow> ('q, 'a, 'h, 'z) io_scheme \<Rightarrow> (unit, ('q, 'a, 'h, 'z) io_scheme) trap_out run" where
  "kmain L M D E table bufs arguments s = bnd (boot L M D s) (menu E table bufs arguments)"

section \<open>Properties\<close>

lemma filter_dropWhile: "filter (\<lambda>c. \<not> P c) (dropWhile P s) = filter (\<lambda>c. \<not> P c) s"
  by (induction s) auto

lemma filter_takeWhile_dropWhile: "filter P cs = takeWhile P cs @ filter P (dropWhile P cs)"
  by (induction cs) auto

text \<open>
  Splitting a line: the words are not empty and contain no separator, and put together they are the
  line without its separators, so that no character of a command is lost, repeated or moved.
\<close>

theorem tokens_partition:
  "(\<forall>w \<in> set (tokens seps s). w \<noteq> [] \<and> set w \<inter> set seps = {}) \<and> concat (tokens seps s) = filter (\<lambda>c. c \<notin> set seps) s"
proof (induction seps s rule: tokens.induct)
  case (1 seps s)
  show ?case
  proof (cases "dropWhile (\<lambda>c. c \<in> set seps) s")
    case Nil
    then have "\<forall>c \<in> set s. c \<in> set seps" by (simp add: dropWhile_eq_Nil_conv)
    moreover have "tokens seps s = []" by (subst tokens.simps) (simp add: Nil)
    ultimately show ?thesis by (simp add: filter_empty_conv)
  next
    case (Cons c cs)
    let ?r = "dropWhile (\<lambda>c. c \<notin> set seps) cs" and ?w = "takeWhile (\<lambda>c. c \<notin> set seps) cs"
    have c: "c \<notin> set seps" using hd_dropWhile [of "\<lambda>c. c \<in> set seps" s] Cons by simp
    have f: "filter (\<lambda>c. c \<notin> set seps) s = c # ?w @ filter (\<lambda>c. c \<notin> set seps) ?r"
      using filter_dropWhile [of "\<lambda>c. c \<in> set seps" s] Cons c filter_takeWhile_dropWhile [of "\<lambda>c. c \<notin> set seps" cs] by simp
    have t: "tokens seps s = (c # ?w) # tokens seps ?r" by (subst tokens.simps) (simp add: Cons)
    have IH: "\<forall>w \<in> set (tokens seps ?r). w \<noteq> [] \<and> set w \<inter> set seps = {}" "concat (tokens seps ?r) = filter (\<lambda>c. c \<notin> set seps) ?r"
      using "1.IH" [OF Cons] by simp_all
    have "set (c # ?w) \<inter> set seps = {}" using c by (auto dest: set_takeWhileD)
    then show ?thesis unfolding t f using IH by simp
  qed
qed

theorem tokens_partition_witness:
  "concat (tokens '' '' ''q  quit'') = ''qquit''"
  using tokens_partition [of "'' ''" "''q  quit''"] by simp

lemma sint_diff: "- (2 ^ 31) \<le> sint a - sint b \<Longrightarrow> sint a - sint b < 2 ^ 31 \<Longrightarrow> sint (a - b) = sint a - sint (b :: s32)"
  by (simp add: sint_word_ariths(2)) (simp add: signed_take_bit_int_eq_self_iff)

text \<open>
  \<open>getinterval\<close> computes the exact difference of two times that are at most \<open>2 ^ 31 - 1\<close> seconds apart, whichever is
  later, with the borrow between nanoseconds and seconds and without wrap-around of the nanoseconds.
\<close>

theorem getinterval_exact:
  assumes "unat ns1 < 1000000000" and "unat ns2 < 1000000000"
    and "- (2 ^ 31) \<le> sint s2 - sint s1 - 1" and "sint s2 - sint s1 < 2 ^ 31"
  shows "unat (snd (getinterval s1 ns1 s2 ns2)) < 1000000000
    \<and> sint (fst (getinterval s1 ns1 s2 ns2)) * 1000000000 + int (unat (snd (getinterval s1 ns1 s2 ns2)))
      = (sint s2 * 1000000000 + int (unat ns2)) - (sint s1 * 1000000000 + int (unat ns1))"
proof (cases "ns2 < ns1")
  case True
  then have lt: "unat ns2 < unat ns1" by (simp add: word_less_nat_alt)
  have "unat (ns2 + 1000000000) = unat ns2 + 1000000000" using assms(2) by (subst unat_add_no_wrap) simp_all
  then have n: "unat (ns2 + 1000000000 - ns1) = unat ns2 + 1000000000 - unat ns1"
    using assms(1) by (subst unat_sub) (simp_all add: word_le_nat_alt)
  have "sint (s2 - s1 - 1) = sint (s2 - s1) - sint (1 :: s32)" using assms(3,4) by (intro sint_diff) (simp_all add: sint_diff)
  then have d: "sint (s2 - 1 - s1) = sint s2 - sint s1 - 1" using assms(3,4) by (simp add: sint_diff diff_diff_eq add.commute)
  show ?thesis using True n d lt assms(1) by (simp add: getinterval_def)
next
  case False
  then have le: "unat ns1 \<le> unat ns2" by (simp add: word_less_nat_alt)
  then have n: "unat (ns2 - ns1) = unat ns2 - unat ns1" by (simp add: unat_sub word_le_nat_alt)
  have d: "sint (s2 - s1) = sint s2 - sint s1" using assms(3,4) by (intro sint_diff) simp_all
  show ?thesis using False n d le assms(2) by (simp add: getinterval_def)
qed

text \<open>
  No command hides another: the names of the table are not empty and all different, for every combination of
  build options.
\<close>

theorem cmdtable_names:
  "distinct (map fst (cmdtable L M evs D fuel Op E)) \<and> [] \<notin> set (map fst (cmdtable L M evs D fuel Op E))"
  by (cases "opt_synchprobs Op"; cases "opt_net Op"; simp add: cmdtable_def)

lemma collect_args_eq: "collect_args ws args = (if length args + length ws \<le> MAXMENUARGS \<or> ws = [] then Some (args @ ws) else None)"
  by (induction ws arbitrary: args) auto

lemma find_map_of:
  assumes "[] \<notin> set (map fst table)"
  shows "map_option snd (find (\<lambda>(name, func). name \<noteq> [] \<and> w = name) table) = map_of table w"
  using assms by (induction table) auto

lemma cmd_dispatch_eq:
  assumes "[] \<notin> set (map fst table)" and "ws = tokens [CHR '' '', CHR 0x09] cmd"
  shows "cmd_dispatch E table cmd s =
    (if length ws > 16 then Inr (Back (E2BIG, None) s)
     else if ws = [] then Inr (Back (0, None) s)
     else case map_of table (hd ws) of
       None \<Rightarrow> Inr (Back (EINVAL, None) s)
     | Some func \<Rightarrow> bnd (func ws s) (on_back (\<lambda>result s1.
         Inr (Back (result, Some (getinterval (fst (gettime E s)) (snd (gettime E s)) (fst (gettime E s1)) (snd (gettime E s1)))) s1))))"
proof (cases "length ws > 16 \<or> ws = []")
  case True
  then show ?thesis using assms(2) by (auto simp: cmd_dispatch_def collect_args_eq MAXMENUARGS_def)
next
  case False
  then have "collect_args ws [] = Some ws" "ws ! 0 = hd ws" by (simp_all add: collect_args_eq MAXMENUARGS_def hd_conv_nth)
  with False assms(2) find_map_of [OF assms(1), of "hd ws", symmetric] show ?thesis
    by (cases "find (\<lambda>(name, func). name \<noteq> [] \<and> hd ws = name) table") (auto simp: cmd_dispatch_def split_beta Let_def)
qed

text \<open>
  C32. \<open>cmd_dispatch\<close> does what a table lookup says: a blank line does nothing and succeeds, more than 16 words are
  refused with \<open>E2BIG\<close> and an unknown command with \<open>EINVAL\<close>, without effect; otherwise the command of the table
  runs on all the words, and its result is returned with the time it took.
\<close>

theorem cmd_dispatch_lookup:
  assumes "[] \<notin> set (map fst table)" and "ws = tokens [CHR '' '', CHR 0x09] cmd"
  shows "cmd_dispatch E table cmd s =
    (if length ws > 16 then Inr (Back (E2BIG, None) s)
     else if ws = [] then Inr (Back (0, None) s)
     else case map_of table (hd ws) of
       None \<Rightarrow> Inr (Back (EINVAL, None) s)
     | Some func \<Rightarrow> bnd (func ws s) (on_back (\<lambda>result s1.
         Inr (Back (result, Some (getinterval (fst (gettime E s)) (snd (gettime E s)) (fst (gettime E s1)) (snd (gettime E s1)))) s1))))"
  by (rule cmd_dispatch_eq [OF assms])

text \<open>The two columns of a menu show every item exactly once, in the order of the list.\<close>

lemma filter_less_upt: "filter (\<lambda>i. i < m) [0..<n] = [0..<min m n]"
proof (induction n)
  case (Suc n)
  then show ?case by (cases "n < m") (auto simp: min_def not_less le_Suc_eq)
qed simp

lemma showmenu_complete: "map fst (showmenu x) @ List.map_filter snd (showmenu x) = x"
proof -
  let ?h = "(length x + 1) div 2"
  have "map fst (showmenu x) = take ?h x"
    by (auto simp: showmenu_def Let_def intro!: nth_equalityI)
  moreover have "filter (\<lambda>i. i + ?h < length x) [0..<?h] = [0..<length x - ?h]"
    using filter_less_upt [of "length x - ?h" ?h] by (simp add: less_diff_conv min_def)
  then have "List.map_filter snd (showmenu x) = map (\<lambda>i. x ! (i + ?h)) [0..<length x - ?h]"
    by (auto simp: showmenu_def Let_def List.map_filter_def filter_map o_def)
  moreover have "\<dots> = drop ?h x"
    by (rule nth_equalityI) (simp_all add: add.commute)
  ultimately show ?thesis by simp
qed

theorem getinterval_exact_witness:
  "sint (fst (getinterval 10 900000000 12 100000000)) * 1000000000 + int (unat (snd (getinterval 10 900000000 12 100000000))) = 1200000000"
  using getinterval_exact [of 900000000 100000000 12 10] by simp

text \<open>An environment without a file system, in which every test succeeds.\<close>

definition env_example :: "'s menu_env" where
  "env_example = \<lparr>vfs_chdir = (\<lambda>_ s. Inr (EINVAL, s)), vfs_getcwd = (\<lambda>s. Inr (EINVAL, s)), vfs_sync = Inr,
     vfs_unmount = (\<lambda>_ s. Inr (EINVAL, s)), sfs_mount = (\<lambda>_ s. Inr (EINVAL, s)), runprogram = (\<lambda>_ s. Inr (Back EINVAL s)),
     gettime = (\<lambda>_. (5, 7)), testfn = (\<lambda>_ _ s. Inr (Back 0 s)), args_addr = 0x5f00, code_addr = (\<lambda>_. 0x80001000)\<rparr>"

theorem cmd_dispatch_lookup_witness:
  "cmd_dispatch env_example [(''at'', testfn env_example ''arraytest'')] ''at  x'' io_example = Inr (Back (0, Some (0, 0)) io_example)"
proof -
  have "tokens [CHR '' '', CHR 0x09] ''at  x'' = [''at'', ''x'']" by (simp add: tokens.simps)
  then show ?thesis
    using cmd_dispatch_lookup [where table = "[(''at'', testfn env_example ''arraytest'')]" and cmd = "''at  x''" and E = env_example
        and s = io_example, OF _ refl]
    by (simp add: env_example_def getinterval_def)
qed

end
