(* ===== verification/Print_Queue.thy ===== *)
theory Print_Queue
  imports Thread_Spec
begin

text \<open>
  The debugging function \<open>print_run_queue\<close> of \<^verbatim>\<open>thread/scheduler.c\<close>. It walks the ring buffer behind the run queue with the
  accessors that \<^verbatim>\<open>queue.h\<close> offers for debugging; they are a parameter record with their documented law. The function prints the ready
  threads in the order in which they will run, terminates, and restores the interrupt level.
\<close>

record 'q ring =
  q_getstart :: "'q \<Rightarrow> int"
  q_getend :: "'q \<Rightarrow> int"
  q_getsize :: "'q \<Rightarrow> int"
  q_getguy :: "'q \<Rightarrow> int \<Rightarrow> ptr"

text \<open>
  \<^verbatim>\<open>queue.h\<close>: going from the start to the end index, modulo the size, visits the members from the front to the back. The size is larger than the
  number of members (start and end of a full ring would be the same).
\<close>

definition ring_laws :: "('q, 'a, 'h) klib \<Rightarrow> 'q ring \<Rightarrow> bool" where
  "ring_laws L R \<longleftrightarrow> (\<forall>q. int (length (q_list L q)) < q_getsize R q \<and> 0 \<le> q_getstart R q \<and> q_getstart R q < q_getsize R q
     \<and> q_getend R q = (q_getstart R q + int (length (q_list L q))) mod q_getsize R q
     \<and> (\<forall>k < length (q_list L q). q_getguy R q ((q_getstart R q + int k) mod q_getsize R q) = q_list L q ! k))"

section \<open>The function\<close>

text \<open>A printed line is the position, the name and the sleep address of a thread. \<open>None\<close>: the loop does not end.\<close>

type_synonym queue_line = "int \<times> ptr \<times> ptr"

partial_function (option) print_loop ::
    "'q ring \<Rightarrow> 'q \<Rightarrow> (ptr \<rightharpoonup> thread) \<Rightarrow> int \<Rightarrow> int \<Rightarrow> queue_line list \<Rightarrow> queue_line list run option" where
  "print_loop R q ts i k out =
     (if i \<noteq> q_getend R q then
        (case ts (q_getguy R q i) of
           None \<Rightarrow> Some (Inl (BadDeref ''t''))
         | Some t \<Rightarrow> print_loop R q ts ((i + 1) mod q_getsize R q) (k + 1) (out @ [(k, t_name t, t_sleepaddr t)]))
      else Some (Inr out))"

declare print_loop.simps [code]

definition print_run_queue ::
    "'q ring \<Rightarrow> machine \<Rightarrow> ('q, 'a, 'h, 'z) kern_scheme \<Rightarrow> (queue_line list \<times> ('q, 'a, 'h, 'z) kern_scheme) run option" where
  "print_run_queue R M s =
     (let (spl, s1) = splhigh M s in
      case runqueue s1 of
        None \<Rightarrow> Some (Inl (BadDeref ''runqueue''))
      | Some q \<Rightarrow> (case print_loop R q (threads s1) (q_getstart R q) 0 [] of
            None \<Rightarrow> None
          | Some r \<Rightarrow> Some (bnd r (\<lambda>out. Inr (out, snd (splx M spl s1))))))"

section \<open>What it prints\<close>

definition queue_lines :: "(ptr \<rightharpoonup> thread) \<Rightarrow> ptr list \<Rightarrow> nat \<Rightarrow> queue_line list" where
  "queue_lines ts ps k = map (\<lambda>j. (int j, t_name (the (ts (ps ! j))), t_sleepaddr (the (ts (ps ! j))))) [k..<length ps]"

lemma ring_index_inj:
  assumes "0 \<le> st" and "st < n" and "int j \<le> int m" and "int m < n"
  shows "(st + int j) mod n = (st + int m) mod n \<longleftrightarrow> j = m"
proof
  assume "(st + int j) mod n = (st + int m) mod n"
  then have "n dvd (st + int m) - (st + int j)" by (metis mod_eq_dvd_iff)
  then have "n dvd int m - int j" by simp
  moreover have "0 \<le> int m - int j" "int m - int j < n" using assms by auto
  ultimately have "\<not> 0 < int m - int j" using zdvd_not_zless by blast
  then show "j = m" using assms(3) by simp
qed simp

lemma print_loop_prints:
  assumes "ring_laws L R" and "set (q_list L q) \<subseteq> dom ts" and "k \<le> length (q_list L q)"
  shows "print_loop R q ts ((q_getstart R q + int k) mod q_getsize R q) (int k) out = Some (Inr (out @ queue_lines ts (q_list L q) k))"
  using assms(3)
proof (induction "length (q_list L q) - k" arbitrary: k out)
  case 0
  then have "k = length (q_list L q)" by simp
  then show ?case using assms(1) by (subst print_loop.simps) (simp add: ring_laws_def queue_lines_def)
next
  case (Suc d)
  let ?xs = "q_list L q" and ?n = "q_getsize R q" and ?st = "q_getstart R q"
  have k: "k < length ?xs" using Suc.hyps(2) by simp
  have l: "int (length ?xs) < ?n" "0 \<le> ?st" "?st < ?n" "q_getend R q = (?st + int (length ?xs)) mod ?n"
      "q_getguy R q ((?st + int k) mod ?n) = ?xs ! k" using assms(1) k by (simp_all add: ring_laws_def)
  have ne: "(?st + int k) mod ?n \<noteq> q_getend R q"
    unfolding l(4) using ring_index_inj [OF l(2,3), of k "length ?xs"] k l(1) by simp
  obtain t where t: "ts (?xs ! k) = Some t" using assms(2) k nth_mem by blast
  have nx: "((?st + int k) mod ?n + 1) mod ?n = (?st + int (Suc k)) mod ?n" by (simp add: mod_simps ac_simps)
  have "print_loop R q ts ((?st + int k) mod ?n) (int k) out
      = print_loop R q ts ((?st + int (Suc k)) mod ?n) (int (Suc k)) (out @ [(int k, t_name t, t_sleepaddr t)])"
    using ne t l(5) nx by (subst print_loop.simps) (simp add: add.commute)
  also have "\<dots> = Some (Inr ((out @ [(int k, t_name t, t_sleepaddr t)]) @ queue_lines ts ?xs (Suc k)))"
    by (rule Suc.hyps(1)) (use Suc.hyps(2) k in simp_all)
  finally show ?case using k t by (simp add: queue_lines_def upt_conv_Cons)
qed

text \<open>
  \<open>print_run_queue\<close> terminates and prints one line for each ready thread, numbered from 0, in the order in which the scheduler will run them;
  afterwards the system is in exactly the state it was in, including the interrupt level.
\<close>

theorem print_run_queue_lists:
  assumes "ring_laws L R" and "thread_inv L s" and "spl_consts M" and "spl_ok M s"
  shows "print_run_queue R M s = Some (Inr (queue_lines (threads s) (ready L s) 0, s))"
proof -
  obtain q where q: "runqueue s = Some q" using assms(2) by (auto simp: thread_inv_def)
  let ?s1 = "snd (splhigh M s)"
  have s1: "runqueue ?s1 = Some q" "threads ?s1 = threads s" using q by (simp_all add: splhigh_def splx_eq interrupts_on_def interrupts_off_def)
  have "set (q_list L q) \<subseteq> dom (threads s)" using assms(2) q by (auto simp: thread_inv_def live_def ready_def)
  moreover have "q_getstart R q mod q_getsize R q = q_getstart R q" using assms(1) by (simp add: ring_laws_def)
  ultimately have "print_loop R q (threads s) (q_getstart R q) 0 [] = Some (Inr (queue_lines (threads s) (ready L s) 0))"
    using print_loop_prints [OF assms(1), of q "threads s" 0 "[]"] q by (simp add: ready_def)
  then show ?thesis
    using s1 splhigh_splx_state [OF assms(3,4)] unfolding print_run_queue_def by (simp add: case_prod_beta)
qed

definition list_ring :: "lseq ring" where
  "list_ring = \<lparr>q_getstart = (\<lambda>q. 0), q_getend = (\<lambda>q. int (length (fst q))), q_getsize = (\<lambda>q. int (length (fst q)) + 1),
     q_getguy = (\<lambda>q i. fst q ! nat i)\<rparr>"

lemma ring_laws_list_ring: "ring_laws list_klib list_ring"
  by (simp add: ring_laws_def list_ring_def list_klib_def)

theorem print_run_queue_lists_witness:
  "print_run_queue list_ring sys161 (kern_example\<lparr>curspl := 0, c0_status := 0xff01\<rparr>)
     = Some (Inr ([(0, t_name (the (threads kern_example 0x200)), t_sleepaddr (the (threads kern_example 0x200)))],
         kern_example\<lparr>curspl := 0, c0_status := 0xff01\<rparr>))"
proof -
  let ?s = "kern_example\<lparr>curspl := 0, c0_status := 0xff01\<rparr>"
  have i: "thread_inv list_klib ?s" using can_switch_example by (simp add: can_switch_def)
  have o: "spl_ok sys161 ?s" by (simp add: spl_ok_def irqs_enabled_def sys161_def)
  have r: "ready list_klib ?s = [0x200]" using abs_of_example by (simp add: abs_of_def ready_def)
  from print_run_queue_lists [OF ring_laws_list_ring i spl_consts_sys161 o] show ?thesis by (simp add: r queue_lines_def)
qed

end
