(* ===== verification/Userland.thy ===== *)
theory Userland
  imports Kern_Abi
begin

text \<open>
  How the user programs of \<^verbatim>\<open>bin\<close> run. The system calls and the parts of the C library they use are
  not in the repository; they are the fields of a parameter record \<open>unix\<close> over an unknown type of worlds. Their documented
  behaviour is stated by \<open>fs_laws\<close>, through a view of the world as a file system (descriptors, names, contents, status, directory
  entries). A program is a function on worlds whose result is \<open>None\<close> when it runs forever, and otherwise the way
  it went on (\<open>Next\<close>) or exited (\<open>Exit\<close>). The last section gives an in-memory file system, with short reads and short
  writes, that satisfies the laws.
\<close>

named_theorems fslaw \<open>the laws of the system calls as rules\<close>

section \<open>Running programs\<close>

datatype 'a flow = Next 'a | Exit int

definition andthen :: "('a flow \<times> 'w) option \<Rightarrow> ('a \<Rightarrow> 'w \<Rightarrow> ('b flow \<times> 'w) option) \<Rightarrow> ('b flow \<times> 'w) option" where
  "andthen m k = Option.bind m (\<lambda>r. case fst r of Next x \<Rightarrow> k x (snd r) | Exit c \<Rightarrow> Some (Exit c, snd r))"

lemma andthen_simps [simp]:
  "andthen None k = None" "andthen (Some (Next x, w)) k = k x w" "andthen (Some (Exit c, w)) k = Some (Exit c, w)"
  by (simp_all add: andthen_def)

lemma andthen_mono [partial_function_mono]:
  assumes "mono_option B" and "\<And>x w. mono_option (\<lambda>f. C x w f)"
  shows "mono_option (\<lambda>f. andthen (B f) (\<lambda>x w. C x w f))"
  unfolding andthen_def
  apply (rule bind_mono [OF assms(1)])
  subgoal for r by (cases "fst r") (simp_all add: assms(2) option.const_mono)
  done

text \<open>The value a program gives to the system when \<open>main\<close> returns it or \<open>exit\<close> is called.\<close>

fun status :: "int flow \<Rightarrow> int" where
  "status (Next c) = c"
| "status (Exit c) = c"

section \<open>The system interface\<close>

record 'w unix =
  u_open :: "string \<Rightarrow> u32 \<Rightarrow> 'w \<Rightarrow> int \<times> 'w"
  u_read :: "int \<Rightarrow> nat \<Rightarrow> 'w \<Rightarrow> int \<times> string \<times> 'w"          \<comment> \<open>the result and what it stored in the buffer\<close>
  u_write :: "int \<Rightarrow> string \<Rightarrow> 'w \<Rightarrow> int \<times> 'w"
  u_close :: "int \<Rightarrow> 'w \<Rightarrow> int \<times> 'w"
  u_fstat :: "int \<Rightarrow> 'w \<Rightarrow> int \<times> stat \<times> 'w"
  u_getdirentry :: "int \<Rightarrow> nat \<Rightarrow> 'w \<Rightarrow> int \<times> string \<times> 'w"
  u_symlink :: "string \<Rightarrow> string \<Rightarrow> 'w \<Rightarrow> int \<times> 'w"
  u_link :: "string \<Rightarrow> string \<Rightarrow> 'w \<Rightarrow> int \<times> 'w"
  u_rename :: "string \<Rightarrow> string \<Rightarrow> 'w \<Rightarrow> int \<times> 'w"
  u_remove :: "string \<Rightarrow> 'w \<Rightarrow> int \<times> 'w"
  u_rmdir :: "string \<Rightarrow> 'w \<Rightarrow> int \<times> 'w"
  u_mkdir :: "string \<Rightarrow> u32 \<Rightarrow> 'w \<Rightarrow> int \<times> 'w"
  u_getcwd :: "nat \<Rightarrow> 'w \<Rightarrow> string option \<times> 'w"
  u_sync :: "'w \<Rightarrow> int \<times> 'w"
  u_errno :: "'w \<Rightarrow> int"
  u_printf :: "string \<Rightarrow> 'w \<Rightarrow> 'w"    \<comment> \<open>\<open>printf\<close> of a text that is already formatted\<close>
  u_warn :: "string \<Rightarrow> 'w \<Rightarrow> 'w"      \<comment> \<open>a line on standard error, after the name of the program\<close>

text \<open>\<open>err\<close> and \<open>errx\<close> of the C library print a message and exit; \<open>err\<close> adds the message of the last error.\<close>

definition err :: "'w unix \<Rightarrow> int \<Rightarrow> string \<Rightarrow> 'w \<Rightarrow> ('a flow \<times> 'w) option" where
  "err U c msg w = Some (Exit c, u_warn U (msg @ '': '' @ strerror (u_errno U w)) w)"

definition errx :: "'w unix \<Rightarrow> int \<Rightarrow> string \<Rightarrow> 'w \<Rightarrow> ('a flow \<times> 'w) option" where
  "errx U c msg w = Some (Exit c, u_warn U msg w)"

section \<open>Documented behaviour\<close>

text \<open>
  What a program can observe of the files: the object and the position of each open descriptor, the directory slot that a path
  leads to (different paths may lead to the same slot), the object in each slot, which paths can be created, and the bytes, the
  status and the directory entries of each object.
\<close>

record fsys =
  fds :: "int \<Rightarrow> (nat \<times> nat) option"
  slot :: "string \<Rightarrow> nat"
  files :: "nat \<Rightarrow> nat option"
  creatable :: "string \<Rightarrow> bool"
  bytes :: "nat \<Rightarrow> string"
  stats :: "nat \<Rightarrow> stat"
  entries :: "nat \<Rightarrow> string list"

definition names :: "fsys \<Rightarrow> string \<Rightarrow> nat option" where
  "names f p = files f (slot f p)"

lemma names_update [simp]:
  "names (f\<lparr>fds := x\<rparr>) = names f" "names (f\<lparr>bytes := b\<rparr>) = names f" "names (f\<lparr>stats := st\<rparr>) = names f"
  "names (f\<lparr>files := (files f)(slot f p := y)\<rparr>) = (\<lambda>q. if slot f q = slot f p then y else names f q)"
  by (simp_all add: names_def fun_eq_iff)

text \<open>
  \<open>V\<close> is the view and \<open>H w\<close> says that the devices behind \<open>w\<close> work. Opening for reading gives a new descriptor at position 0, or fails if
  the path names nothing.
\<close>

definition open_law :: "'w unix \<Rightarrow> ('w \<Rightarrow> fsys) \<Rightarrow> ('w \<Rightarrow> bool) \<Rightarrow> bool" where
  "open_law U V H \<longleftrightarrow> (\<forall>p w fd w'. H w \<longrightarrow> u_open U p O_RDONLY w = (fd, w') \<longrightarrow> H w' \<and>
     (case names (V w) p of None \<Rightarrow> fd < 0 \<and> V w' = V w
      | Some j \<Rightarrow> 0 \<le> fd \<and> fds (V w) fd = None \<and> V w' = (V w)\<lparr>fds := (fds (V w))(fd \<mapsto> (j, 0))\<rparr>))"

text \<open>Opening for writing with creation and truncation empties the object of the path, or makes a new empty one.\<close>

definition creat_law :: "'w unix \<Rightarrow> ('w \<Rightarrow> fsys) \<Rightarrow> ('w \<Rightarrow> bool) \<Rightarrow> bool" where
  "creat_law U V H \<longleftrightarrow> (\<forall>p w fd w'. H w \<longrightarrow> u_open U p (O_WRONLY OR O_CREAT OR O_TRUNC) w = (fd, w') \<longrightarrow> H w' \<and>
     (if creatable (V w) p then 0 \<le> fd \<and> fds (V w) fd = None \<and>
        (\<exists>j st. (case names (V w) p of Some i \<Rightarrow> j = i
                 | None \<Rightarrow> j \<notin> ran (files (V w)) \<and> j \<notin> fst ` ran (fds (V w)))
           \<and> V w' = (V w)\<lparr>fds := (fds (V w))(fd \<mapsto> (j, 0)), files := (files (V w))(slot (V w) p \<mapsto> j),
                       bytes := (bytes (V w))(j := []), stats := (stats (V w))(j := st)\<rparr>)
      else fd < 0 \<and> V w' = V w))"

text \<open>
  Reading may return less than was asked for, but nothing only at the end of the file; writing may write less than it was given, but
  not nothing.
\<close>

definition read_law :: "'w unix \<Rightarrow> ('w \<Rightarrow> fsys) \<Rightarrow> ('w \<Rightarrow> bool) \<Rightarrow> bool" where
  "read_law U V H \<longleftrightarrow> (\<forall>fd n w len buf w' j k. H w \<longrightarrow> fds (V w) fd = Some (j, k) \<longrightarrow> 0 < n \<longrightarrow>
     u_read U fd n w = (len, buf, w') \<longrightarrow> H w' \<and> len = int (length buf) \<and> length buf \<le> n
     \<and> buf = take (length buf) (drop k (bytes (V w) j)) \<and> (buf = [] \<longrightarrow> drop k (bytes (V w) j) = [])
     \<and> V w' = (V w)\<lparr>fds := (fds (V w))(fd \<mapsto> (j, k + length buf))\<rparr>)"

definition write_law :: "'w unix \<Rightarrow> ('w \<Rightarrow> fsys) \<Rightarrow> ('w \<Rightarrow> bool) \<Rightarrow> bool" where
  "write_law U V H \<longleftrightarrow> (\<forall>fd buf w r w' j k. H w \<longrightarrow> fds (V w) fd = Some (j, k) \<longrightarrow> k \<le> length (bytes (V w) j) \<longrightarrow>
     buf \<noteq> [] \<longrightarrow> u_write U fd buf w = (r, w') \<longrightarrow> H w' \<and> 0 < r \<and> r \<le> int (length buf)
     \<and> (\<exists>st. V w' = (V w)\<lparr>fds := (fds (V w))(fd \<mapsto> (j, k + nat r)),
               bytes := (bytes (V w))(j := take k (bytes (V w) j) @ take (nat r) buf @ drop (k + nat r) (bytes (V w) j)),
               stats := (stats (V w))(j := st)\<rparr>))"

definition close_law :: "'w unix \<Rightarrow> ('w \<Rightarrow> fsys) \<Rightarrow> ('w \<Rightarrow> bool) \<Rightarrow> bool" where
  "close_law U V H \<longleftrightarrow> (\<forall>fd w r w'. H w \<longrightarrow> fds (V w) fd \<noteq> None \<longrightarrow> u_close U fd w = (r, w') \<longrightarrow>
     H w' \<and> r = 0 \<and> V w' = (V w)\<lparr>fds := (fds (V w))(fd := None)\<rparr>)"

definition fstat_law :: "'w unix \<Rightarrow> ('w \<Rightarrow> fsys) \<Rightarrow> ('w \<Rightarrow> bool) \<Rightarrow> bool" where
  "fstat_law U V H \<longleftrightarrow> (\<forall>fd w r st w' j k. H w \<longrightarrow> fds (V w) fd = Some (j, k) \<longrightarrow> u_fstat U fd w = (r, st, w') \<longrightarrow>
     H w' \<and> r = 0 \<and> st = stats (V w) j \<and> V w' = V w)"

text \<open>
  \<open>getdirentry\<close> reads one name per call (\<^verbatim>\<open>vnode.h\<close>, \<open>vop_getdirentry\<close>) and returns its length, and 0 after the last one.
\<close>

definition getdirentry_law :: "'w unix \<Rightarrow> ('w \<Rightarrow> fsys) \<Rightarrow> ('w \<Rightarrow> bool) \<Rightarrow> bool" where
  "getdirentry_law U V H \<longleftrightarrow> (\<forall>fd n w len buf w' j k. H w \<longrightarrow> fds (V w) fd = Some (j, k) \<longrightarrow> S_ISDIR (st_mode (stats (V w) j)) \<longrightarrow>
     u_getdirentry U fd n w = (len, buf, w') \<longrightarrow> H w' \<and>
     (if k < length (entries (V w) j) then
        (length (entries (V w) j ! k) \<le> n \<longrightarrow> buf = entries (V w) j ! k \<and> len = int (length buf)
           \<and> V w' = (V w)\<lparr>fds := (fds (V w))(fd \<mapsto> (j, Suc k))\<rparr>)
      else len = 0 \<and> V w' = V w))"

text \<open>\<open>printf\<close> writes the whole text to standard output, and messages go to standard error.\<close>

definition printf_law :: "'w unix \<Rightarrow> ('w \<Rightarrow> fsys) \<Rightarrow> ('w \<Rightarrow> bool) \<Rightarrow> bool" where
  "printf_law U V H \<longleftrightarrow> (\<forall>s w j. H w \<longrightarrow> fds (V w) STDOUT_FILENO = Some (j, length (bytes (V w) j)) \<longrightarrow>
     H (u_printf U s w) \<and> (\<exists>st. V (u_printf U s w) = (V w)\<lparr>
        fds := (fds (V w))(STDOUT_FILENO \<mapsto> (j, length (bytes (V w) j) + length s)),
        bytes := (bytes (V w))(j := bytes (V w) j @ s), stats := (stats (V w))(j := st)\<rparr>))"

definition warn_law :: "'w unix \<Rightarrow> ('w \<Rightarrow> fsys) \<Rightarrow> ('w \<Rightarrow> bool) \<Rightarrow> bool" where
  "warn_law U V H \<longleftrightarrow> (\<forall>s w j k. H w \<longrightarrow> fds (V w) STDERR_FILENO = Some (j, k) \<longrightarrow>
     H (u_warn U s w) \<and> (\<exists>k' bs st. V (u_warn U s w) = (V w)\<lparr>
        fds := (fds (V w))(STDERR_FILENO \<mapsto> (j, k')), bytes := (bytes (V w))(j := bs), stats := (stats (V w))(j := st)\<rparr>))"

definition fs_laws :: "'w unix \<Rightarrow> ('w \<Rightarrow> fsys) \<Rightarrow> ('w \<Rightarrow> bool) \<Rightarrow> bool" where
  "fs_laws U V H \<longleftrightarrow> open_law U V H \<and> creat_law U V H \<and> read_law U V H \<and> write_law U V H \<and> close_law U V H
     \<and> fstat_law U V H \<and> getdirentry_law U V H \<and> printf_law U V H \<and> warn_law U V H"

section \<open>The laws as rules\<close>

lemma take_drop_step: "take n (drop k xs) @ drop (k + n) xs = drop k xs"
  by (metis add.commute append_take_drop_id drop_drop)

lemma open_existing:
  assumes "fs_laws U V H" and "H w" and "names (V w) p = Some j"
  obtains fd w' where "u_open U p O_RDONLY w = (fd, w')" "0 \<le> fd" "fds (V w) fd = None" "H w'"
    "V w' = (V w)\<lparr>fds := (fds (V w))(fd \<mapsto> (j, 0))\<rparr>"
proof -
  obtain fd w' where o: "u_open U p O_RDONLY w = (fd, w')" by fastforce
  have "open_law U V H" using assms(1) by (simp add: fs_laws_def)
  then have "H w' \<and> (case names (V w) p of None \<Rightarrow> fd < 0 \<and> V w' = V w
      | Some j \<Rightarrow> 0 \<le> fd \<and> fds (V w) fd = None \<and> V w' = (V w)\<lparr>fds := (fds (V w))(fd \<mapsto> (j, 0))\<rparr>)"
    unfolding open_law_def using assms(2) o by blast
  then show thesis using that [OF o] assms(3) by simp
qed

lemma open_missing:
  assumes "fs_laws U V H" and "H w" and "names (V w) p = None"
  obtains fd w' where "u_open U p O_RDONLY w = (fd, w')" "fd < 0" "H w'" "V w' = V w"
proof -
  obtain fd w' where o: "u_open U p O_RDONLY w = (fd, w')" by fastforce
  have "open_law U V H" using assms(1) by (simp add: fs_laws_def)
  then have "H w' \<and> (case names (V w) p of None \<Rightarrow> fd < 0 \<and> V w' = V w
      | Some j \<Rightarrow> 0 \<le> fd \<and> fds (V w) fd = None \<and> V w' = (V w)\<lparr>fds := (fds (V w))(fd \<mapsto> (j, 0))\<rparr>)"
    unfolding open_law_def using assms(2) o by blast
  then show thesis using that [OF o] assms(3) by simp
qed

lemma open_creat:
  assumes "fs_laws U V H" and "H w" and "creatable (V w) p"
  obtains fd w' j st where "u_open U p (O_WRONLY OR O_CREAT OR O_TRUNC) w = (fd, w')" "0 \<le> fd" "fds (V w) fd = None" "H w'"
    "case names (V w) p of Some i \<Rightarrow> j = i | None \<Rightarrow> j \<notin> ran (files (V w)) \<and> j \<notin> fst ` ran (fds (V w))"
    "V w' = (V w)\<lparr>fds := (fds (V w))(fd \<mapsto> (j, 0)), files := (files (V w))(slot (V w) p \<mapsto> j),
                 bytes := (bytes (V w))(j := []), stats := (stats (V w))(j := st)\<rparr>"
proof -
  obtain fd w' where o: "u_open U p (O_WRONLY OR O_CREAT OR O_TRUNC) w = (fd, w')" by fastforce
  have "creat_law U V H" using assms(1) by (simp add: fs_laws_def)
  then show thesis unfolding creat_law_def using that assms(2,3) o by meson
qed

lemma read_open:
  assumes "fs_laws U V H" and "H w" and "fds (V w) fd = Some (j, k)" and "0 < n"
  obtains buf w' where "u_read U fd n w = (int (length buf), buf, w')" "H w'" "length buf \<le> n"
    "buf = take (length buf) (drop k (bytes (V w) j))" "buf = [] \<longrightarrow> drop k (bytes (V w) j) = []"
    "V w' = (V w)\<lparr>fds := (fds (V w))(fd \<mapsto> (j, k + length buf))\<rparr>"
proof -
  obtain len buf w' where o: "u_read U fd n w = (len, buf, w')" by (cases "u_read U fd n w") auto
  have "read_law U V H" using assms(1) by (simp add: fs_laws_def)
  then have r: "H w' \<and> len = int (length buf) \<and> length buf \<le> n
     \<and> buf = take (length buf) (drop k (bytes (V w) j)) \<and> (buf = [] \<longrightarrow> drop k (bytes (V w) j) = [])
     \<and> V w' = (V w)\<lparr>fds := (fds (V w))(fd \<mapsto> (j, k + length buf))\<rparr>"
    unfolding read_law_def using assms(2-4) o by blast
  show thesis by (rule that [of buf w']) (use r o in blast)+
qed

lemma write_open:
  assumes "fs_laws U V H" and "H w" and "fds (V w) fd = Some (j, k)" and "k \<le> length (bytes (V w) j)" and "buf \<noteq> []"
  obtains r w' st where "u_write U fd buf w = (int r, w')" "H w'" "0 < r" "r \<le> length buf"
    "V w' = (V w)\<lparr>fds := (fds (V w))(fd \<mapsto> (j, k + r)),
        bytes := (bytes (V w))(j := take k (bytes (V w) j) @ take r buf @ drop (k + r) (bytes (V w) j)),
        stats := (stats (V w))(j := st)\<rparr>"
proof -
  obtain r w' where o: "u_write U fd buf w = (r, w')" by fastforce
  have "write_law U V H" using assms(1) by (simp add: fs_laws_def)
  then have "H w' \<and> 0 < r \<and> r \<le> int (length buf)
     \<and> (\<exists>st. V w' = (V w)\<lparr>fds := (fds (V w))(fd \<mapsto> (j, k + nat r)),
               bytes := (bytes (V w))(j := take k (bytes (V w) j) @ take (nat r) buf @ drop (k + nat r) (bytes (V w) j)),
               stats := (stats (V w))(j := st)\<rparr>)"
    unfolding write_law_def using assms(2-5) o by blast
  then show thesis using that [of "nat r" w'] o by auto
qed

lemma close_open:
  assumes "fs_laws U V H" and "H w" and "fds (V w) fd = Some x"
  obtains w' where "u_close U fd w = (0, w')" "H w'" "V w' = (V w)\<lparr>fds := (fds (V w))(fd := None)\<rparr>"
proof -
  obtain r w' where o: "u_close U fd w = (r, w')" by fastforce
  have "close_law U V H" using assms(1) by (simp add: fs_laws_def)
  then have "H w' \<and> r = 0 \<and> V w' = (V w)\<lparr>fds := (fds (V w))(fd := None)\<rparr>"
    unfolding close_law_def using assms(2,3) o by blast
  then show thesis using that o by blast
qed

lemma fstat_open:
  assumes "fs_laws U V H" and "H w" and "fds (V w) fd = Some (j, k)"
  obtains w' where "u_fstat U fd w = (0, stats (V w) j, w')" "H w'" "V w' = V w"
proof -
  obtain r st w' where o: "u_fstat U fd w = (r, st, w')" by (cases "u_fstat U fd w") auto
  have "fstat_law U V H" using assms(1) by (simp add: fs_laws_def)
  then have "H w' \<and> r = 0 \<and> st = stats (V w) j \<and> V w' = V w"
    unfolding fstat_law_def using assms(2,3) o by blast
  then show thesis using that o by blast
qed

lemma getdirentry_next:
  assumes "fs_laws U V H" and "H w" and "fds (V w) fd = Some (j, k)" and "S_ISDIR (st_mode (stats (V w) j))"
    and "k < length (entries (V w) j)" and "length (entries (V w) j ! k) \<le> n"
  obtains w' where "u_getdirentry U fd n w = (int (length (entries (V w) j ! k)), entries (V w) j ! k, w')" "H w'"
    "V w' = (V w)\<lparr>fds := (fds (V w))(fd \<mapsto> (j, Suc k))\<rparr>"
proof -
  obtain len buf w' where o: "u_getdirentry U fd n w = (len, buf, w')" by (cases "u_getdirentry U fd n w") auto
  have "getdirentry_law U V H" using assms(1) by (simp add: fs_laws_def)
  then have "H w' \<and> buf = entries (V w) j ! k \<and> len = int (length buf) \<and> V w' = (V w)\<lparr>fds := (fds (V w))(fd \<mapsto> (j, Suc k))\<rparr>"
    unfolding getdirentry_law_def using assms(2-6) o by meson
  then show thesis using that o by blast
qed

lemma getdirentry_end:
  assumes "fs_laws U V H" and "H w" and "fds (V w) fd = Some (j, k)" and "S_ISDIR (st_mode (stats (V w) j))"
    and "length (entries (V w) j) \<le> k"
  obtains buf w' where "u_getdirentry U fd n w = (0, buf, w')" "H w'" "V w' = V w"
proof -
  obtain len buf w' where o: "u_getdirentry U fd n w = (len, buf, w')" by (cases "u_getdirentry U fd n w") auto
  have "getdirentry_law U V H" using assms(1) by (simp add: fs_laws_def)
  then have "H w' \<and> len = 0 \<and> V w' = V w"
    unfolding getdirentry_law_def using assms(2-5) o by (meson leD)
  then show thesis using that o by blast
qed

lemma printf_stdout:
  assumes "fs_laws U V H" and "H w" and "fds (V w) STDOUT_FILENO = Some (j, length (bytes (V w) j))"
  shows "H (u_printf U s w)"
    and "\<exists>st. V (u_printf U s w) = (V w)\<lparr>
        fds := (fds (V w))(STDOUT_FILENO \<mapsto> (j, length (bytes (V w) j) + length s)),
        bytes := (bytes (V w))(j := bytes (V w) j @ s), stats := (stats (V w))(j := st)\<rparr>"
proof -
  have "printf_law U V H" using assms(1) by (simp add: fs_laws_def)
  then have "H (u_printf U s w) \<and> (\<exists>st. V (u_printf U s w) = (V w)\<lparr>
        fds := (fds (V w))(STDOUT_FILENO \<mapsto> (j, length (bytes (V w) j) + length s)),
        bytes := (bytes (V w))(j := bytes (V w) j @ s), stats := (stats (V w))(j := st)\<rparr>)"
    unfolding printf_law_def using assms(2,3) by blast
  then show "H (u_printf U s w)" and "\<exists>st. V (u_printf U s w) = (V w)\<lparr>
        fds := (fds (V w))(STDOUT_FILENO \<mapsto> (j, length (bytes (V w) j) + length s)),
        bytes := (bytes (V w))(j := bytes (V w) j @ s), stats := (stats (V w))(j := st)\<rparr>" by simp_all
qed

lemma warn_stderr:
  assumes "fs_laws U V H" and "H w" and "fds (V w) STDERR_FILENO = Some (j, k)"
  shows "H (u_warn U s w)"
    and "\<exists>k' bs st. V (u_warn U s w) = (V w)\<lparr>
        fds := (fds (V w))(STDERR_FILENO \<mapsto> (j, k')), bytes := (bytes (V w))(j := bs), stats := (stats (V w))(j := st)\<rparr>"
proof -
  have "warn_law U V H" using assms(1) by (simp add: fs_laws_def)
  then have "H (u_warn U s w) \<and> (\<exists>k' bs st. V (u_warn U s w) = (V w)\<lparr>
        fds := (fds (V w))(STDERR_FILENO \<mapsto> (j, k')), bytes := (bytes (V w))(j := bs), stats := (stats (V w))(j := st)\<rparr>)"
    unfolding warn_law_def using assms(2,3) by blast
  then show "H (u_warn U s w)" and "\<exists>k' bs st. V (u_warn U s w) = (V w)\<lparr>
        fds := (fds (V w))(STDERR_FILENO \<mapsto> (j, k')), bytes := (bytes (V w))(j := bs), stats := (stats (V w))(j := st)\<rparr>"
    by simp_all
qed

section \<open>An instance\<close>

text \<open>
  Files in memory: the state is the view itself with the next free descriptor, the next free object and the last error. A read
  returns at most three bytes and a write accepts at most two, so that the loops of the programs have work to do.
\<close>

record ramfs =
  rfs :: fsys
  nextfd :: int
  nextobj :: nat
  rerrno :: int

definition ramfs_ok :: "ramfs \<Rightarrow> bool" where
  "ramfs_ok w \<longleftrightarrow> 0 \<le> nextfd w \<and> (\<forall>fd \<ge> nextfd w. fds (rfs w) fd = None)
     \<and> (\<forall>j \<ge> nextobj w. j \<notin> ran (files (rfs w)) \<and> j \<notin> fst ` ran (fds (rfs w)))"

definition r_openobj :: "nat \<Rightarrow> ramfs \<Rightarrow> int \<times> ramfs" where
  "r_openobj j w = (nextfd w, w\<lparr>rfs := (rfs w)\<lparr>fds := (fds (rfs w))(nextfd w \<mapsto> (j, 0))\<rparr>, nextfd := nextfd w + 1\<rparr>)"

definition r_open :: "string \<Rightarrow> u32 \<Rightarrow> ramfs \<Rightarrow> int \<times> ramfs" where
  "r_open p fl w =
     (if fl AND O_CREAT = 0 then
        (case names (rfs w) p of None \<Rightarrow> (-1, w\<lparr>rerrno := ENOENT\<rparr>) | Some j \<Rightarrow> r_openobj j w)
      else if \<not> creatable (rfs w) p then (-1, w\<lparr>rerrno := EINVAL\<rparr>)
      else case names (rfs w) p of
        Some j \<Rightarrow> r_openobj j (w\<lparr>rfs := (rfs w)\<lparr>bytes := (bytes (rfs w))(j := [])\<rparr>\<rparr>)
      | None \<Rightarrow> r_openobj (nextobj w) (w\<lparr>rfs := (rfs w)\<lparr>files := (files (rfs w))(slot (rfs w) p \<mapsto> nextobj w),
                   bytes := (bytes (rfs w))(nextobj w := [])\<rparr>, nextobj := Suc (nextobj w)\<rparr>))"

definition r_read :: "int \<Rightarrow> nat \<Rightarrow> ramfs \<Rightarrow> int \<times> string \<times> ramfs" where
  "r_read fd n w = (case fds (rfs w) fd of None \<Rightarrow> (-1, [], w\<lparr>rerrno := EBADF\<rparr>)
     | Some (j, k) \<Rightarrow> let buf = take (min n 3) (drop k (bytes (rfs w) j)) in
         (int (length buf), buf, w\<lparr>rfs := (rfs w)\<lparr>fds := (fds (rfs w))(fd \<mapsto> (j, k + length buf))\<rparr>\<rparr>))"

definition r_put :: "nat \<Rightarrow> int \<Rightarrow> string \<Rightarrow> ramfs \<Rightarrow> int \<times> ramfs" where
  "r_put most fd buf w = (case fds (rfs w) fd of None \<Rightarrow> (-1, w\<lparr>rerrno := EBADF\<rparr>)
     | Some (j, k) \<Rightarrow> let bs = bytes (rfs w) j; r = min most (length buf) in
         (int r, w\<lparr>rfs := (rfs w)\<lparr>fds := (fds (rfs w))(fd \<mapsto> (j, k + r)),
            bytes := (bytes (rfs w))(j := take k bs @ take r buf @ drop (k + r) bs)\<rparr>\<rparr>))"

definition r_close :: "int \<Rightarrow> ramfs \<Rightarrow> int \<times> ramfs" where
  "r_close fd w = (0, w\<lparr>rfs := (rfs w)\<lparr>fds := (fds (rfs w))(fd := None)\<rparr>\<rparr>)"

definition r_getdirentry :: "int \<Rightarrow> nat \<Rightarrow> ramfs \<Rightarrow> int \<times> string \<times> ramfs" where
  "r_getdirentry fd n w = (case fds (rfs w) fd of None \<Rightarrow> (-1, [], w\<lparr>rerrno := EBADF\<rparr>)
     | Some (j, k) \<Rightarrow> if k < length (entries (rfs w) j) then
           let buf = entries (rfs w) j ! k in
           (int (length buf), buf, w\<lparr>rfs := (rfs w)\<lparr>fds := (fds (rfs w))(fd \<mapsto> (j, Suc k))\<rparr>\<rparr>)
         else (0, [], w))"

definition r_remove :: "string \<Rightarrow> ramfs \<Rightarrow> int \<times> ramfs" where
  "r_remove p w = (case names (rfs w) p of None \<Rightarrow> (-1, w\<lparr>rerrno := ENOENT\<rparr>)
     | Some j \<Rightarrow> if S_ISDIR (st_mode (stats (rfs w) j)) then (-1, w\<lparr>rerrno := EISDIR\<rparr>)
         else (0, w\<lparr>rfs := (rfs w)\<lparr>files := (files (rfs w))(slot (rfs w) p := None)\<rparr>\<rparr>))"

definition r_rename :: "string \<Rightarrow> string \<Rightarrow> ramfs \<Rightarrow> int \<times> ramfs" where
  "r_rename p q w = (case names (rfs w) p of None \<Rightarrow> (-1, w\<lparr>rerrno := ENOENT\<rparr>)
     | Some j \<Rightarrow> if S_ISDIR (st_mode (stats (rfs w) j)) then (-1, w\<lparr>rerrno := EISDIR\<rparr>)
         else (0, w\<lparr>rfs := (rfs w)\<lparr>files := (files (rfs w))(slot (rfs w) p := None, slot (rfs w) q \<mapsto> j)\<rparr>\<rparr>))"

definition r_link :: "string \<Rightarrow> string \<Rightarrow> ramfs \<Rightarrow> int \<times> ramfs" where
  "r_link p q w = (case names (rfs w) p of None \<Rightarrow> (-1, w\<lparr>rerrno := ENOENT\<rparr>)
     | Some j \<Rightarrow> if S_ISDIR (st_mode (stats (rfs w) j)) \<or> names (rfs w) q \<noteq> None \<or> \<not> creatable (rfs w) q then (-1, w\<lparr>rerrno := EEXIST\<rparr>)
         else (0, w\<lparr>rfs := (rfs w)\<lparr>files := (files (rfs w))(slot (rfs w) q \<mapsto> j)\<rparr>\<rparr>))"

definition ram_unix :: "ramfs unix" where
  "ram_unix = \<lparr>u_open = r_open, u_read = r_read, u_write = r_put 2, u_close = r_close,
     u_fstat = (\<lambda>fd w. case fds (rfs w) fd of None \<Rightarrow> (-1, stats (rfs w) 0, w\<lparr>rerrno := EBADF\<rparr>)
                 | Some (j, k) \<Rightarrow> (0, stats (rfs w) j, w)),
     u_getdirentry = r_getdirentry,
     u_symlink = (\<lambda>p q w. (-1, w\<lparr>rerrno := EUNIMP\<rparr>)), u_link = r_link,
     u_rename = r_rename, u_remove = r_remove, u_rmdir = r_remove,
     u_mkdir = (\<lambda>p m w. (-1, w\<lparr>rerrno := EUNIMP\<rparr>)), u_getcwd = (\<lambda>n w. (Some ''emu0:'', w)),
     u_sync = (\<lambda>w. (0, w)), u_errno = rerrno,
     u_printf = (\<lambda>s w. snd (r_put (length s) STDOUT_FILENO s w)),
     u_warn = (\<lambda>s w. snd (r_put (length s) STDERR_FILENO s w))\<rparr>"

lemma ramfs_ok_openobj:
  assumes "ramfs_ok w" and "j < nextobj w"
  shows "ramfs_ok (snd (r_openobj j w))"
  using assms by (auto simp: ramfs_ok_def r_openobj_def ran_def image_iff split: if_splits)

lemma open_law_ram: "open_law ram_unix rfs ramfs_ok"
proof -
  have "j < nextobj w" if "ramfs_ok w" "names (rfs w) p = Some j" for j p w
    using that unfolding names_def by (meson linorder_not_less ramfs_ok_def ranI)
  then have k: "ramfs_ok (snd (r_openobj j w))" if "ramfs_ok w" "names (rfs w) p = Some j" for j p w
    using that ramfs_ok_openobj by blast
  have "fds (rfs w) (nextfd w) = None \<and> 0 \<le> nextfd w" if "ramfs_ok w" for w
    using that by (auto simp: ramfs_ok_def)
  then show ?thesis
    using k by (fastforce simp: open_law_def ram_unix_def r_open_def oflag_defs r_openobj_def ramfs_ok_def split: option.splits)
qed

lemma ramfs_ok_fd:
  assumes "ramfs_ok w" and "fds (rfs w) fd = Some (j, k)"
  shows "fd < nextfd w" "j < nextobj w"
proof -
  show "fd < nextfd w" using assms by (metis linorder_not_less option.distinct(1) ramfs_ok_def)
  have "j \<in> fst ` ran (fds (rfs w))" using assms(2) by (metis fst_conv image_eqI ranI)
  then show "j < nextobj w" using assms(1) by (meson linorder_not_less ramfs_ok_def)
qed

lemma ran_upd_subset: "ran (f(x := y)) \<subseteq> ran f \<union> set_option y"
  by (auto simp: ran_def)

lemma ramfs_ok_setfd:
  assumes "ramfs_ok w" and "fds (rfs w) fd = Some (j, k)" and "y = None \<or> (\<exists>k'. y = Some (j, k'))"
    and "files f = files (rfs w)" and "fds f = (fds (rfs w))(fd := y)"
  shows "ramfs_ok (w\<lparr>rfs := f\<rparr>)"
proof -
  have "fst ` ran (fds f) \<subseteq> fst ` ran (fds (rfs w)) \<union> {j}"
    using image_mono [OF ran_upd_subset [of "fds (rfs w)" fd y], of fst] assms(3,5) by auto
  moreover have "x \<notin> fst ` ran (fds (rfs w)) \<union> {j}" if "nextobj w \<le> x" for x
    using that assms(1) ramfs_ok_fd(2) [OF assms(1,2)] by (simp add: ramfs_ok_def)
  ultimately have "x \<notin> fst ` ran (fds f)" if "nextobj w \<le> x" for x using that by blast
  moreover have "fds f x = None" if "nextfd w \<le> x" for x
    using that assms(1,5) ramfs_ok_fd(1) [OF assms(1,2)] by (auto simp: ramfs_ok_def)
  ultimately show ?thesis using assms(1,4) by (simp add: ramfs_ok_def)
qed

lemma ramfs_ok_move:
  assumes "ramfs_ok w" and "fds (rfs w) fd = Some (j, k)"
  shows "ramfs_ok (w\<lparr>rfs := (rfs w)\<lparr>fds := (fds (rfs w))(fd \<mapsto> (j, k'))\<rparr>\<rparr>)"
    and "ramfs_ok (w\<lparr>rfs := (rfs w)\<lparr>fds := (fds (rfs w))(fd \<mapsto> (j, k')), bytes := b\<rparr>\<rparr>)"
    and "ramfs_ok (w\<lparr>rfs := (rfs w)\<lparr>fds := (fds (rfs w))(fd := None)\<rparr>\<rparr>)"
  by (rule ramfs_ok_setfd [OF assms]; simp)+

lemma take_length_take: "take (length (take n xs)) xs = take n xs"
  by (metis append_eq_conv_conj append_take_drop_id)

lemma ramfs_ok_errno [simp]: "ramfs_ok (w\<lparr>rerrno := e\<rparr>) = ramfs_ok w"
  by (simp add: ramfs_ok_def)

lemma creat_law_ram: "creat_law ram_unix rfs ramfs_ok"
  unfolding creat_law_def
proof (intro allI impI)
  fix p w fd w'
  assume ok: "ramfs_ok w" and o: "u_open ram_unix p (O_WRONLY OR O_CREAT OR O_TRUNC) w = (fd, w')"
  then have fresh: "0 \<le> nextfd w" "fds (rfs w) (nextfd w) = None" by (simp_all add: ramfs_ok_def)
  show "ramfs_ok w' \<and> (if creatable (rfs w) p then 0 \<le> fd \<and> fds (rfs w) fd = None \<and>
        (\<exists>j st. (case names (rfs w) p of None \<Rightarrow> j \<notin> ran (files (rfs w)) \<and> j \<notin> fst ` ran (fds (rfs w)) | Some i \<Rightarrow> j = i)
           \<and> rfs w' = (rfs w)\<lparr>fds := (fds (rfs w))(fd \<mapsto> (j, 0)), files := (files (rfs w))(slot (rfs w) p \<mapsto> j),
                       bytes := (bytes (rfs w))(j := []), stats := (stats (rfs w))(j := st)\<rparr>)
      else fd < 0 \<and> rfs w' = rfs w)"
  proof (cases "creatable (rfs w) p")
    case False
    then show ?thesis using o ok by (auto simp: ram_unix_def r_open_def oflag_defs)
  next
    case c: True
    show ?thesis
    proof (cases "names (rfs w) p")
      case None
      let ?w1 = "w\<lparr>rfs := (rfs w)\<lparr>files := (files (rfs w))(slot (rfs w) p \<mapsto> nextobj w), bytes := (bytes (rfs w))(nextobj w := [])\<rparr>,
                 nextobj := Suc (nextobj w)\<rparr>"
      have "ramfs_ok ?w1" using ok by (auto simp: ramfs_ok_def ran_def split: if_splits)
      then have "ramfs_ok (snd (r_openobj (nextobj w) ?w1))" by (rule ramfs_ok_openobj) simp
      moreover have "nextobj w \<notin> ran (files (rfs w)) \<and> nextobj w \<notin> fst ` ran (fds (rfs w))"
        using ok by (simp add: ramfs_ok_def)
      ultimately show ?thesis
        using o c None fresh by (auto simp: ram_unix_def r_open_def oflag_defs r_openobj_def intro!: exI [of _ "nextobj w"] exI [of _ "stats (rfs w) (nextobj w)"])
    next
      case (Some j)
      let ?w1 = "w\<lparr>rfs := (rfs w)\<lparr>bytes := (bytes (rfs w))(j := [])\<rparr>\<rparr>"
      have "j < nextobj w" using ok Some unfolding names_def by (meson linorder_not_less ramfs_ok_def ranI)
      moreover have "ramfs_ok ?w1" using ok by (auto simp: ramfs_ok_def)
      ultimately have "ramfs_ok (snd (r_openobj j ?w1))" by (intro ramfs_ok_openobj) simp_all
      moreover have "(files (rfs w))(slot (rfs w) p \<mapsto> j) = files (rfs w)" using Some by (auto simp: names_def)
      ultimately show ?thesis
        using o c Some fresh by (auto simp: ram_unix_def r_open_def oflag_defs r_openobj_def intro!: exI [of _ "stats (rfs w) j"])
    qed
  qed
qed

lemma read_law_ram: "read_law ram_unix rfs ramfs_ok"
proof -
  have "length (take (min n 3) xs) \<le> n" for n and xs :: string by simp
  then show ?thesis unfolding read_law_def
    by (auto simp: ram_unix_def r_read_def Let_def ramfs_ok_move take_length_take simp del: length_take)
qed

lemma r_put_ok:
  assumes "ramfs_ok w" and "fds (rfs w) fd = Some (j, k)"
  shows "ramfs_ok (snd (r_put most fd buf w))"
  using assms by (simp add: r_put_def Let_def ramfs_ok_move)

lemma write_law_ram: "write_law ram_unix rfs ramfs_ok"
proof -
  have "ramfs_ok w'" if "ramfs_ok w" "fds (rfs w) fd = Some (j, k)" "r_put 2 fd buf w = (r, w')" for w fd j k buf r w'
    using r_put_ok [OF that(1,2), of 2 buf] that(3) by simp
  moreover have "\<exists>st. f\<lparr>fds := a, bytes := b\<rparr> = f\<lparr>fds := a, bytes := b, stats := (stats f)(j := st)\<rparr>" for f :: fsys and a b j
    by (rule exI [of _ "stats f j"]) simp
  ultimately show ?thesis
    by (auto simp: write_law_def ram_unix_def) (auto simp: r_put_def Let_def min_def)
qed

lemma close_law_ram: "close_law ram_unix rfs ramfs_ok"
  by (auto simp: close_law_def ram_unix_def r_close_def ramfs_ok_move)

lemma fstat_law_ram: "fstat_law ram_unix rfs ramfs_ok"
  by (auto simp: fstat_law_def ram_unix_def)

lemma getdirentry_law_ram: "getdirentry_law ram_unix rfs ramfs_ok"
  by (auto simp: getdirentry_law_def ram_unix_def r_getdirentry_def Let_def ramfs_ok_move split: if_splits)

lemma printf_law_ram: "printf_law ram_unix rfs ramfs_ok"
  unfolding printf_law_def
proof (intro allI impI conjI)
  fix s w j
  assume a: "ramfs_ok w" "fds (rfs w) STDOUT_FILENO = Some (j, length (bytes (rfs w) j))"
  show "ramfs_ok (u_printf ram_unix s w)" using r_put_ok [OF a] by (simp add: ram_unix_def)
  show "\<exists>st. rfs (u_printf ram_unix s w) = (rfs w)\<lparr>
        fds := (fds (rfs w))(STDOUT_FILENO \<mapsto> (j, length (bytes (rfs w) j) + length s)),
        bytes := (bytes (rfs w))(j := bytes (rfs w) j @ s), stats := (stats (rfs w))(j := st)\<rparr>"
    using a(2) by (intro exI [of _ "stats (rfs w) j"]) (simp add: ram_unix_def r_put_def Let_def)
qed

lemma warn_law_ram: "warn_law ram_unix rfs ramfs_ok"
  unfolding warn_law_def
proof (intro allI impI conjI)
  fix s w j k
  assume a: "ramfs_ok w" "fds (rfs w) STDERR_FILENO = Some (j, k)"
  show "ramfs_ok (u_warn ram_unix s w)" using r_put_ok [OF a] by (simp add: ram_unix_def)
  show "\<exists>k' bs st. rfs (u_warn ram_unix s w) = (rfs w)\<lparr>
        fds := (fds (rfs w))(STDERR_FILENO \<mapsto> (j, k')), bytes := (bytes (rfs w))(j := bs), stats := (stats (rfs w))(j := st)\<rparr>"
    using a(2) by (intro exI [of _ "k + length s"] exI [of _ "take k (bytes (rfs w) j) @ s @ drop (k + length s) (bytes (rfs w) j)"]
        exI [of _ "stats (rfs w) j"]) (simp add: ram_unix_def r_put_def Let_def)
qed

lemma fs_laws_ram: "fs_laws ram_unix rfs ramfs_ok"
  by (simp add: fs_laws_def open_law_ram creat_law_ram read_law_ram write_law_ram close_law_ram fstat_law_ram
      getdirentry_law_ram printf_law_ram warn_law_ram)

end
