(* ===== verification/Cat_Cp.thy ===== *)
theory Cat_Cp
  imports Userland
begin

text \<open>
  \<^verbatim>\<open>bin/cat\<close> and \<^verbatim>\<open>bin/cp\<close>. Both contain the same pair of nested loops: read a block, write all of it, in as many
  pieces as the system accepts, until the end of the file. The locale \<open>byte_copy\<close> states what the loops need of
  the two system calls; it is interpreted on the descriptors of a file system that satisfies \<open>fs_laws\<close>. The properties: \<open>cat\<close>
  prints the concatenation of its inputs up to the first that cannot be opened; \<open>cp\<close> makes an exact copy and leaves the
  original alone, except when both names are names of the same file, which it empties.
\<close>

section \<open>The programs\<close>

text \<open>The inner loop (\<open>wrtot\<close> bytes of the block have been written) and the outer loop of \<open>docat\<close> and \<open>copy\<close>.\<close>

partial_function (option) put_all ::
    "(string \<Rightarrow> 'w \<Rightarrow> int \<times> 'w) \<Rightarrow> ('w \<Rightarrow> (unit flow \<times> 'w) option) \<Rightarrow> string \<Rightarrow> nat \<Rightarrow> 'w \<Rightarrow> (unit flow \<times> 'w) option" where
  "put_all wr fail buf wrtot w =
     (if wrtot < length buf then
        (let (r, w1) = wr (drop wrtot buf) w in
         if r < 0 then fail w1 else put_all wr fail buf (wrtot + nat r) w1)
      else Some (Next (), w))"

partial_function (option) copy_loop ::
    "('w \<Rightarrow> int \<times> string \<times> 'w) \<Rightarrow> (string \<Rightarrow> 'w \<Rightarrow> int \<times> 'w) \<Rightarrow> ('w \<Rightarrow> (unit flow \<times> 'w) option)
     \<Rightarrow> ('w \<Rightarrow> (unit flow \<times> 'w) option) \<Rightarrow> 'w \<Rightarrow> (unit flow \<times> 'w) option" where
  "copy_loop rd wr rfail wfail w =
     (let (len, buf, w1) = rd w in
      if len > 0 then andthen (put_all wr wfail (take (nat len) buf) 0 w1) (\<lambda>_ w2. copy_loop rd wr rfail wfail w2)
      else if len < 0 then rfail w1
      else Some (Next (), w1))"

declare put_all.simps [code] copy_loop.simps [code]

definition docat :: "'w unix \<Rightarrow> string \<Rightarrow> int \<Rightarrow> 'w \<Rightarrow> (unit flow \<times> 'w) option" where
  "docat U name fd = copy_loop (u_read U fd 1024) (u_write U STDOUT_FILENO) (err U 1 name) (err U 1 ''stdout'')"

definition cat :: "'w unix \<Rightarrow> string \<Rightarrow> 'w \<Rightarrow> (unit flow \<times> 'w) option" where
  "cat U file w =
     (if file = ''-'' then docat U ''stdin'' STDIN_FILENO w
      else let (fd, w1) = u_open U file O_RDONLY w in
        if fd < 0 then err U 1 file w1
        else andthen (docat U file fd w1) (\<lambda>_ w2. Some (Next (), snd (u_close U fd w2))))"

fun cat_args :: "'w unix \<Rightarrow> string list \<Rightarrow> 'w \<Rightarrow> (unit flow \<times> 'w) option" where
  "cat_args U [] w = Some (Next (), w)"
| "cat_args U (f # fs) w = andthen (cat U f w) (\<lambda>_ w1. cat_args U fs w1)"

text \<open>\<open>main\<close>, on the arguments after the name of the program.\<close>

definition cat_main :: "'w unix \<Rightarrow> string list \<Rightarrow> 'w \<Rightarrow> (int flow \<times> 'w) option" where
  "cat_main U args w =
     andthen (if args = [] then docat U ''stdin'' STDIN_FILENO w else cat_args U args w) (\<lambda>_ w1. Some (Next 0, w1))"

definition copy :: "'w unix \<Rightarrow> string \<Rightarrow> string \<Rightarrow> 'w \<Rightarrow> (unit flow \<times> 'w) option" where
  "copy U from to w =
     (let (fromfd, w1) = u_open U from O_RDONLY w in
      if fromfd < 0 then err U 1 from w1
      else let (tofd, w2) = u_open U to (O_WRONLY OR O_CREAT OR O_TRUNC) w1 in
      if tofd < 0 then err U 1 to w2
      else andthen (copy_loop (u_read U fromfd 1024) (u_write U tofd) (err U 1 from) (err U 1 to) w2) (\<lambda>_ w3.
        let (r, w4) = u_close U fromfd w3 in
        if r < 0 then err U 1 (from @ '': close'') w4
        else let (r, w5) = u_close U tofd w4 in
        if r < 0 then err U 1 (to @ '': close'') w5
        else Some (Next (), w5)))"

definition cp_main :: "'w unix \<Rightarrow> string list \<Rightarrow> 'w \<Rightarrow> (int flow \<times> 'w) option" where
  "cp_main U args w = (case args of
       [from, to] \<Rightarrow> andthen (copy U from to w) (\<lambda>_ w1. Some (Next 0, w1))
     | _ \<Rightarrow> errx U 1 ''Usage: cp OLDFILE NEWFILE'' w)"

section \<open>The copying loops\<close>

locale byte_copy =
  fixes ok :: "'w \<Rightarrow> bool" and src :: "'w \<Rightarrow> string" and dst :: "'w \<Rightarrow> string"
    and rd :: "'w \<Rightarrow> int \<times> string \<times> 'w" and wr :: "string \<Rightarrow> 'w \<Rightarrow> int \<times> 'w"
  assumes rd_law: "ok w \<Longrightarrow> \<exists>buf w'. rd w = (int (length buf), buf, w') \<and> ok w' \<and> src w = buf @ src w' \<and> dst w' = dst w
      \<and> (buf = [] \<longrightarrow> src w = [])"
    and wr_law: "ok w \<Longrightarrow> buf \<noteq> [] \<Longrightarrow> \<exists>n w'. wr buf w = (int n, w') \<and> 0 < n \<and> n \<le> length buf \<and> ok w' \<and> src w' = src w
      \<and> dst w' = dst w @ take n buf"
begin

lemma put_all_writes:
  assumes "ok w"
  shows "\<exists>w'. put_all wr fail buf k w = Some (Next (), w') \<and> ok w' \<and> src w' = src w \<and> dst w' = dst w @ drop k buf"
  using assms
proof (induction "length buf - k" arbitrary: k w rule: less_induct)
  case less
  show ?case
  proof (cases "k < length buf")
    case True
    then obtain n w1 where n: "wr (drop k buf) w = (int n, w1)" "0 < n" "n \<le> length (drop k buf)" "ok w1" "src w1 = src w"
        "dst w1 = dst w @ take n (drop k buf)"
      using wr_law [OF less.prems, of "drop k buf"] by auto
    have "length buf - (k + n) < length buf - k" using n(2) True by simp
    then obtain w' where "put_all wr fail buf (k + n) w1 = Some (Next (), w')" "ok w'" "src w' = src w1" "dst w' = dst w1 @ drop (k + n) buf"
      using less.hyps [of "k + n" w1] n True by auto
    then show ?thesis using n True by (subst put_all.simps) (simp add: take_drop_step)
  next
    case False
    then show ?thesis using less.prems by (subst put_all.simps) simp
  qed
qed

lemma copy_loop_copies:
  assumes "ok w"
  shows "\<exists>w'. copy_loop rd wr rfail wfail w = Some (Next (), w') \<and> ok w' \<and> src w' = [] \<and> dst w' = dst w @ src w"
  using assms
proof (induction "length (src w)" arbitrary: w rule: less_induct)
  case less
  from rd_law [OF less.prems] obtain buf w1 where
    b: "rd w = (int (length buf), buf, w1)" "ok w1" "src w = buf @ src w1" "dst w1 = dst w" "buf = [] \<longrightarrow> src w = []" by blast
  show ?case
  proof (cases "buf = []")
    case True
    then show ?thesis using b by (subst copy_loop.simps) simp
  next
    case False
    from put_all_writes [OF b(2), of wfail buf 0] obtain w2 where
      w2: "put_all wr wfail buf 0 w1 = Some (Next (), w2)" "ok w2" "src w2 = src w1" "dst w2 = dst w1 @ buf" by auto
    then obtain w' where "copy_loop rd wr rfail wfail w2 = Some (Next (), w')" "ok w'" "src w' = []" "dst w' = dst w2 @ src w2"
      using less.hyps [of w2] b False by auto
    then show ?thesis using b w2 False by (subst copy_loop.simps) simp
  qed
qed

end

text \<open>
  The loop relies on progress: if the system accepts nothing, again and again, it never ends.
\<close>

lemma put_all_repeats:
  assumes "\<And>w. I w \<Longrightarrow> \<exists>w'. wr (drop k buf) w = (0, w') \<and> I w'" and "I w" and "k < length buf"
  shows "put_all wr fail buf k w = None"
proof (rule ccontr)
  assume "put_all wr fail buf k w \<noteq> None"
  then obtain y where y: "put_all wr fail buf k w = Some y" by blast
  let ?P = "\<lambda>wr' fail buf' k' w y. wr' = wr \<longrightarrow> \<not> (I w \<and> k' = k \<and> buf' = buf)"
  have "?P wr fail buf k w y"
  proof (rule put_all.raw_induct [of ?P, OF _ y], rule impI, rule notI)
    fix put wr' fail' buf' k' w' y'
    assume IH: "\<And>wr' fail' buf' k' w' y'. put wr' fail' buf' k' w' = Some y' \<Longrightarrow> wr' = wr \<longrightarrow> \<not> (I w' \<and> k' = k \<and> buf' = buf)"
      and body: "(if k' < length buf' then let (r, w1) = wr' (drop k' buf') w' in if r < 0 then fail' w1 else put wr' fail' buf' (k' + nat r) w1
                  else Some (Next (), w')) = Some y'" and wr': "wr' = wr" and a: "I w' \<and> k' = k \<and> buf' = buf"
    then obtain w1 where "wr (drop k buf) w' = (0, w1)" "I w1" using assms(1) [of w'] by auto
    then show False using body IH [of wr fail' buf k w1 y'] a wr' assms(3) by simp
  qed
  with assms(2) show False by blast
qed

text \<open>
  The two descriptors refer to different objects, the output is positioned at its end, and everything else is as in the file system
  \<open>f\<close>.
\<close>

definition streams :: "'w unix \<Rightarrow> ('w \<Rightarrow> fsys) \<Rightarrow> ('w \<Rightarrow> bool) \<Rightarrow> int \<Rightarrow> nat \<Rightarrow> int \<Rightarrow> nat \<Rightarrow> fsys \<Rightarrow> 'w \<Rightarrow> bool" where
  "streams U V H fd i ofd j f w \<longleftrightarrow> fs_laws U V H \<and> H w \<and> fd \<noteq> ofd \<and> i \<noteq> j
     \<and> (\<exists>k. fds (V w) fd = Some (i, k)) \<and> fds (V w) ofd = Some (j, length (bytes (V w) j))
     \<and> (\<forall>x. x \<noteq> fd \<longrightarrow> x \<noteq> ofd \<longrightarrow> fds (V w) x = fds f x) \<and> names (V w) = names f
     \<and> (\<forall>x. x \<noteq> j \<longrightarrow> bytes (V w) x = bytes f x)"

definition unread :: "('w \<Rightarrow> fsys) \<Rightarrow> int \<Rightarrow> 'w \<Rightarrow> string" where
  "unread V fd w = (case fds (V w) fd of None \<Rightarrow> [] | Some (i, k) \<Rightarrow> drop k (bytes (V w) i))"

lemma streams_read:
  assumes "streams U V H fd i ofd j f w" and "0 < n"
  shows "\<exists>buf w'. u_read U fd n w = (int (length buf), buf, w') \<and> streams U V H fd i ofd j f w'
     \<and> unread V fd w = buf @ unread V fd w' \<and> bytes (V w') j = bytes (V w) j \<and> (buf = [] \<longrightarrow> unread V fd w = [])"
proof -
  from assms(1) obtain k where k: "fs_laws U V H" "H w" "fds (V w) fd = Some (i, k)" by (auto simp: streams_def)
  obtain buf w' where b: "u_read U fd n w = (int (length buf), buf, w')" "H w'" "length buf \<le> n" "buf = take (length buf) (drop k (bytes (V w) i))"
      "buf = [] \<longrightarrow> drop k (bytes (V w) i) = []" "V w' = (V w)\<lparr>fds := (fds (V w))(fd \<mapsto> (i, k + length buf))\<rparr>"
    by (rule read_open [OF k assms(2)])
  have "drop k (bytes (V w) i) = buf @ drop (k + length buf) (bytes (V w) i)"
    using take_drop_step [of "length buf" k "bytes (V w) i"] by (simp only: b(4) [symmetric])
  moreover have "unread V fd w = drop k (bytes (V w) i)" using k(3) by (simp add: unread_def)
  moreover have "unread V fd w' = drop (k + length buf) (bytes (V w) i)" by (simp add: unread_def b(6))
  moreover have "bytes (V w') j = bytes (V w) j" by (simp add: b(6))
  moreover have "streams U V H fd i ofd j f w'" using assms(1) b(2) unfolding streams_def b(6) by simp
  ultimately show ?thesis using b(1,5) by metis
qed

lemma streams_write:
  assumes "streams U V H fd i ofd j f w" and "buf \<noteq> []"
  shows "\<exists>n w'. u_write U ofd buf w = (int n, w') \<and> 0 < n \<and> n \<le> length buf \<and> streams U V H fd i ofd j f w'
     \<and> unread V fd w' = unread V fd w \<and> bytes (V w') j = bytes (V w) j @ take n buf"
proof -
  from assms(1) have k: "fs_laws U V H" "H w" "fds (V w) ofd = Some (j, length (bytes (V w) j))" by (auto simp: streams_def)
  obtain n w' st where n: "u_write U ofd buf w = (int n, w')" "H w'" "0 < n" "n \<le> length buf"
      "V w' = (V w)\<lparr>fds := (fds (V w))(ofd \<mapsto> (j, length (bytes (V w) j) + n)),
        bytes := (bytes (V w))(j := take (length (bytes (V w) j)) (bytes (V w) j) @ take n buf @ drop (length (bytes (V w) j) + n) (bytes (V w) j)),
        stats := (stats (V w))(j := st)\<rparr>"
    by (rule write_open [OF k order.refl assms(2)])
  then have "streams U V H fd i ofd j f w' \<and> unread V fd w' = unread V fd w \<and> bytes (V w') j = bytes (V w) j @ take n buf"
    using assms(1) by (auto simp: streams_def unread_def)
  then show ?thesis using n by blast
qed

interpretation fdcopy: byte_copy "streams U V H fd i ofd j f" "unread V fd" "\<lambda>w. bytes (V w) j" "u_read U fd 1024" "u_write U ofd"
    for U V H fd i ofd j f
  by unfold_locales (use streams_read [where n = 1024] streams_write in auto)

section \<open>cat\<close>

text \<open>
  What \<open>cat\<close> should print, and its exit status: the files in the order of the arguments, with the rest of the standard input for
  the first \<open>-\<close>, up to the first file that does not exist.
\<close>

fun cat_text :: "fsys \<Rightarrow> string \<Rightarrow> string list \<Rightarrow> string \<times> int" where
  "cat_text f inp [] = ([], 0)"
| "cat_text f inp (a # as) =
     (if a = ''-'' then (let (out, c) = cat_text f [] as in (inp @ out, c))
      else case names f a of None \<Rightarrow> ([], 1)
        | Some i \<Rightarrow> let (out, c) = cat_text f inp as in (bytes f i @ out, c))"

text \<open>Standard output is the object \<open>c\<close>, standard error the object \<open>e\<close>; otherwise the files are those of \<open>f\<close>.\<close>

definition cat_ready :: "'w unix \<Rightarrow> ('w \<Rightarrow> fsys) \<Rightarrow> ('w \<Rightarrow> bool) \<Rightarrow> fsys \<Rightarrow> nat \<Rightarrow> nat \<Rightarrow> 'w \<Rightarrow> bool" where
  "cat_ready U V H f c e w \<longleftrightarrow> fs_laws U V H \<and> H w \<and> (\<exists>i k. fds (V w) STDIN_FILENO = Some (i, k) \<and> i \<noteq> c)
     \<and> fds (V w) STDOUT_FILENO = Some (c, length (bytes (V w) c)) \<and> (\<exists>k. fds (V w) STDERR_FILENO = Some (e, k)) \<and> e \<noteq> c
     \<and> names (V w) = names f \<and> (\<forall>x. x \<noteq> c \<longrightarrow> bytes (V w) x = bytes f x)"

lemma docat_copies:
  assumes "cat_ready U V H f c e w" and "fds (V w) fd = Some (i, k)" and "i \<noteq> c" and "fd \<noteq> STDERR_FILENO"
  shows "\<exists>w'. docat U name fd w = Some (Next (), w') \<and> cat_ready U V H f c e w' \<and> bytes (V w') c = bytes (V w) c @ unread V fd w
     \<and> unread V fd w' = [] \<and> (fds (V w') fd \<noteq> None)
     \<and> (\<forall>x. x \<noteq> fd \<longrightarrow> x \<noteq> STDOUT_FILENO \<longrightarrow> fds (V w') x = fds (V w) x)"
proof -
  have "fd \<noteq> STDOUT_FILENO" using assms by (auto simp: cat_ready_def)
  with assms have s: "streams U V H fd i STDOUT_FILENO c (V w) w" by (auto simp: streams_def cat_ready_def)
  from fdcopy.copy_loop_copies [OF s] obtain w' where
    w': "docat U name fd w = Some (Next (), w')" "streams U V H fd i STDOUT_FILENO c (V w) w'" "unread V fd w' = []"
      "bytes (V w') c = bytes (V w) c @ unread V fd w"
    unfolding docat_def by blast
  then have o: "\<forall>x. x \<noteq> fd \<longrightarrow> x \<noteq> STDOUT_FILENO \<longrightarrow> fds (V w') x = fds (V w) x" by (simp add: streams_def)
  have "\<exists>i k. fds (V w') STDIN_FILENO = Some (i, k) \<and> i \<noteq> c"
    using assms w'(2) o by (cases "fd = STDIN_FILENO") (auto simp: streams_def cat_ready_def fileno_defs)
  moreover have "\<exists>k. fds (V w') STDERR_FILENO = Some (e, k)"
    using assms(1,4) o by (auto simp: cat_ready_def fileno_defs)
  ultimately have "cat_ready U V H f c e w'"
    using assms(1) w'(2) by (auto simp: streams_def cat_ready_def)
  with w' o show ?thesis by (auto simp: streams_def)
qed

lemma cat_stdin:
  assumes "cat_ready U V H f c e w"
  shows "\<exists>w'. docat U name STDIN_FILENO w = Some (Next (), w') \<and> cat_ready U V H f c e w'
     \<and> bytes (V w') c = bytes (V w) c @ unread V STDIN_FILENO w \<and> unread V STDIN_FILENO w' = []"
proof -
  from assms obtain i k where "fds (V w) STDIN_FILENO = Some (i, k)" "i \<noteq> c" by (auto simp: cat_ready_def)
  from docat_copies [OF assms this] show ?thesis by (auto simp: fileno_defs)
qed

lemma cat_file:
  assumes "cat_ready U V H f c e w" and "file \<noteq> ''-''" and "names f file = Some i" and "i \<noteq> c"
  shows "\<exists>w'. cat U file w = Some (Next (), w') \<and> cat_ready U V H f c e w' \<and> bytes (V w') c = bytes (V w) c @ bytes f i
     \<and> unread V STDIN_FILENO w' = unread V STDIN_FILENO w"
proof -
  have l: "fs_laws U V H" "H w" "names (V w) file = Some i" using assms by (simp_all add: cat_ready_def)
  obtain fd w1 where o: "u_open U file O_RDONLY w = (fd, w1)" "0 \<le> fd" "fds (V w) fd = None" "H w1"
      "V w1 = (V w)\<lparr>fds := (fds (V w))(fd \<mapsto> (i, 0))\<rparr>" by (rule open_existing [OF l])
  have n: "fd \<noteq> STDIN_FILENO" "fd \<noteq> STDOUT_FILENO" "fd \<noteq> STDERR_FILENO" using o(3) assms(1) by (auto simp: cat_ready_def)
  have r1: "cat_ready U V H f c e w1" using assms(1) o n by (auto simp: cat_ready_def)
  have "fds (V w1) fd = Some (i, 0)" using o(5) by simp
  from docat_copies [OF r1 this assms(4) n(3), where name = "file"] obtain w2 x where
    d: "docat U file fd w1 = Some (Next (), w2)" "cat_ready U V H f c e w2" "bytes (V w2) c = bytes (V w1) c @ unread V fd w1"
      "fds (V w2) fd = Some x" "\<forall>x. x \<noteq> fd \<longrightarrow> x \<noteq> STDOUT_FILENO \<longrightarrow> fds (V w2) x = fds (V w1) x" by blast
  have "H w2" using d(2) by (simp add: cat_ready_def)
  obtain w3 where c: "u_close U fd w2 = (0, w3)" "H w3" "V w3 = (V w2)\<lparr>fds := (fds (V w2))(fd := None)\<rparr>"
    by (rule close_open [OF l(1) \<open>H w2\<close> d(4)])
  have "cat_ready U V H f c e w3" using d(2) c n by (auto simp: cat_ready_def)
  moreover have "unread V fd w1 = bytes f i" using o(5) assms(1,4) by (simp add: unread_def cat_ready_def)
  moreover have "unread V STDIN_FILENO w3 = unread V STDIN_FILENO w"
  proof -
    obtain k0 i0 where k0: "fds (V w) STDIN_FILENO = Some (i0, k0)" "i0 \<noteq> c" using assms(1) by (auto simp: cat_ready_def)
    then have "fds (V w2) STDIN_FILENO = Some (i0, k0)" using d(5) o(5) n(1) by (simp add: fileno_defs)
    then show ?thesis using k0 c(3) n(1) d(2) assms(1) by (simp add: unread_def cat_ready_def)
  qed
  ultimately show ?thesis using o d c assms(2) by (simp add: cat_def)
qed

lemma cat_missing:
  assumes "cat_ready U V H f c e w" and "file \<noteq> ''-''" and "names f file = None"
  shows "\<exists>w'. cat U file w = Some (Exit 1, w') \<and> bytes (V w') c = bytes (V w) c"
proof -
  have l: "fs_laws U V H" "H w" "names (V w) file = None" using assms by (simp_all add: cat_ready_def)
  obtain fd w1 where o: "u_open U file O_RDONLY w = (fd, w1)" "fd < 0" "H w1" "V w1 = V w" by (rule open_missing [OF l])
  from assms(1) o(4) obtain k where k: "fds (V w1) STDERR_FILENO = Some (e, k)" "e \<noteq> c" by (auto simp: cat_ready_def)
  have "bytes (V (u_warn U s w1)) c = bytes (V w) c" for s
    using warn_stderr(2) [OF l(1) o(3) k(1), of s] k(2) o(4) by force
  then show ?thesis using o assms(2) by (simp add: cat_def err_def)
qed

lemma cat_args_prints:
  assumes "cat_ready U V H f c e w" and "\<forall>a \<in> set args. names f a \<noteq> Some c"
  shows "\<exists>r w'. cat_args U args w = Some (r, w') \<and> r = (if snd (cat_text f (unread V STDIN_FILENO w) args) = 0 then Next () else Exit 1)
     \<and> bytes (V w') c = bytes (V w) c @ fst (cat_text f (unread V STDIN_FILENO w) args)"
  using assms
proof (induction args arbitrary: w)
  case Nil
  then show ?case by simp
next
  case (Cons a as)
  have as: "\<forall>a \<in> set as. names f a \<noteq> Some c" using Cons.prems(2) by simp
  show ?case
  proof (cases "a = ''-''")
    case True
    from cat_stdin [OF Cons.prems(1), of "''stdin''"] obtain w1 where
      "cat U a w = Some (Next (), w1)" "cat_ready U V H f c e w1" "bytes (V w1) c = bytes (V w) c @ unread V STDIN_FILENO w"
      "unread V STDIN_FILENO w1 = []" using True by (auto simp: cat_def)
    with Cons.IH [OF this(2) as] True show ?thesis by (auto split: prod.splits)
  next
    case False
    show ?thesis
    proof (cases "names f a")
      case None
      then show ?thesis using cat_missing [OF Cons.prems(1) False None] False by auto
    next
      case (Some i)
      then have "i \<noteq> c" using Cons.prems(2) by auto
      from cat_file [OF Cons.prems(1) False Some this] obtain w1 where
        "cat U a w = Some (Next (), w1)" "cat_ready U V H f c e w1" "bytes (V w1) c = bytes (V w) c @ bytes f i"
        "unread V STDIN_FILENO w1 = unread V STDIN_FILENO w" by blast
      with Cons.IH [OF this(2) as] False Some show ?thesis by (auto split: prod.splits)
    qed
  qed
qed

lemma cat_text_status: "snd (cat_text f inp args) \<in> {0, 1}"
  by (induction f inp args rule: cat_text.induct) (auto split: prod.splits option.splits)

text \<open>
  C19. \<open>cat\<close> terminates, whatever the sizes of the pieces in which the system reads and writes, and prints exactly the contents of its arguments one after
  the other (the rest of the standard input for \<open>-\<close>, or if there are no arguments); at the first file that does not exist it stops, with exit
  status 1, and otherwise its status is 0. (The output must not be one of the inputs: then the program would feed itself.)
\<close>

theorem cat_concatenates:
  assumes "cat_ready U V H (V w) c e w" and "\<forall>a \<in> set args. names (V w) a \<noteq> Some c"
  shows "\<exists>r w'. cat_main U args w = Some (r, w')
     \<and> status r = snd (cat_text (V w) (unread V STDIN_FILENO w) (if args = [] then [''-''] else args))
     \<and> bytes (V w') c = bytes (V w) c @ fst (cat_text (V w) (unread V STDIN_FILENO w) (if args = [] then [''-''] else args))"
proof (cases "args = []")
  case True
  with cat_stdin [OF assms(1), of "''stdin''"] show ?thesis by (auto simp: cat_main_def)
next
  case False
  from cat_args_prints [OF assms] obtain r w' where
    r: "cat_args U args w = Some (r, w')" "r = (if snd (cat_text (V w) (unread V STDIN_FILENO w) args) = 0 then Next () else Exit 1)"
      "bytes (V w') c = bytes (V w) c @ fst (cat_text (V w) (unread V STDIN_FILENO w) args)" by blast
  then show ?thesis using False cat_text_status [of "V w" "unread V STDIN_FILENO w" args] by (auto simp: cat_main_def)
qed

text \<open>A file system with two files; objects 0, 1 and 2 are the standard descriptors.\<close>

definition two_files :: ramfs where
  "two_files = \<lparr>rfs = \<lparr>fds = [0 \<mapsto> (0, 0), 1 \<mapsto> (1, 0), 2 \<mapsto> (2, 0)], slot = (\<lambda>p. if p = ''a'' then 0 else if p = ''b'' then 1 else 2), files = [0 \<mapsto> 3, 1 \<mapsto> 4],
     creatable = (\<lambda>p. p \<noteq> []), bytes = (\<lambda>_. [])(0 := ''in'', 3 := ''hello'', 4 := ''you''),
     stats = (\<lambda>_. \<lparr>st_mode = S_IFREG, st_nlink = 1, st_size = 0, st_blocks = 0\<rparr>), entries = (\<lambda>_. [])\<rparr>,
     nextfd = 3, nextobj = 5, rerrno = 0\<rparr>"

lemma ramfs_ok_two_files: "ramfs_ok two_files"
  by (auto simp: ramfs_ok_def two_files_def ran_def split: if_splits)

theorem cat_concatenates_witness:
  "\<exists>r w'. cat_main ram_unix [''a'', ''-'', ''b'', ''c'', ''a''] two_files = Some (r, w') \<and> status r = 1
     \<and> bytes (rfs w') 1 = ''helloinyou''"
proof -
  have "cat_ready ram_unix rfs ramfs_ok (rfs two_files) 1 2 two_files"
    by (simp add: cat_ready_def fs_laws_ram ramfs_ok_two_files) (simp add: two_files_def fileno_defs names_def)
  from cat_concatenates [OF this, of "[''a'', ''-'', ''b'', ''c'', ''a'']"] show ?thesis
    by (simp add: two_files_def unread_def fileno_defs names_def)
qed

section \<open>cp\<close>

text \<open>Both descriptors are open, the source has object \<open>i\<close> and the (now empty) target object \<open>j\<close>.\<close>

lemma copy_opens:
  assumes "fs_laws U V H" and "H w" and "names (V w) from = Some i" and "creatable (V w) to"
  obtains fd w1 ofd w2 j st where "u_open U from O_RDONLY w = (fd, w1)" "0 \<le> fd"
    "u_open U to (O_WRONLY OR O_CREAT OR O_TRUNC) w1 = (ofd, w2)" "0 \<le> ofd" "H w2"
    "fds (V w) fd = None" "fds (V w) ofd = None" "fd \<noteq> ofd" "names (V w) to = Some j \<or> names (V w) to = None \<and> j \<noteq> i"
    "V w2 = (V w)\<lparr>fds := (fds (V w))(fd \<mapsto> (i, 0), ofd \<mapsto> (j, 0)), files := (files (V w))(slot (V w) to \<mapsto> j),
       bytes := (bytes (V w))(j := []), stats := (stats (V w))(j := st)\<rparr>"
proof -
  obtain fd w1 where o: "u_open U from O_RDONLY w = (fd, w1)" "0 \<le> fd" "fds (V w) fd = None" "H w1"
      "V w1 = (V w)\<lparr>fds := (fds (V w))(fd \<mapsto> (i, 0))\<rparr>" by (rule open_existing [OF assms(1-3)])
  then have "creatable (V w1) to" using assms(4) by simp
  then obtain ofd w2 j st where c: "u_open U to (O_WRONLY OR O_CREAT OR O_TRUNC) w1 = (ofd, w2)" "0 \<le> ofd" "fds (V w1) ofd = None" "H w2"
      "case names (V w1) to of Some i \<Rightarrow> j = i | None \<Rightarrow> j \<notin> ran (files (V w1)) \<and> j \<notin> fst ` ran (fds (V w1))"
      "V w2 = (V w1)\<lparr>fds := (fds (V w1))(ofd \<mapsto> (j, 0)), files := (files (V w1))(slot (V w1) to \<mapsto> j),
                 bytes := (bytes (V w1))(j := []), stats := (stats (V w1))(j := st)\<rparr>"
    by (rule open_creat [OF assms(1) o(4)])
  have "i \<in> ran (files (V w))" using assms(3) by (metis names_def ranI)
  with c(5) o(5) have j: "names (V w) to = Some j \<or> names (V w) to = None \<and> j \<noteq> i" by (auto split: option.splits)
  have "fd \<noteq> ofd" "fds (V w) ofd = None" using c(3) o(5) by (auto split: if_splits)
  then show thesis using that [OF o(1,2) c(1,2,4) o(3) _ _ j] c(6) o(5) by simp
qed

lemma copy_closes:
  assumes "fs_laws U V H" and "H w" and "fds (V w) fd = Some x" and "fds (V w) ofd = Some y" and "fd \<noteq> ofd"
  obtains w1 w2 where "u_close U fd w = (0, w1)" "u_close U ofd w1 = (0, w2)"
    "V w2 = (V w)\<lparr>fds := (fds (V w))(fd := None, ofd := None)\<rparr>"
proof -
  obtain w1 where w1: "u_close U fd w = (0, w1)" "H w1" "V w1 = (V w)\<lparr>fds := (fds (V w))(fd := None)\<rparr>"
    by (rule close_open [OF assms(1-3)])
  then have "fds (V w1) ofd = Some y" using assms(4,5) by simp
  then obtain w2 where "u_close U ofd w1 = (0, w2)" "V w2 = (V w1)\<lparr>fds := (fds (V w1))(ofd := None)\<rparr>"
    by (rule close_open [OF assms(1) w1(2)])
  with w1 show thesis by (intro that) simp_all
qed

text \<open>
  C20. \<open>cp\<close> terminates with status 0 and makes the second name (and every other path to the same directory entry) name a file with exactly the bytes of the
  first; no other name, no other file (in
  particular not the original) and no descriptor changes. The two names must not already name the same file.
\<close>

theorem cp_copies:
  assumes "fs_laws U V H" and "H w" and "names (V w) from = Some i" and "creatable (V w) to" and "names (V w) to \<noteq> Some i"
  shows "\<exists>w' j. cp_main U [from, to] w = Some (Next 0, w') \<and> j \<noteq> i \<and> names (V w') = (\<lambda>q. if slot (V w) q = slot (V w) to then Some j else names (V w) q)
     \<and> bytes (V w') = (bytes (V w))(j := bytes (V w) i) \<and> fds (V w') = fds (V w)"
proof -
  obtain fd w1 ofd w2 j st where o: "u_open U from O_RDONLY w = (fd, w1)" "0 \<le> fd"
    "u_open U to (O_WRONLY OR O_CREAT OR O_TRUNC) w1 = (ofd, w2)" "0 \<le> ofd" "H w2"
    "fds (V w) fd = None" "fds (V w) ofd = None" "fd \<noteq> ofd" "names (V w) to = Some j \<or> names (V w) to = None \<and> j \<noteq> i"
    and v: "V w2 = (V w)\<lparr>fds := (fds (V w))(fd \<mapsto> (i, 0), ofd \<mapsto> (j, 0)), files := (files (V w))(slot (V w) to \<mapsto> j),
       bytes := (bytes (V w))(j := []), stats := (stats (V w))(j := st)\<rparr>"
    by (rule copy_opens [OF assms(1-4)])
  then have ij: "j \<noteq> i" using assms(5) by auto
  have "streams U V H fd i ofd j (V w2) w2" using assms(1) o(5,8) ij by (simp add: streams_def v)
  from fdcopy.copy_loop_copies [OF this] obtain w3 where
    w3: "copy_loop (u_read U fd 1024) (u_write U ofd) (err U 1 from) (err U 1 to) w2 = Some (Next (), w3)"
      "streams U V H fd i ofd j (V w2) w3" "bytes (V w3) j = bytes (V w2) j @ unread V fd w2" by blast
  have "unread V fd w2 = bytes (V w) i" using o(8) ij by (simp add: unread_def v)
  then have b: "bytes (V w3) = (bytes (V w))(j := bytes (V w) i)"
    using w3(2,3) by (auto simp: streams_def v fun_eq_iff)
  from w3(2) obtain x y where xy: "H w3" "fds (V w3) fd = Some x" "fds (V w3) ofd = Some y" by (auto simp: streams_def)
  obtain w4 w5 where c: "u_close U fd w3 = (0, w4)" "u_close U ofd w4 = (0, w5)"
    "V w5 = (V w3)\<lparr>fds := (fds (V w3))(fd := None, ofd := None)\<rparr>" by (rule copy_closes [OF assms(1) xy o(8)])
  have "fds (V w5) = fds (V w)" using w3(2) o(6,7) by (auto simp: c(3) streams_def v fun_eq_iff)
  moreover have "names (V w5) = (\<lambda>q. if slot (V w) q = slot (V w) to then Some j else names (V w) q)"
    using w3(2) by (simp add: c(3) streams_def v) (simp add: names_def fun_eq_iff)
  moreover have "cp_main U [from, to] w = Some (Next 0, w5)" using o w3(1) c(1,2) by (simp add: cp_main_def copy_def)
  ultimately show ?thesis using b ij by (intro exI [of _ w5] exI [of _ j]) (simp add: c(3))
qed

theorem cp_copies_witness:
  "\<exists>w' j. cp_main ram_unix [''a'', ''b''] two_files = Some (Next 0, w') \<and> j \<noteq> 3
     \<and> names (rfs w') ''a'' = Some 3 \<and> names (rfs w') ''b'' = Some j \<and> bytes (rfs w') j = ''hello'' \<and> bytes (rfs w') 3 = ''hello''"
proof -
  have "names (rfs two_files) ''a'' = Some 3" "creatable (rfs two_files) ''b''" "names (rfs two_files) ''b'' \<noteq> Some 3"
    by (simp_all add: two_files_def names_def)
  from cp_copies [OF fs_laws_ram ramfs_ok_two_files this] obtain w' j where
    c: "cp_main ram_unix [''a'', ''b''] two_files = Some (Next 0, w')" "j \<noteq> 3"
      "names (rfs w') = (\<lambda>q. if slot (rfs two_files) q = slot (rfs two_files) ''b'' then Some j else names (rfs two_files) q)"
      "bytes (rfs w') = (bytes (rfs two_files))(j := bytes (rfs two_files) 3)" by blast
  have "names (rfs two_files) ''a'' = Some 3" "slot (rfs two_files) ''a'' \<noteq> slot (rfs two_files) ''b''" "bytes (rfs two_files) 3 = ''hello''"
    by (simp_all add: two_files_def names_def)
  with c show ?thesis by auto
qed

text \<open>
  C37. \<open>cp\<close> of a file to another name of the same file reports success and destroys the contents: the target is truncated before the source is
  read.
\<close>

theorem cp_same_file_empties:
  assumes "fs_laws U V H" and "H w" and "names (V w) from = Some i" and "creatable (V w) to" and "names (V w) to = Some i"
  shows "\<exists>w'. cp_main U [from, to] w = Some (Next 0, w') \<and> bytes (V w') = (bytes (V w))(i := [])"
proof -
  obtain fd w1 ofd w2 j st where o: "u_open U from O_RDONLY w = (fd, w1)" "0 \<le> fd"
    "u_open U to (O_WRONLY OR O_CREAT OR O_TRUNC) w1 = (ofd, w2)" "0 \<le> ofd" "H w2"
    "fds (V w) fd = None" "fds (V w) ofd = None" "fd \<noteq> ofd" "names (V w) to = Some j \<or> names (V w) to = None \<and> j \<noteq> i"
    and v: "V w2 = (V w)\<lparr>fds := (fds (V w))(fd \<mapsto> (i, 0), ofd \<mapsto> (j, 0)), files := (files (V w))(slot (V w) to \<mapsto> j),
       bytes := (bytes (V w))(j := []), stats := (stats (V w))(j := st)\<rparr>"
    by (rule copy_opens [OF assms(1-4)])
  then have ij: "j = i" using assms(5) by auto
  have f: "fds (V w2) fd = Some (i, 0)" using o(8) by (simp add: v)
  obtain buf w3 where r: "u_read U fd 1024 w2 = (int (length buf), buf, w3)" "H w3" "length buf \<le> 1024"
    "buf = take (length buf) (drop 0 (bytes (V w2) i))" "buf = [] \<longrightarrow> drop 0 (bytes (V w2) i) = []"
    "V w3 = (V w2)\<lparr>fds := (fds (V w2))(fd \<mapsto> (i, 0 + length buf))\<rparr>"
    by (rule read_open [OF assms(1) o(5) f, of 1024]) simp_all
  have e: "buf = []" using r(4) by (simp add: v ij)
  then have l: "copy_loop (u_read U fd 1024) (u_write U ofd) (err U 1 from) (err U 1 to) w2 = Some (Next (), w3)"
    using r(1) by (subst copy_loop.simps) simp
  have xy: "fds (V w3) fd = Some (i, 0)" "fds (V w3) ofd = Some (i, 0)" using o(8) e by (simp_all add: r(6) v ij)
  obtain w4 w5 where c: "u_close U fd w3 = (0, w4)" "u_close U ofd w4 = (0, w5)"
    "V w5 = (V w3)\<lparr>fds := (fds (V w3))(fd := None, ofd := None)\<rparr>" by (rule copy_closes [OF assms(1) r(2) xy o(8)])
  have "bytes (V w5) = (bytes (V w))(i := [])" by (simp add: c(3) r(6) v ij)
  moreover have "cp_main U [from, to] w = Some (Next 0, w5)" using o l c(1,2) by (simp add: cp_main_def copy_def)
  ultimately show ?thesis by blast
qed

theorem cp_same_file_empties_witness:
  "\<exists>w'. cp_main ram_unix [''a'', ''a''] two_files = Some (Next 0, w') \<and> bytes (rfs w') 3 = []"
proof -
  have "names (rfs two_files) ''a'' = Some 3" "creatable (rfs two_files) ''a''" by (simp_all add: two_files_def names_def)
  from cp_same_file_empties [OF fs_laws_ram ramfs_ok_two_files this this(1)] show ?thesis by auto
qed

end
