(* ===== verification/Bin_Programs.thy ===== *)
theory Bin_Programs
  imports Cat_Cp
begin

text \<open>
  The other small programs of \<^verbatim>\<open>bin\<close>: \<open>ln\<close>, \<open>mv\<close>, \<open>rm\<close>, \<open>rmdir\<close>, \<open>mkdir\<close>, \<open>pwd\<close>, \<open>sync\<close>, \<open>true\<close>, \<open>false\<close> and
  the unwritten \<open>sh\<close>. What the system calls on names do is stated by \<open>name_laws\<close>. The properties: \<open>rm\<close> removes its arguments in
  order up to the first that fails, and moving a file has the effect of linking and removing it.
\<close>

section \<open>ln\<close>

definition dosymlink :: "'w unix \<Rightarrow> string \<Rightarrow> string \<Rightarrow> 'w \<Rightarrow> (unit flow \<times> 'w) option" where
  "dosymlink U txt path w = (let (r, w1) = u_symlink U txt path w in if r \<noteq> 0 then err U 1 path w1 else Some (Next (), w1))"

definition dohardlink :: "'w unix \<Rightarrow> string \<Rightarrow> string \<Rightarrow> 'w \<Rightarrow> (unit flow \<times> 'w) option" where
  "dohardlink U oldfile newfile w =
     (let (r, w1) = u_link U oldfile newfile w in
      if r \<noteq> 0 then err U 1 (oldfile @ '' or '' @ newfile) w1 else Some (Next (), w1))"

definition ln_main :: "'w unix \<Rightarrow> string list \<Rightarrow> 'w \<Rightarrow> (int flow \<times> 'w) option" where
  "ln_main U args w =
     (if length args = 3 \<and> args ! 0 = ''-s'' then andthen (dosymlink U (args ! 1) (args ! 2) w) (\<lambda>_ w1. Some (Next 0, w1))
      else if length args = 2 then andthen (dohardlink U (args ! 0) (args ! 1) w) (\<lambda>_ w1. Some (Next 0, w1))
      else errx U 1 (''       ln -s symlinkcontents symlinkfile'' @ [CHR 0x0A]) (u_warn U ''Usage: ln oldfile newfile'' w))"

section \<open>mv\<close>

definition dorename :: "'w unix \<Rightarrow> string \<Rightarrow> string \<Rightarrow> 'w \<Rightarrow> (unit flow \<times> 'w) option" where
  "dorename U oldfile newfile w =
     (let (r, w1) = u_rename U oldfile newfile w in
      if r \<noteq> 0 then err U 1 (oldfile @ '' or '' @ newfile) w1 else Some (Next (), w1))"

definition mv_main :: "'w unix \<Rightarrow> string list \<Rightarrow> 'w \<Rightarrow> (int flow \<times> 'w) option" where
  "mv_main U args w =
     (if length args \<noteq> 2 then errx U 1 ''Usage: mv oldfile newfile'' w
      else andthen (dorename U (args ! 0) (args ! 1) w) (\<lambda>_ w1. Some (Next 0, w1)))"

section \<open>rm\<close>

definition doremove :: "'w unix \<Rightarrow> string \<Rightarrow> 'w \<Rightarrow> (unit flow \<times> 'w) option" where
  "doremove U name w = (let (r, w1) = u_remove U name w in if r \<noteq> 0 then err U 1 name w1 else Some (Next (), w1))"

fun rm_args :: "'w unix \<Rightarrow> string list \<Rightarrow> 'w \<Rightarrow> (unit flow \<times> 'w) option" where
  "rm_args U [] w = Some (Next (), w)"
| "rm_args U (f # fs) w = andthen (doremove U f w) (\<lambda>_ w1. rm_args U fs w1)"

definition rm_main :: "'w unix \<Rightarrow> string list \<Rightarrow> 'w \<Rightarrow> (int flow \<times> 'w) option" where
  "rm_main U args w =
     (if args = [] then errx U 1 ''Usage: rm FILES'' w else andthen (rm_args U args w) (\<lambda>_ w1. Some (Next 0, w1)))"

section \<open>rmdir, mkdir, pwd, sync, true, false, sh\<close>

definition rmdir_main :: "'w unix \<Rightarrow> string list \<Rightarrow> 'w \<Rightarrow> (int flow \<times> 'w) option" where
  "rmdir_main U args w =
     (if length args \<noteq> 1 then errx U 1 ''Usage: rmdir DIRECTORY'' w
      else let (r, w1) = u_rmdir U (args ! 0) w in if r \<noteq> 0 then err U 1 (args ! 0) w1 else Some (Next 0, w1))"

definition mkdir_main :: "'w unix \<Rightarrow> string list \<Rightarrow> 'w \<Rightarrow> (int flow \<times> 'w) option" where
  "mkdir_main U args w =
     (if length args \<noteq> 1 then errx U 1 ''Usage: mkdir DIRECTORY'' w
      else let (r, w1) = u_mkdir U (args ! 0) 0x1FD w in  \<comment> \<open>0775\<close>
        if r \<noteq> 0 then err U 1 (args ! 0) w1 else Some (Next 0, w1))"

definition pwd_main :: "'w unix \<Rightarrow> 'w \<Rightarrow> (int flow \<times> 'w) option" where
  "pwd_main U w = (case u_getcwd U (PATH_MAX + 1) w of
       (None, w1) \<Rightarrow> err U 1 ''.'' w1
     | (Some buf, w1) \<Rightarrow> Some (Next 0, u_printf U (buf @ [CHR 0x0A]) w1))"

definition sync_main :: "'w unix \<Rightarrow> 'w \<Rightarrow> (int flow \<times> 'w) option" where
  "sync_main U w = Some (Next 0, snd (u_sync U w))"

definition true_main :: "'w \<Rightarrow> (int flow \<times> 'w) option" where
  "true_main w = Some (Exit 0, w)"

definition false_main :: "'w \<Rightarrow> (int flow \<times> 'w) option" where
  "false_main w = Some (Exit 1, w)"

definition sh_main :: "string list \<Rightarrow> 'w \<Rightarrow> (int flow \<times> 'w) option" where
  "sh_main args w = Some (Next 1, w)"

section \<open>System calls on names\<close>

text \<open>
  Everything but the directory slots and the status of the file concerned stays as it is; directories stay directories.
\<close>

definition names_only :: "fsys \<Rightarrow> (nat \<Rightarrow> nat option) \<Rightarrow> fsys \<Rightarrow> bool" where
  "names_only f m f' \<longleftrightarrow> (\<exists>st. f' = f\<lparr>files := m, stats := st\<rparr>
     \<and> (\<forall>j. S_ISDIR (st_mode (st j)) \<longleftrightarrow> S_ISDIR (st_mode (stats f j))))"

lemma names_only_facts:
  assumes "names_only f m f'"
  shows "slot f' = slot f" "files f' = m" "fds f' = fds f" "names f' = (\<lambda>q. m (slot f q))"
    "S_ISDIR (st_mode (stats f' j)) \<longleftrightarrow> S_ISDIR (st_mode (stats f j))"
proof -
  from assms obtain st where f': "f' = f\<lparr>files := m, stats := st\<rparr>"
    "\<And>j. S_ISDIR (st_mode (st j)) \<longleftrightarrow> S_ISDIR (st_mode (stats f j))" by (auto simp: names_only_def)
  then show "slot f' = slot f" "files f' = m" "fds f' = fds f" "names f' = (\<lambda>q. m (slot f q))"
    "S_ISDIR (st_mode (stats f' j)) \<longleftrightarrow> S_ISDIR (st_mode (stats f j))" by (simp_all add: names_def fun_eq_iff)
qed

definition link_law :: "'w unix \<Rightarrow> ('w \<Rightarrow> fsys) \<Rightarrow> ('w \<Rightarrow> bool) \<Rightarrow> bool" where
  "link_law U V H \<longleftrightarrow> (\<forall>p q w r w'. H w \<longrightarrow> u_link U p q w = (r, w') \<longrightarrow> H w' \<and>
     (case names (V w) p of
        Some i \<Rightarrow> if S_ISDIR (st_mode (stats (V w) i)) \<or> names (V w) q \<noteq> None \<or> \<not> creatable (V w) q then r \<noteq> 0 \<and> V w' = V w
                 else r = 0 \<and> names_only (V w) ((files (V w))(slot (V w) q \<mapsto> i)) (V w')
      | None \<Rightarrow> r \<noteq> 0 \<and> V w' = V w))"

text \<open>\<^verbatim>\<open>vnode.h\<close>: \<open>vop_remove\<close> deletes a non-directory object and returns \<open>EISDIR\<close> for a directory.\<close>

definition remove_law :: "'w unix \<Rightarrow> ('w \<Rightarrow> fsys) \<Rightarrow> ('w \<Rightarrow> bool) \<Rightarrow> bool" where
  "remove_law U V H \<longleftrightarrow> (\<forall>p w r w'. H w \<longrightarrow> u_remove U p w = (r, w') \<longrightarrow> H w' \<and>
     (case names (V w) p of
        Some i \<Rightarrow> if S_ISDIR (st_mode (stats (V w) i)) then r \<noteq> 0 \<and> V w' = V w
                 else r = 0 \<and> names_only (V w) ((files (V w))(slot (V w) p := None)) (V w')
      | None \<Rightarrow> r \<noteq> 0 \<and> V w' = V w))"

definition rename_law :: "'w unix \<Rightarrow> ('w \<Rightarrow> fsys) \<Rightarrow> ('w \<Rightarrow> bool) \<Rightarrow> bool" where
  "rename_law U V H \<longleftrightarrow> (\<forall>p q w r w' i. H w \<longrightarrow> u_rename U p q w = (r, w') \<longrightarrow> names (V w) p = Some i \<longrightarrow>
     \<not> S_ISDIR (st_mode (stats (V w) i)) \<longrightarrow> creatable (V w) q \<longrightarrow> names (V w) q = None \<longrightarrow>
     H w' \<and> r = 0 \<and> names_only (V w) ((files (V w))(slot (V w) p := None, slot (V w) q \<mapsto> i)) (V w'))"

definition name_laws :: "'w unix \<Rightarrow> ('w \<Rightarrow> fsys) \<Rightarrow> ('w \<Rightarrow> bool) \<Rightarrow> bool" where
  "name_laws U V H \<longleftrightarrow> link_law U V H \<and> remove_law U V H \<and> rename_law U V H"

lemma remove_cases:
  assumes "name_laws U V H" and "H w" and "u_remove U p w = (r, w')"
  shows "H w'" and "case names (V w) p of
        Some i \<Rightarrow> if S_ISDIR (st_mode (stats (V w) i)) then r \<noteq> 0 \<and> V w' = V w
                 else r = 0 \<and> names_only (V w) ((files (V w))(slot (V w) p := None)) (V w')
      | None \<Rightarrow> r \<noteq> 0 \<and> V w' = V w"
  using assms unfolding name_laws_def remove_law_def by blast+

lemma link_new:
  assumes "name_laws U V H" and "H w" and "names (V w) p = Some i" and "\<not> S_ISDIR (st_mode (stats (V w) i))"
    and "creatable (V w) q" and "names (V w) q = None"
  obtains w' where "u_link U p q w = (0, w')" "H w'" "names_only (V w) ((files (V w))(slot (V w) q \<mapsto> i)) (V w')"
proof -
  obtain r w' where l: "u_link U p q w = (r, w')" by fastforce
  have "link_law U V H" using assms(1) by (simp add: name_laws_def)
  then have "H w' \<and> (case names (V w) p of
        Some i \<Rightarrow> if S_ISDIR (st_mode (stats (V w) i)) \<or> names (V w) q \<noteq> None \<or> \<not> creatable (V w) q then r \<noteq> 0 \<and> V w' = V w
                 else r = 0 \<and> names_only (V w) ((files (V w))(slot (V w) q \<mapsto> i)) (V w')
      | None \<Rightarrow> r \<noteq> 0 \<and> V w' = V w)" unfolding link_law_def using assms(2) l by blast
  then show thesis using that [of w'] l assms(3-6) by simp
qed

lemma rename_new:
  assumes "name_laws U V H" and "H w" and "names (V w) p = Some i" and "\<not> S_ISDIR (st_mode (stats (V w) i))"
    and "creatable (V w) q" and "names (V w) q = None"
  obtains w' where "u_rename U p q w = (0, w')" "H w'"
    "names_only (V w) ((files (V w))(slot (V w) p := None, slot (V w) q \<mapsto> i)) (V w')"
proof -
  obtain r w' where l: "u_rename U p q w = (r, w')" by fastforce
  have "rename_law U V H" using assms(1) by (simp add: name_laws_def)
  then have "H w' \<and> r = 0 \<and> names_only (V w) ((files (V w))(slot (V w) p := None, slot (V w) q \<mapsto> i)) (V w')"
    unfolding rename_law_def using assms(2-6) l by blast
  then show thesis using that l by blast
qed

section \<open>Properties\<close>

text \<open>
  What \<open>rm\<close> should do to the directory slots, and its exit status: the arguments are removed in order, up to the first that does not exist
  (any more) or is a directory.
\<close>

fun rm_files :: "fsys \<Rightarrow> (nat \<Rightarrow> nat option) \<Rightarrow> string list \<Rightarrow> (nat \<Rightarrow> nat option) \<times> int" where
  "rm_files f m [] = (m, 0)"
| "rm_files f m (a # as) = (case m (slot f a) of None \<Rightarrow> (m, 1)
     | Some i \<Rightarrow> if S_ISDIR (st_mode (stats f i)) then (m, 1) else rm_files f (m(slot f a := None)) as)"

lemma err_files:
  assumes "fs_laws U V H" and "H w" and "fds (V w) STDERR_FILENO = Some (e, k)"
  shows "\<exists>w'. (err U c msg w :: ('a flow \<times> 'w) option) = Some (Exit c, w') \<and> files (V w') = files (V w)"
proof -
  have "files (V (u_warn U s w)) = files (V w)" for s using warn_stderr(2) [OF assms, of s] by force
  then show ?thesis by (simp add: err_def)
qed

lemma rm_args_removes:
  assumes "fs_laws U V H" and "name_laws U V H" and "H w" and "fds (V w) STDERR_FILENO = Some (e, k)"
    and "slot (V w) = slot f" and "\<forall>j. S_ISDIR (st_mode (stats (V w) j)) \<longleftrightarrow> S_ISDIR (st_mode (stats f j))"
  shows "\<exists>r w'. rm_args U args w = Some (r, w') \<and> r = (if snd (rm_files f (files (V w)) args) = 0 then Next () else Exit 1)
     \<and> files (V w') = fst (rm_files f (files (V w)) args)"
  using assms(3-6)
proof (induction args arbitrary: w)
  case Nil
  then show ?case by simp
next
  case (Cons a as)
  obtain r w1 where r: "u_remove U a w = (r, w1)" by fastforce
  note c = remove_cases [OF assms(2) Cons.prems(1) r]
  have n: "names (V w) a = files (V w) (slot f a)" using Cons.prems(3) by (simp add: names_def)
  show ?case
  proof (cases "\<exists>i. names (V w) a = Some i \<and> \<not> S_ISDIR (st_mode (stats (V w) i))")
    case True
    then obtain i where i: "names (V w) a = Some i" "\<not> S_ISDIR (st_mode (stats (V w) i))" by blast
    with c(2) have c2: "r = 0" "names_only (V w) ((files (V w))(slot (V w) a := None)) (V w1)" by simp_all
    then have w1: "fds (V w1) STDERR_FILENO = Some (e, k)" "slot (V w1) = slot f"
        "\<forall>j. S_ISDIR (st_mode (stats (V w1) j)) \<longleftrightarrow> S_ISDIR (st_mode (stats f j))" "files (V w1) = (files (V w))(slot f a := None)"
      using Cons.prems by (simp_all add: names_only_facts [OF c2(2)])
    from Cons.IH [OF c(1) w1(1-3)] show ?thesis
      using i n Cons.prems(4) r c2(1) unfolding w1(4) by (simp add: doremove_def fun_upd_def)
  next
    case False
    then have f: "r \<noteq> 0" "V w1 = V w" using c(2) by (auto split: option.splits if_splits)
    then have "fds (V w1) STDERR_FILENO = Some (e, k)" using Cons.prems(2) by simp
    from err_files [OF assms(1) c(1) this, of 1 a] obtain w2 where
      "(err U 1 a w1 :: (unit flow \<times> 'a) option) = Some (Exit 1, w2)" "files (V w2) = files (V w1)" by blast
    then show ?thesis using False f n r Cons.prems(4) by (auto simp: doremove_def split: option.splits)
  qed
qed

lemma rm_files_status: "snd (rm_files f m args) \<in> {0, 1}"
  by (induction args arbitrary: m) (auto split: option.splits)

text \<open>
  C35. \<open>rm\<close> removes exactly the arguments before the first one that does not exist or is a directory (an argument that repeats an earlier one does not exist any
  more), and reports with its exit status whether all of them were removed. Nothing else disappears.
\<close>

theorem rm_removes:
  assumes "fs_laws U V H" and "name_laws U V H" and "H w" and "fds (V w) STDERR_FILENO = Some (e, k)" and "args \<noteq> []"
  shows "\<exists>r w'. rm_main U args w = Some (r, w') \<and> rm_files (V w) (files (V w)) args = (files (V w'), status r)"
proof -
  from rm_args_removes [OF assms(1-4), of "V w" args] obtain r w' where
    "rm_args U args w = Some (r, w')" "r = (if snd (rm_files (V w) (files (V w)) args) = 0 then Next () else Exit 1)"
    "files (V w') = fst (rm_files (V w) (files (V w)) args)" by blast
  then show ?thesis using rm_files_status [of "V w" "files (V w)" args] assms(5) by (auto simp: rm_main_def prod_eq_iff)
qed

text \<open>
  Moving a file to a new name with \<open>mv\<close> has the same effect on the names as linking it there with \<open>ln\<close> and removing the old name with
  \<open>rm\<close>; all three programs succeed.
\<close>

theorem mv_is_ln_rm:
  assumes "name_laws U V H" and "H w" and "names (V w) old = Some i" and "\<not> S_ISDIR (st_mode (stats (V w) i))"
    and "creatable (V w) new" and "names (V w) new = None"
  shows "\<exists>w1 w2 w3. ln_main U [old, new] w = Some (Next 0, w1) \<and> rm_main U [old] w1 = Some (Next 0, w2)
     \<and> mv_main U [old, new] w = Some (Next 0, w3) \<and> names (V w2) = names (V w3) \<and> names (V w3) new = Some i \<and> names (V w3) old = None"
proof -
  have d: "slot (V w) old \<noteq> slot (V w) new" using assms(3,6) by (auto simp: names_def)
  obtain w1 where w1: "u_link U old new w = (0, w1)" "H w1" "names_only (V w) ((files (V w))(slot (V w) new \<mapsto> i)) (V w1)"
    by (rule link_new [OF assms])
  then have s1: "slot (V w1) = slot (V w)" "files (V w1) = (files (V w))(slot (V w) new \<mapsto> i)"
      "\<not> S_ISDIR (st_mode (stats (V w1) i))" using assms(4) by (simp_all add: names_only_facts [OF w1(3)])
  then have "names (V w1) old = Some i" using assms(3) d by (simp add: names_def)
  moreover obtain r w2 where r: "u_remove U old w1 = (r, w2)" by fastforce
  ultimately have w2: "r = 0" "names_only (V w1) ((files (V w1))(slot (V w1) old := None)) (V w2)"
    using remove_cases(2) [OF assms(1) w1(2) r] s1(3) by simp_all
  obtain w3 where w3: "u_rename U old new w = (0, w3)"
      "names_only (V w) ((files (V w))(slot (V w) old := None, slot (V w) new \<mapsto> i)) (V w3)"
    by (rule rename_new [OF assms])
  have "names (V w2) = names (V w3)" using d
    by (simp add: names_only_facts(4) [OF w2(2)] names_only_facts(4) [OF w3(2)] s1 fun_upd_twist)
  moreover have "names (V w3) new = Some i" "names (V w3) old = None" using d by (simp_all add: names_only_facts(4) [OF w3(2)])
  moreover have "ln_main U [old, new] w = Some (Next 0, w1)" "rm_main U [old] w1 = Some (Next 0, w2)" "mv_main U [old, new] w = Some (Next 0, w3)"
    using w1(1) r w2(1) w3(1) by (simp_all add: ln_main_def dohardlink_def rm_main_def doremove_def mv_main_def dorename_def)
  ultimately show ?thesis by blast
qed

section \<open>The laws on the instance, and witnesses\<close>

lemma ramfs_ok_files:
  assumes "ramfs_ok w" and "ran m \<subseteq> ran (files (rfs w))"
  shows "ramfs_ok (w\<lparr>rfs := (rfs w)\<lparr>files := m\<rparr>\<rparr>)"
  using assms by (auto simp: ramfs_ok_def)

lemma ran_moved:
  "ran (m(x := None)) \<subseteq> ran m" "m z = Some j \<Longrightarrow> ran (m(y \<mapsto> j)) \<subseteq> ran m" "m z = Some j \<Longrightarrow> ran (m(x := None, y \<mapsto> j)) \<subseteq> ran m"
  by (auto simp: ran_def split: if_splits)

lemma names_only_files: "names_only f m (f\<lparr>files := m\<rparr>)"
  unfolding names_only_def by (rule exI [of _ "stats f"]) simp

lemma name_laws_ram: "name_laws ram_unix rfs ramfs_ok"
proof -
  have "link_law ram_unix rfs ramfs_ok"
    by (auto simp: link_law_def ram_unix_def r_link_def names_def names_only_files split: option.splits intro!: ramfs_ok_files ran_moved)
  moreover have "remove_law ram_unix rfs ramfs_ok"
    by (auto simp: remove_law_def ram_unix_def r_remove_def names_def names_only_files split: option.splits intro!: ramfs_ok_files ran_moved)
  moreover have "rename_law ram_unix rfs ramfs_ok"
    by (auto simp: rename_law_def ram_unix_def r_rename_def names_def names_only_files split: option.splits intro!: ramfs_ok_files ran_moved)
  ultimately show ?thesis by (simp add: name_laws_def)
qed

lemma two_files_facts:
  "names (rfs two_files) ''a'' = Some 3" "names (rfs two_files) ''c'' = None" "creatable (rfs two_files) ''c''"
  "\<not> S_ISDIR (st_mode (stats (rfs two_files) 3))" "fds (rfs two_files) STDERR_FILENO = Some (2, 0)"
  by (simp_all add: two_files_def names_def S_IS_defs S_IF_defs fileno_defs)

theorem rm_removes_witness:
  "\<exists>r w'. rm_main ram_unix [''a'', ''a'', ''b''] two_files = Some (r, w') \<and> status r = 1 \<and> files (rfs w') = [1 \<mapsto> 4]"
proof -
  have "rm_files (rfs two_files) (files (rfs two_files)) [''a'', ''a'', ''b''] = ([1 \<mapsto> 4], 1)"
    by (simp add: two_files_def S_IS_defs S_IF_defs fun_eq_iff)
  with rm_removes [OF fs_laws_ram name_laws_ram ramfs_ok_two_files two_files_facts(5), of "[''a'', ''a'', ''b'']"] show ?thesis by auto
qed

theorem mv_is_ln_rm_witness:
  "\<exists>w1 w2 w3. ln_main ram_unix [''a'', ''c''] two_files = Some (Next 0, w1) \<and> rm_main ram_unix [''a''] w1 = Some (Next 0, w2)
     \<and> mv_main ram_unix [''a'', ''c''] two_files = Some (Next 0, w3) \<and> names (rfs w2) = names (rfs w3) \<and> names (rfs w3) ''c'' = Some 3"
  using mv_is_ln_rm [OF name_laws_ram ramfs_ok_two_files two_files_facts(1,4,3,2)] by blast

end
