(* ===== verification/Ls.thy ===== *)
theory Ls
  imports Userland
begin

text \<open>
  \<^verbatim>\<open>bin/ls/ls.c\<close>. The option variables are a record, and the static variable \<open>first\<close> of \<open>printheader\<close> is passed along as
  the value of the functions that may change it. \<open>printf\<close> conversions are written out. A loop over a directory ends when
  \<open>getdirentry\<close> returns no more names; that this happens is proved in \<open>Ls_Spec\<close>.
\<close>

section \<open>Formatting\<close>

fun dec :: "nat \<Rightarrow> string" where
  "dec n = (if n < 10 then [char_of (48 + n)] else dec (n div 10) @ [char_of (48 + n mod 10)])"

declare dec.simps [simp del]

text \<open>\<open>%d\<close>, a width, a width with \<open>-\<close>, and what \<open>snprintf\<close> stores in a buffer.\<close>

definition sdec :: "s32 \<Rightarrow> string" where
  "sdec x = (if sint x < 0 then CHR ''-'' # dec (nat (- sint x)) else dec (nat (sint x)))"

definition pad_left :: "nat \<Rightarrow> string \<Rightarrow> string" where
  "pad_left n s = replicate (n - length s) (CHR '' '') @ s"

definition pad_right :: "nat \<Rightarrow> string \<Rightarrow> string" where
  "pad_right n s = s @ replicate (n - length s) (CHR '' '')"

definition snprintf :: "nat \<Rightarrow> string \<Rightarrow> string" where
  "snprintf maxlen s = take (maxlen - 1) s"

text \<open>The string that a C buffer holds: what precedes the first zero.\<close>

definition cstr :: "string \<Rightarrow> string" where
  "cstr buf = takeWhile (\<lambda>c. c \<noteq> CHR 0x00) buf"

section \<open>Options\<close>

record lsopts =
  aopt :: bool
  dopt :: bool
  lopt :: bool
  Ropt :: bool
  sopt :: bool

definition no_options :: lsopts where
  "no_options = \<lparr>aopt = False, dopt = False, lopt = False, Ropt = False, sopt = False\<rparr>"

definition ls_option :: "'w unix \<Rightarrow> char \<Rightarrow> lsopts \<Rightarrow> 'w \<Rightarrow> (lsopts flow \<times> 'w) option" where
  "ls_option U ch v w =
     (if ch = CHR ''a'' then Some (Next (v\<lparr>aopt := True\<rparr>), w)
      else if ch = CHR ''d'' then Some (Next (v\<lparr>dopt := True\<rparr>), w)
      else if ch = CHR ''l'' then Some (Next (v\<lparr>lopt := True\<rparr>), w)
      else if ch = CHR ''R'' then Some (Next (v\<lparr>Ropt := True\<rparr>), w)
      else if ch = CHR ''s'' then Some (Next (v\<lparr>sopt := True\<rparr>), w)
      else errx U 1 (''Unknown option -'' @ [ch]) w)"

section \<open>Files\<close>

definition basename :: "string \<Rightarrow> string" where
  "basename path =
     (if CHR ''/'' \<in> set path then rev (takeWhile (\<lambda>c. c \<noteq> CHR ''/'') (rev path)) else path)"

definition isdir :: "'w unix \<Rightarrow> string \<Rightarrow> 'w \<Rightarrow> (bool flow \<times> 'w) option" where
  "isdir U path w =
     (let (fd, w1) = u_open U path O_RDONLY w in
      if fd < 0 then err U 1 path w1
      else let (r, buf, w2) = u_fstat U fd w1 in
      if r < 0 then err U 1 (path @ '': fstat'') w2
      else Some (Next (S_ISDIR (st_mode buf)), snd (u_close U fd w2)))"

text \<open>The value is the new value of \<open>first\<close>.\<close>

definition printheader :: "'w unix \<Rightarrow> string \<Rightarrow> bool \<Rightarrow> 'w \<Rightarrow> bool \<times> 'w" where
  "printheader U name first w =
     (let w1 = (if first then w else u_printf U [CHR 0x0A] w) in
      (False, u_printf U (name @ '':'' @ [CHR 0x0A]) w1))"

definition typech :: "u32 \<Rightarrow> char" where
  "typech mode =
     (if S_ISREG mode then CHR ''-''
      else if S_ISDIR mode then CHR ''d''
      else if S_ISLNK mode then CHR ''l''
      else if S_ISCHR mode then CHR ''c''
      else if S_ISBLK mode then CHR ''b''
      else CHR ''?'')"

text \<open>The line of a file with status \<open>st\<close>, without the end of line: the three calls of \<open>printf\<close> in \<open>print\<close>.\<close>

definition ls_line :: "lsopts \<Rightarrow> string \<Rightarrow> stat \<Rightarrow> string" where
  "ls_line v path st =
     (if sopt v then pad_left 3 (sdec (st_blocks st)) @ '' '' else [])
     @ (if lopt v then typech (st_mode st) # ''rwx------ '' @ pad_left 2 (sdec (st_nlink st)) @ '' root  ''
            @ pad_right 8 (dec (unat (st_size st))) else [])
     @ basename path"

text \<open>\<open>statbuf\<close> is read only if one of the two options is set; otherwise any value will do.\<close>

definition ls_print :: "'w unix \<Rightarrow> lsopts \<Rightarrow> string \<Rightarrow> 'w \<Rightarrow> (unit flow \<times> 'w) option" where
  "ls_print U v path w =
     andthen
       (if lopt v \<or> sopt v then
          (let (fd, w1) = u_open U path O_RDONLY w in
           if fd < 0 then err U 1 path w1
           else let (r, statbuf, w2) = u_fstat U fd w1 in
           if r < 0 then err U 1 (path @ '': fstat'') w2
           else Some (Next statbuf, snd (u_close U fd w2)))
        else Some (Next \<lparr>st_mode = 0, st_nlink = 0, st_size = 0, st_blocks = 0\<rparr>, w))
       (\<lambda>statbuf w3. Some (Next (), u_printf U (ls_line v path statbuf @ [CHR 0x0A]) w3))"

section \<open>Directories\<close>

text \<open>\<open>listdir\<close> and \<open>recursedir\<close> open a directory, run a loop over its entries and close it.\<close>

definition with_dir :: "'w unix \<Rightarrow> string \<Rightarrow> (int \<Rightarrow> 'w \<Rightarrow> ('a flow \<times> 'w) option) \<Rightarrow> 'w \<Rightarrow> ('a flow \<times> 'w) option" where
  "with_dir U path body w =
     (let (fd, w1) = u_open U path O_RDONLY w in
      if fd < 0 then err U 1 path w1
      else andthen (body fd w1) (\<lambda>x w2. Some (Next x, snd (u_close U fd w2))))"

lemma with_dir_mono [partial_function_mono]:
  assumes "\<And>fd w. mono_option (\<lambda>f. B fd w f)"
  shows "mono_option (\<lambda>f. with_dir U path (\<lambda>fd w. B fd w f) w)"
  unfolding with_dir_def by (cases "u_open U path O_RDONLY w"; cases "fst (u_open U path O_RDONLY w) < 0") (auto intro!: andthen_mono assms option.const_mono)

definition entry_path :: "string \<Rightarrow> string \<Rightarrow> string" where
  "entry_path path buf = snprintf 1024 (path @ ''/'' @ cstr buf)"

partial_function (option) listdir_loop :: "'w unix \<Rightarrow> lsopts \<Rightarrow> string \<Rightarrow> int \<Rightarrow> 'w \<Rightarrow> (unit flow \<times> 'w) option" where
  "listdir_loop U v path fd w =
     (let (len, buf, w1) = u_getdirentry U fd 1023 w in
      if len > 0 then
        let name = take (nat len) buf; newpath = entry_path path name in
        andthen (if aopt v \<or> name ! 0 \<noteq> CHR ''.'' then ls_print U v newpath w1 else Some (Next (), w1))
          (\<lambda>_ w2. listdir_loop U v path fd w2)
      else if len < 0 then err U 1 (path @ '': getdirentry'') w1
      else Some (Next (), w1))"

definition listdir :: "'w unix \<Rightarrow> lsopts \<Rightarrow> string \<Rightarrow> bool \<Rightarrow> bool \<Rightarrow> 'w \<Rightarrow> (bool flow \<times> 'w) option" where
  "listdir U v path showheader first w =
     (let (first1, w1) = (if showheader then printheader U path first w else (first, w)) in
      andthen (with_dir U path (listdir_loop U v path) w1) (\<lambda>_ w2. Some (Next first1, w2)))"

partial_function (option) recurse_loop :: "'w unix \<Rightarrow> lsopts \<Rightarrow> string \<Rightarrow> int \<Rightarrow> bool \<Rightarrow> 'w \<Rightarrow> (bool flow \<times> 'w) option" where
  "recurse_loop U v path fd first w =
     (let (len, buf, w1) = u_getdirentry U fd 1023 w in
      if len > 0 then
        let name = take (nat len) buf; newpath = entry_path path name in
        if \<not> aopt v \<and> name ! 0 = CHR ''.'' then recurse_loop U v path fd first w1
        else if cstr name = ''.'' \<or> cstr name = ''..'' then recurse_loop U v path fd first w1
        else andthen (isdir U newpath w1) (\<lambda>d w2.
          if \<not> d then recurse_loop U v path fd first w2
          else andthen (listdir U v newpath True first w2) (\<lambda>first1 w3.
            andthen (if Ropt v then with_dir U newpath (\<lambda>fd2 w4. recurse_loop U v newpath fd2 first1 w4) w3
                     else Some (Next first1, w3))
              (\<lambda>first2 w5. recurse_loop U v path fd first2 w5)))
      else if len < 0 then err U 1 path w1
      else Some (Next first, w1))"

declare listdir_loop.simps [code] recurse_loop.simps [code]

definition recursedir :: "'w unix \<Rightarrow> lsopts \<Rightarrow> string \<Rightarrow> bool \<Rightarrow> 'w \<Rightarrow> (bool flow \<times> 'w) option" where
  "recursedir U v path first w = with_dir U path (\<lambda>fd w1. recurse_loop U v path fd first w1) w"

definition listitem :: "'w unix \<Rightarrow> lsopts \<Rightarrow> string \<Rightarrow> bool \<Rightarrow> bool \<Rightarrow> 'w \<Rightarrow> (bool flow \<times> 'w) option" where
  "listitem U v path showheader first w =
     andthen (if dopt v then Some (Next False, w) else isdir U path w) (\<lambda>d w1.
       if d then
         andthen (listdir U v path (showheader \<or> Ropt v) first w1) (\<lambda>first1 w2.
           if Ropt v then recursedir U v path first1 w2 else Some (Next first1, w2))
       else andthen (ls_print U v path w1) (\<lambda>_ w2. Some (Next first, w2)))"

section \<open>The program\<close>

definition isopt :: "string \<Rightarrow> bool" where
  "isopt a \<longleftrightarrow> a \<noteq> [] \<and> a ! 0 = CHR ''-''"

fun ls_options :: "'w unix \<Rightarrow> string \<Rightarrow> lsopts \<Rightarrow> 'w \<Rightarrow> (lsopts flow \<times> 'w) option" where
  "ls_options U [] v w = Some (Next v, w)"
| "ls_options U (ch # chs) v w = andthen (ls_option U ch v w) (\<lambda>v1 w1. ls_options U chs v1 w1)"

fun ls_args :: "'w unix \<Rightarrow> bool \<Rightarrow> string list \<Rightarrow> lsopts \<Rightarrow> bool \<Rightarrow> 'w \<Rightarrow> ((lsopts \<times> bool) flow \<times> 'w) option" where
  "ls_args U several [] v first w = Some (Next (v, first), w)"
| "ls_args U several (a # as) v first w =
     (if isopt a then andthen (ls_options U (tl a) v w) (\<lambda>v1 w1. ls_args U several as v1 first w1)
      else andthen (listitem U v a several first w) (\<lambda>first1 w1. ls_args U several as v first1 w1))"

definition ls_main :: "'w unix \<Rightarrow> string list \<Rightarrow> 'w \<Rightarrow> (int flow \<times> 'w) option" where
  "ls_main U args w =
     (let items = length (filter (\<lambda>a. \<not> isopt a) args) in
      andthen (ls_args U (items > 1) args no_options True w) (\<lambda>r w1.
        andthen (if items = 0 then listitem U (fst r) ''.'' False (snd r) w1 else Some (Next (snd r), w1))
          (\<lambda>_ w2. Some (Next 0, w2))))"

end
