(* ===== verification/Ls_Spec.thy ===== *)
theory Ls_Spec
  imports Ls
begin

text \<open>
  What \<open>ls\<close> prints. The reference definition is a listing of headers and lines, computed from a file tree (\<open>ls_items\<close>), and its
  text (\<open>render\<close>). Main results: the program, run on a file system that shows a finite tree, terminates and prints that text
  (\<open>ls_lists\<close>).
\<close>

section \<open>Reference definition\<close>

text \<open>A file with its status; the entries matter for directories. Entries \<open>.\<close> and \<open>..\<close> only have a status.\<close>

datatype ftree = FT (root: stat) (kids: "(string \<times> ftree) list")

datatype item = Header string | Line string

text \<open>Headers are preceded by an empty line, except the first.\<close>

fun render :: "bool \<Rightarrow> item list \<Rightarrow> string" where
  "render first [] = []"
| "render first (Header p # xs) = (if first then [] else [CHR 0x0A]) @ p @ '':'' @ [CHR 0x0A] @ render False xs"
| "render first (Line l # xs) = l @ [CHR 0x0A] @ render first xs"

fun first_after :: "bool \<Rightarrow> item list \<Rightarrow> bool" where
  "first_after first [] = first"
| "first_after first (Header p # xs) = first_after False xs"
| "first_after first (Line l # xs) = first_after first xs"

definition child :: "string \<Rightarrow> string \<Rightarrow> string" where
  "child p n = p @ ''/'' @ n"

definition hidden :: "lsopts \<Rightarrow> string \<Rightarrow> bool" where
  "hidden v n \<longleftrightarrow> \<not> aopt v \<and> n ! 0 = CHR ''.''"

definition dots :: "string \<Rightarrow> bool" where
  "dots n \<longleftrightarrow> n = ''.'' \<or> n = ''..''"

text \<open>
  The line of a file called \<open>name\<close>. With \<open>-s\<close> it begins with the number of blocks, right-justified in three columns, whether \<open>-l\<close> is given
  or not; with \<open>-l\<close> there follow the type of the file as a letter and a fixed mode, the number of links in two columns, a fixed owner, and the size, left-justified
  in eight columns; last comes the name. Numbers that need more columns take them.
\<close>

definition type_letters :: "(u32 \<times> char) list" where
  "type_letters = [(S_IFREG, CHR ''-''), (S_IFDIR, CHR ''d''), (S_IFLNK, CHR ''l''), (S_IFCHR, CHR ''c''), (S_IFBLK, CHR ''b'')]"

definition type_letter :: "u32 \<Rightarrow> char" where
  "type_letter mode = (case map_of type_letters (mode AND S_IFMT) of Some c \<Rightarrow> c | None \<Rightarrow> CHR ''?'')"

function right_justified :: "nat \<Rightarrow> string \<Rightarrow> string" where
  "right_justified n s = (if length s < n then right_justified n (CHR '' '' # s) else s)"
  by pat_completeness auto
termination
  by (relation "measure (\<lambda>(n, s). n - length s)") auto

function left_justified :: "nat \<Rightarrow> string \<Rightarrow> string" where
  "left_justified n s = (if length s < n then left_justified n (s @ '' '') else s)"
  by pat_completeness auto
termination
  by (relation "measure (\<lambda>(n, s). n - length s)") auto

declare right_justified.simps [simp del] left_justified.simps [simp del]

definition list_line :: "lsopts \<Rightarrow> string \<Rightarrow> stat \<Rightarrow> string" where
  "list_line v name st = concat
     ((if sopt v then [right_justified 3 (sdec (st_blocks st)), '' ''] else [])
      @ (if lopt v then [[type_letter (st_mode st)], ''rwx------'', '' '', right_justified 2 (sdec (st_nlink st)), '' '', ''root'', ''  '',
           left_justified 8 (dec (unat (st_size st)))] else [])
      @ [name])"

text \<open>The last component of a path.\<close>

fun last_component :: "string \<Rightarrow> string" where
  "last_component [] = []"
| "last_component (c # cs) = (if CHR ''/'' \<in> set cs then last_component cs else if c = CHR ''/'' then cs else c # cs)"

fun dir_items :: "lsopts \<Rightarrow> string \<Rightarrow> (string \<times> ftree) list \<Rightarrow> item list" where
  "dir_items v p [] = []"
| "dir_items v p ((n, t) # es) = (if hidden v n then [] else [Line (list_line v n (root t))]) @ dir_items v p es"

text \<open>The directories below a directory, each with its header and its entries.\<close>

fun rec_items :: "lsopts \<Rightarrow> string \<Rightarrow> (string \<times> ftree) list \<Rightarrow> item list" where
  "rec_items v p [] = []"
| "rec_items v p ((n, FT st ks) # es) =
     (if hidden v n \<or> dots n \<or> \<not> S_ISDIR (st_mode st) then []
      else Header (child p n) # dir_items v (child p n) ks @ (if Ropt v then rec_items v (child p n) ks else []))
     @ rec_items v p es"

definition path_items :: "lsopts \<Rightarrow> bool \<Rightarrow> string \<Rightarrow> ftree \<Rightarrow> item list" where
  "path_items v several p t =
     (if \<not> dopt v \<and> S_ISDIR (st_mode (root t)) then
        (if several \<or> Ropt v then [Header p] else []) @ dir_items v p (kids t) @ (if Ropt v then rec_items v p (kids t) else [])
      else [Line (list_line v (last_component p) (root t))])"

definition with_option :: "char \<Rightarrow> lsopts \<Rightarrow> lsopts" where
  "with_option ch v = v\<lparr>aopt := aopt v \<or> ch = CHR ''a'', dopt := dopt v \<or> ch = CHR ''d'', lopt := lopt v \<or> ch = CHR ''l'',
     Ropt := Ropt v \<or> ch = CHR ''R'', sopt := sopt v \<or> ch = CHR ''s''\<rparr>"

text \<open>The whole program on trees \<open>T\<close>: an option applies to the arguments after it.\<close>

fun args_items :: "(string \<Rightarrow> ftree) \<Rightarrow> bool \<Rightarrow> lsopts \<Rightarrow> string list \<Rightarrow> item list" where
  "args_items T several v [] = []"
| "args_items T several v (a # as) =
     (if isopt a then args_items T several (fold with_option (tl a) v) as
      else path_items v several a (T a) @ args_items T several v as)"

definition all_options :: "string list \<Rightarrow> lsopts" where
  "all_options args = fold with_option (concat (map tl (filter isopt args))) no_options"

definition ls_items :: "(string \<Rightarrow> ftree) \<Rightarrow> string list \<Rightarrow> item list" where
  "ls_items T args = args_items T (length (filter (\<lambda>a. \<not> isopt a) args) > 1) no_options args
     @ (if filter (\<lambda>a. \<not> isopt a) args = [] then path_items (all_options args) False ''.'' (T ''.'') else [])"

section \<open>The lines of the program\<close>

lemma typech_letter: "typech mode = type_letter mode"
  by (simp add: typech_def type_letter_def type_letters_def S_IS_defs S_IF_defs)

lemma pad_left_justified: "pad_left n s = right_justified n s"
proof (induction "n - length s" arbitrary: s)
  case 0
  then show ?case by (subst right_justified.simps) (simp add: pad_left_def)
next
  case (Suc k)
  then have "pad_left n (CHR '' '' # s) = right_justified n (CHR '' '' # s)" by simp
  moreover have "n - length s = Suc (n - length (CHR '' '' # s))" using Suc.hyps(2) by simp
  then have "pad_left n s = pad_left n (CHR '' '' # s)" by (simp add: pad_left_def replicate_app_Cons_same)
  moreover have "length s < n" using Suc.hyps(2) by linarith
  ultimately show ?case by (subst right_justified.simps) simp
qed

lemma pad_right_justified: "pad_right n s = left_justified n s"
proof (induction "n - length s" arbitrary: s)
  case 0
  then show ?case by (subst left_justified.simps) (simp add: pad_right_def)
next
  case (Suc k)
  then have "pad_right n (s @ '' '') = left_justified n (s @ '' '')" by simp
  moreover have "n - length s = Suc (n - length (s @ '' ''))" using Suc.hyps(2) by simp
  then have "pad_right n s = pad_right n (s @ '' '')" by (simp add: pad_right_def)
  moreover have "length s < n" using Suc.hyps(2) by linarith
  ultimately show ?case by (subst left_justified.simps) simp
qed

lemma basename_last_component: "basename p = last_component p"
proof (induction p)
  case (Cons c cs)
  then show ?case
    by (cases "CHR ''/'' \<in> set cs") (auto simp: basename_def takeWhile_append takeWhile_tail intro!: takeWhile_append2)
qed (simp add: basename_def)

lemma ls_line_eq: "ls_line v p st = list_line v (last_component p) st"
  by (simp add: ls_line_def list_line_def typech_letter pad_left_justified pad_right_justified basename_last_component)

lemma last_component_child: "CHR ''/'' \<notin> set n \<Longrightarrow> last_component (child p n) = n"
  unfolding child_def by (induction p) (cases n; simp)+

section \<open>File systems that show a tree\<close>

text \<open>
  Path \<open>p\<close> names a file other than the standard output \<open>c\<close>, and what \<open>fstat\<close> and \<open>getdirentry\<close> report below it is the tree. Names are not
  empty, have no slash, and paths fit into the buffers of the program.
\<close>

definition entry_ok :: "fsys \<Rightarrow> nat \<Rightarrow> string \<Rightarrow> string \<Rightarrow> stat \<Rightarrow> bool" where
  "entry_ok f c p n st \<longleftrightarrow> n \<noteq> [] \<and> CHR 0x00 \<notin> set n \<and> CHR ''/'' \<notin> set n \<and> length (child p n) < 1024
     \<and> (\<exists>j. names f (child p n) = Some j \<and> j \<noteq> c \<and> stats f j = st)"

inductive shows_tree :: "fsys \<Rightarrow> nat \<Rightarrow> string \<Rightarrow> ftree \<Rightarrow> bool" for f c where
  shows_FT: "\<lbrakk>names f p = Some i; i \<noteq> c; stats f i = st; S_ISDIR (st_mode st) \<longrightarrow> entries f i = map fst ks;
     \<forall>n t. S_ISDIR (st_mode st) \<longrightarrow> (n, t) \<in> set ks \<longrightarrow>
       entry_ok f c p n (root t) \<and> (\<not> dots n \<longrightarrow> shows_tree f c (child p n) t)\<rbrakk>
   \<Longrightarrow> shows_tree f c p (FT st ks)"

inductive_cases shows_FTE: "shows_tree f c p (FT st ks)"

section \<open>The world while ls runs\<close>

text \<open>Standard output is at its end; descriptors other than it are \<open>F\<close>; the files are those of \<open>f\<close>.\<close>

definition lsw :: "'w unix \<Rightarrow> ('w \<Rightarrow> fsys) \<Rightarrow> ('w \<Rightarrow> bool) \<Rightarrow> fsys \<Rightarrow> nat \<Rightarrow> (int \<Rightarrow> (nat \<times> nat) option) \<Rightarrow> 'w \<Rightarrow> bool" where
  "lsw U V H f c F w \<longleftrightarrow> fs_laws U V H \<and> H w \<and> fds (V w) STDOUT_FILENO = Some (c, length (bytes (V w) c))
     \<and> (\<forall>x. x \<noteq> STDOUT_FILENO \<longrightarrow> fds (V w) x = F x) \<and> names (V w) = names f \<and> entries (V w) = entries f
     \<and> (\<forall>x. x \<noteq> c \<longrightarrow> stats (V w) x = stats f x)"

text \<open>A step goes on with value \<open>x\<close>, leaves the descriptors \<open>F\<close>, and the standard output is then \<open>s\<close>.\<close>

definition yields :: "'w unix \<Rightarrow> ('w \<Rightarrow> fsys) \<Rightarrow> ('w \<Rightarrow> bool) \<Rightarrow> fsys \<Rightarrow> nat \<Rightarrow> (int \<Rightarrow> (nat \<times> nat) option)
    \<Rightarrow> ('a flow \<times> 'w) option \<Rightarrow> 'a \<Rightarrow> string \<Rightarrow> bool" where
  "yields U V H f c F m x s \<longleftrightarrow> (\<exists>w'. m = Some (Next x, w') \<and> lsw U V H f c F w' \<and> bytes (V w') c = s)"

lemma yields_Next: "lsw U V H f c F w \<Longrightarrow> bytes (V w) c = s \<Longrightarrow> yields U V H f c F (Some (Next x, w)) x s"
  by (simp add: yields_def)

lemma yields_andthen:
  assumes "yields U V H f c F m x s" and "\<And>w. lsw U V H f c F w \<Longrightarrow> bytes (V w) c = s \<Longrightarrow> yields U V H f c F' (k x w) y s'"
  shows "yields U V H f c F' (andthen m k) y s'"
  using assms unfolding yields_def by auto

lemma lsw_open:
  assumes "lsw U V H f c F w" and "names f p = Some i"
  obtains fd w' where "u_open U p O_RDONLY w = (fd, w')" "0 \<le> fd" "F fd = None" "fd \<noteq> STDOUT_FILENO"
    "lsw U V H f c (F(fd \<mapsto> (i, 0))) w'" "bytes (V w') c = bytes (V w) c"
proof -
  have l: "fs_laws U V H" "H w" "names (V w) p = Some i" using assms by (simp_all add: lsw_def)
  obtain fd w' where o: "u_open U p O_RDONLY w = (fd, w')" "0 \<le> fd" "fds (V w) fd = None" "H w'"
      "V w' = (V w)\<lparr>fds := (fds (V w))(fd \<mapsto> (i, 0))\<rparr>" by (rule open_existing [OF l])
  have n: "fd \<noteq> STDOUT_FILENO" using o(3) assms(1) by (auto simp: lsw_def)
  moreover have "F fd = None" using o(3) assms(1) n by (simp add: lsw_def)
  moreover have "lsw U V H f c (F(fd \<mapsto> (i, 0))) w'" using assms(1) o(4) n unfolding lsw_def o(5) by simp
  ultimately show thesis using that o(1,2,5) by simp
qed

lemma lsw_close:
  assumes "lsw U V H f c (F(fd \<mapsto> x)) w" and "fd \<noteq> STDOUT_FILENO" and "F fd = None"
  shows "lsw U V H f c F (snd (u_close U fd w))" "bytes (V (snd (u_close U fd w))) c = bytes (V w) c"
proof -
  have l: "fs_laws U V H" "H w" "fds (V w) fd = Some x" using assms by (simp_all add: lsw_def)
  obtain w' where w': "u_close U fd w = (0, w')" "H w'" "V w' = (V w)\<lparr>fds := (fds (V w))(fd := None)\<rparr>" by (rule close_open [OF l])
  have "lsw U V H f c F w'" using assms w'(2) unfolding lsw_def w'(3) by simp
  then show "lsw U V H f c F (snd (u_close U fd w))" "bytes (V (snd (u_close U fd w))) c = bytes (V w) c" using w'(1,3) by simp_all
qed

lemma lsw_printf:
  assumes "lsw U V H f c F w"
  shows "lsw U V H f c F (u_printf U s w)" "bytes (V (u_printf U s w)) c = bytes (V w) c @ s"
proof -
  have l: "fs_laws U V H" "H w" "fds (V w) STDOUT_FILENO = Some (c, length (bytes (V w) c))" using assms by (simp_all add: lsw_def)
  from printf_stdout(2) [OF l, of s] obtain st where v: "V (u_printf U s w) = (V w)\<lparr>
        fds := (fds (V w))(STDOUT_FILENO \<mapsto> (c, length (bytes (V w) c) + length s)),
        bytes := (bytes (V w))(c := bytes (V w) c @ s), stats := (stats (V w))(c := st)\<rparr>" by blast
  show "lsw U V H f c F (u_printf U s w)" using assms printf_stdout(1) [OF l, of s] unfolding lsw_def v by simp
  show "bytes (V (u_printf U s w)) c = bytes (V w) c @ s" by (simp add: v)
qed

lemma lsw_fstat:
  assumes "lsw U V H f c F w" and "F fd = Some (i, k)" and "fd \<noteq> STDOUT_FILENO" and "i \<noteq> c"
  obtains w' where "u_fstat U fd w = (0, stats f i, w')" "lsw U V H f c F w'" "bytes (V w') c = bytes (V w) c"
proof -
  have l: "fs_laws U V H" "H w" "fds (V w) fd = Some (i, k)" using assms by (simp_all add: lsw_def)
  obtain w' where w': "u_fstat U fd w = (0, stats (V w) i, w')" "H w'" "V w' = V w" by (rule fstat_open [OF l])
  have "lsw U V H f c F w'" using assms(1) w'(2) unfolding lsw_def w'(3) by simp
  then show thesis using that w'(1,3) assms(1,4) by (simp add: lsw_def)
qed

lemma lsw_getdirentry:
  assumes "lsw U V H f c (F(fd \<mapsto> (i, k))) w" and "fd \<noteq> STDOUT_FILENO" and "i \<noteq> c" and "S_ISDIR (st_mode (stats f i))"
    and "k < length (entries f i)" and "length (entries f i ! k) \<le> 1023"
  obtains w' where "u_getdirentry U fd 1023 w = (int (length (entries f i ! k)), entries f i ! k, w')"
    "lsw U V H f c (F(fd \<mapsto> (i, Suc k))) w'" "bytes (V w') c = bytes (V w) c"
proof -
  have l: "fs_laws U V H" "H w" "fds (V w) fd = Some (i, k)" "S_ISDIR (st_mode (stats (V w) i))" "k < length (entries (V w) i)"
      "length (entries (V w) i ! k) \<le> 1023" using assms by (simp_all add: lsw_def)
  obtain w' where w': "u_getdirentry U fd 1023 w = (int (length (entries (V w) i ! k)), entries (V w) i ! k, w')" "H w'"
    "V w' = (V w)\<lparr>fds := (fds (V w))(fd \<mapsto> (i, Suc k))\<rparr>" by (rule getdirentry_next [OF l])
  have "lsw U V H f c (F(fd \<mapsto> (i, Suc k))) w'" using assms(1,2) w'(2) unfolding lsw_def w'(3) by simp
  then show thesis using that w'(1,3) assms(1) by (simp add: lsw_def)
qed

lemma lsw_getdirentry_end:
  assumes "lsw U V H f c (F(fd \<mapsto> (i, k))) w" and "fd \<noteq> STDOUT_FILENO" and "i \<noteq> c" and "S_ISDIR (st_mode (stats f i))"
    and "length (entries f i) \<le> k"
  obtains buf w' where "u_getdirentry U fd 1023 w = (0, buf, w')" "lsw U V H f c (F(fd \<mapsto> (i, k))) w'" "bytes (V w') c = bytes (V w) c"
proof -
  have l: "fs_laws U V H" "H w" "fds (V w) fd = Some (i, k)" "S_ISDIR (st_mode (stats (V w) i))" "length (entries (V w) i) \<le> k"
    using assms by (simp_all add: lsw_def)
  obtain buf w' where w': "u_getdirentry U fd 1023 w = (0, buf, w')" "H w'" "V w' = V w" by (rule getdirentry_end [OF l])
  have "lsw U V H f c (F(fd \<mapsto> (i, k))) w'" using assms(1) w'(2) unfolding lsw_def w'(3) by simp
  then show thesis using that w'(1,3) by simp
qed

section \<open>The functions of the program\<close>

lemma isdir_yields:
  assumes "lsw U V H f c F w" and "names f p = Some i" and "i \<noteq> c"
  shows "yields U V H f c F (isdir U p w) (S_ISDIR (st_mode (stats f i))) (bytes (V w) c)"
proof -
  obtain fd w1 where o: "u_open U p O_RDONLY w = (fd, w1)" "0 \<le> fd" "F fd = None" "fd \<noteq> STDOUT_FILENO"
    "lsw U V H f c (F(fd \<mapsto> (i, 0))) w1" "bytes (V w1) c = bytes (V w) c" by (rule lsw_open [OF assms(1,2)])
  obtain w2 where s: "u_fstat U fd w1 = (0, stats f i, w2)" "lsw U V H f c (F(fd \<mapsto> (i, 0))) w2" "bytes (V w2) c = bytes (V w1) c"
    by (rule lsw_fstat [OF o(5) _ o(4) assms(3)]) auto
  show ?thesis using o s lsw_close [OF s(2) o(4,3)] by (simp add: isdir_def yields_Next)
qed

lemma ls_print_yields:
  assumes "lsw U V H f c F w" and "names f p = Some i" and "i \<noteq> c"
  shows "yields U V H f c F (ls_print U v p w) () (bytes (V w) c @ ls_line v p (stats f i) @ [CHR 0x0A])"
proof (cases "lopt v \<or> sopt v")
  case True
  obtain fd w1 where o: "u_open U p O_RDONLY w = (fd, w1)" "0 \<le> fd" "F fd = None" "fd \<noteq> STDOUT_FILENO"
    "lsw U V H f c (F(fd \<mapsto> (i, 0))) w1" "bytes (V w1) c = bytes (V w) c" by (rule lsw_open [OF assms(1,2)])
  obtain w2 where s: "u_fstat U fd w1 = (0, stats f i, w2)" "lsw U V H f c (F(fd \<mapsto> (i, 0))) w2" "bytes (V w2) c = bytes (V w1) c"
    by (rule lsw_fstat [OF o(5) _ o(4) assms(3)]) auto
  note cl = lsw_close [OF s(2) o(4,3)]
  show ?thesis using True o s cl(2) lsw_printf [OF cl(1)] by (auto simp: ls_print_def intro!: yields_Next)
next
  case False
  then have "ls_line v p st = basename p" for st by (simp add: ls_line_def)
  with False lsw_printf [OF assms(1)] show ?thesis by (auto simp: ls_print_def intro!: yields_Next)
qed

lemma with_dir_yields:
  assumes "lsw U V H f c F w" and "names f p = Some i"
    and "\<And>fd w1. fd \<noteq> STDOUT_FILENO \<Longrightarrow> lsw U V H f c (F(fd \<mapsto> (i, 0))) w1 \<Longrightarrow> bytes (V w1) c = bytes (V w) c
       \<Longrightarrow> yields U V H f c (F(fd \<mapsto> (i, k))) (body fd w1) x s"
  shows "yields U V H f c F (with_dir U p body w) x s"
proof -
  obtain fd w1 where o: "u_open U p O_RDONLY w = (fd, w1)" "0 \<le> fd" "F fd = None" "fd \<noteq> STDOUT_FILENO"
    "lsw U V H f c (F(fd \<mapsto> (i, 0))) w1" "bytes (V w1) c = bytes (V w) c" by (rule lsw_open [OF assms(1,2)])
  have "yields U V H f c F (andthen (body fd w1) (\<lambda>x w2. Some (Next x, snd (u_close U fd w2)))) x s"
    by (rule yields_andthen [OF assms(3) [OF o(4-6)]]) (use lsw_close o(3,4) in \<open>auto intro!: yields_Next\<close>)
  then show ?thesis using o by (simp add: with_dir_def)
qed

lemma entry_path_ok: "entry_ok f c p n st \<Longrightarrow> entry_path p n = child p n" "entry_ok f c p n st \<Longrightarrow> cstr n = n"
  "entry_ok f c p n st \<Longrightarrow> 0 < length n \<and> length n \<le> 1023"
proof -
  assume e: "entry_ok f c p n st"
  then show n: "cstr n = n" by (auto simp: entry_ok_def cstr_def takeWhile_eq_all_conv)
  show "entry_path p n = child p n" using e n by (auto simp: entry_ok_def entry_path_def snprintf_def child_def)
  show "0 < length n \<and> length n \<le> 1023" using e by (simp add: entry_ok_def child_def)
qed

text \<open>One entry of an open directory is read; the others are \<open>pre\<close>, before it, and \<open>es\<close>.\<close>

definition reading :: "'w unix \<Rightarrow> ('w \<Rightarrow> fsys) \<Rightarrow> ('w \<Rightarrow> bool) \<Rightarrow> fsys \<Rightarrow> nat \<Rightarrow> (int \<Rightarrow> (nat \<times> nat) option)
    \<Rightarrow> int \<Rightarrow> nat \<Rightarrow> string list \<Rightarrow> string \<Rightarrow> (string \<times> ftree) list \<Rightarrow> 'w \<Rightarrow> bool" where
  "reading U V H f c F fd i pre p es w \<longleftrightarrow> lsw U V H f c (F(fd \<mapsto> (i, length pre))) w \<and> fd \<noteq> STDOUT_FILENO \<and> i \<noteq> c
     \<and> S_ISDIR (st_mode (stats f i)) \<and> entries f i = pre @ map fst es \<and> (\<forall>(n, t) \<in> set es. entry_ok f c p n (root t))"

lemma reading_Cons:
  assumes "reading U V H f c F fd i pre p ((n, t) # es) w"
  obtains w1 where "u_getdirentry U fd 1023 w = (int (length n), n, w1)" "reading U V H f c F fd i (pre @ [n]) p es w1"
    "bytes (V w1) c = bytes (V w) c" "entry_ok f c p n (root t)"
proof -
  have r: "lsw U V H f c (F(fd \<mapsto> (i, length pre))) w" "fd \<noteq> STDOUT_FILENO" "i \<noteq> c" "S_ISDIR (st_mode (stats f i))"
      "entries f i = pre @ n # map fst es" "entry_ok f c p n (root t)" "\<forall>(n, t) \<in> set es. entry_ok f c p n (root t)"
    using assms by (simp_all add: reading_def)
  have k: "length pre < length (entries f i)" "length (entries f i ! length pre) \<le> 1023"
    using r(5) entry_path_ok(3) [OF r(6)] by simp_all
  obtain w1 where "u_getdirentry U fd 1023 w = (int (length (entries f i ! length pre)), entries f i ! length pre, w1)"
    "lsw U V H f c (F(fd \<mapsto> (i, Suc (length pre)))) w1" "bytes (V w1) c = bytes (V w) c"
    by (rule lsw_getdirentry [OF r(1-4) k])
  then show thesis using that r by (simp add: reading_def)
qed

lemma reading_Nil:
  assumes "reading U V H f c F fd i pre p [] w"
  obtains buf w1 where "u_getdirentry U fd 1023 w = (0, buf, w1)" "lsw U V H f c (F(fd \<mapsto> (i, length pre))) w1"
    "bytes (V w1) c = bytes (V w) c"
proof -
  have r: "lsw U V H f c (F(fd \<mapsto> (i, length pre))) w" "fd \<noteq> STDOUT_FILENO" "i \<noteq> c" "S_ISDIR (st_mode (stats f i))"
      "length (entries f i) \<le> length pre" using assms by (simp_all add: reading_def)
  show thesis by (rule lsw_getdirentry_end [OF r]) (rule that)
qed

text \<open>Printing between two entries does not disturb the directory.\<close>

lemma reading_lsw:
  assumes "reading U V H f c F fd i pre p es w" and "lsw U V H f c (F(fd \<mapsto> (i, length pre))) w1"
  shows "reading U V H f c F fd i pre p es w1"
  using assms by (simp add: reading_def)

lemma render_append [simp]: "render b (xs @ ys) = render b xs @ render (first_after b xs) ys"
  by (induction b xs rule: render.induct) simp_all

lemma first_after_append [simp]: "first_after b (xs @ ys) = first_after (first_after b xs) ys"
  by (induction b xs rule: render.induct) simp_all

lemma first_after_dir_items [simp]: "first_after b (dir_items v p es) = b"
  by (induction v p es rule: dir_items.induct) simp_all

lemma listdir_loop_yields:
  assumes "reading U V H f c F fd i pre p es w"
  shows "yields U V H f c (F(fd \<mapsto> (i, length pre + length es))) (listdir_loop U v p fd w) ()
     (bytes (V w) c @ render b (dir_items v p es))"
  using assms
proof (induction es arbitrary: pre w)
  case Nil
  obtain buf w1 where "u_getdirentry U fd 1023 w = (0, buf, w1)" "lsw U V H f c (F(fd \<mapsto> (i, length pre))) w1"
    "bytes (V w1) c = bytes (V w) c" by (rule reading_Nil [OF Nil])
  then show ?case by (subst listdir_loop.simps) (simp add: yields_Next)
next
  case (Cons e es)
  obtain n t where e: "e = (n, t)" by fastforce
  obtain w1 where r: "u_getdirentry U fd 1023 w = (int (length n), n, w1)" "reading U V H f c F fd i (pre @ [n]) p es w1"
    "bytes (V w1) c = bytes (V w) c" "entry_ok f c p n (root t)" by (rule reading_Cons [OF Cons.prems [unfolded e]])
  note ep = entry_path_ok [OF r(4)]
  let ?F = "F(fd \<mapsto> (i, length (pre @ [n])))"
  have l1: "lsw U V H f c ?F w1" using r(2) by (simp add: reading_def)
  have "yields U V H f c ?F (if aopt v \<or> n ! 0 \<noteq> CHR ''.'' then ls_print U v (child p n) w1 else Some (Next (), w1)) ()
      (bytes (V w) c @ render b (dir_items v p [e]))"
    using r(3,4) l1 by (auto simp: e hidden_def entry_ok_def ls_line_eq last_component_child intro!: yields_Next dest: ls_print_yields [where v = v])
  then have "yields U V H f c (F(fd \<mapsto> (i, length (pre @ [n]) + length es)))
      (andthen (if aopt v \<or> n ! 0 \<noteq> CHR ''.'' then ls_print U v (child p n) w1 else Some (Next (), w1)) (\<lambda>_ w2. listdir_loop U v p fd w2)) ()
      ((bytes (V w) c @ render b (dir_items v p [e])) @ render b (dir_items v p es))"
    by (rule yields_andthen) (use Cons.IH reading_lsw [OF r(2)] in metis)
  then show ?case using r(1) ep by (subst listdir_loop.simps) (auto simp: e Let_def hidden_def split: if_splits)
qed

lemma shows_tree_reading:
  assumes "shows_tree f c p (FT st ks)" and "S_ISDIR (st_mode st)"
  obtains i where "names f p = Some i" "i \<noteq> c" "stats f i = st" "entries f i = map fst ks"
    "\<forall>(n, t) \<in> set ks. entry_ok f c p n (root t)" "\<And>n t. (n, t) \<in> set ks \<Longrightarrow> \<not> dots n \<Longrightarrow> shows_tree f c (child p n) t"
  using assms by (elim shows_FTE) auto

lemma listdir_yields:
  assumes "lsw U V H f c F w" and "shows_tree f c p (FT st ks)" and "S_ISDIR (st_mode st)"
  shows "yields U V H f c F (listdir U v p hdr b w) (if hdr then False else b)
     (bytes (V w) c @ render b ((if hdr then [Header p] else []) @ dir_items v p ks))"
proof -
  obtain i where i: "names f p = Some i" "i \<noteq> c" "stats f i = st" "entries f i = map fst ks"
    "\<forall>(n, t) \<in> set ks. entry_ok f c p n (root t)" by (rule shows_tree_reading [OF assms(2,3)])
  obtain b1 w1 where h: "(if hdr then printheader U p b w else (b, w)) = (b1, w1)" by fastforce
  have h1: "b1 = (if hdr then False else b)" "lsw U V H f c F w1"
      "bytes (V w1) c = bytes (V w) c @ render b (if hdr then [Header p] else [])"
    using h assms(1) lsw_printf [OF assms(1)] lsw_printf [OF lsw_printf(1) [OF assms(1)]]
    by (auto simp: printheader_def Let_def split: if_splits)
  have "yields U V H f c F (with_dir U p (listdir_loop U v p) w1) () (bytes (V w1) c @ render b1 (dir_items v p ks))"
  proof (rule with_dir_yields [OF h1(2) i(1)])
    fix fd w2
    assume "fd \<noteq> STDOUT_FILENO" "lsw U V H f c (F(fd \<mapsto> (i, 0))) w2" and b: "bytes (V w2) c = bytes (V w1) c"
    then have "reading U V H f c F fd i [] p ks w2" using i assms(3) by (simp add: reading_def)
    from listdir_loop_yields [OF this, of v b1]
    show "yields U V H f c (F(fd \<mapsto> (i, length ks))) (listdir_loop U v p fd w2) () (bytes (V w1) c @ render b1 (dir_items v p ks))"
      using b by simp
  qed
  then have "yields U V H f c F (andthen (with_dir U p (listdir_loop U v p) w1) (\<lambda>_ w2. Some (Next b1, w2))) b1
      (bytes (V w1) c @ render b1 (dir_items v p ks))" by (rule yields_andthen) (simp add: yields_Next)
  moreover have "render b ((if hdr then [Header p] else []) @ dir_items v p ks) = render b (if hdr then [Header p] else []) @ render b1 (dir_items v p ks)"
    using h1(1) by simp
  ultimately show ?thesis using h h1(1,3) by (simp add: listdir_def del: render_append)
qed

text \<open>
  A directory that is listed with everything below it. That the loop over its entries does its work is the induction hypothesis of
  \<open>recurse_loop_yields\<close>.
\<close>

lemma andthen_assoc: "andthen m (\<lambda>x w. andthen (k x w) h) = andthen (andthen m k) h"
  by (auto simp: andthen_def split: flow.splits option.splits Option.bind_splits)

definition loops :: "'w unix \<Rightarrow> ('w \<Rightarrow> fsys) \<Rightarrow> ('w \<Rightarrow> bool) \<Rightarrow> fsys \<Rightarrow> nat \<Rightarrow> lsopts \<Rightarrow> string \<Rightarrow> (string \<times> ftree) list \<Rightarrow> bool" where
  "loops U V H f c v p es \<longleftrightarrow> (\<forall>F fd i pre w b. reading U V H f c F fd i pre p es w \<longrightarrow>
     yields U V H f c (F(fd \<mapsto> (i, length pre + length es))) (recurse_loop U v p fd b w) (first_after b (rec_items v p es))
       (bytes (V w) c @ render b (rec_items v p es)))"

lemma recursedir_yields:
  assumes "lsw U V H f c F w" and "shows_tree f c p (FT st ks)" and "S_ISDIR (st_mode st)" and "loops U V H f c v p ks"
  shows "yields U V H f c F (recursedir U v p b w) (first_after b (rec_items v p ks)) (bytes (V w) c @ render b (rec_items v p ks))"
proof -
  obtain i where i: "names f p = Some i" "i \<noteq> c" "stats f i = st" "entries f i = map fst ks"
    "\<forall>(n, t) \<in> set ks. entry_ok f c p n (root t)" by (rule shows_tree_reading [OF assms(2,3)])
  show ?thesis unfolding recursedir_def
  proof (rule with_dir_yields [OF assms(1) i(1)])
    fix fd w1
    assume a: "fd \<noteq> STDOUT_FILENO" "lsw U V H f c (F(fd \<mapsto> (i, 0))) w1" "bytes (V w1) c = bytes (V w) c"
    then have "reading U V H f c F fd i [] p ks w1" using i assms(3) by (simp add: reading_def)
    with assms(4) have "yields U V H f c (F(fd \<mapsto> (i, length ([] :: string list) + length ks))) (recurse_loop U v p fd b w1)
        (first_after b (rec_items v p ks)) (bytes (V w1) c @ render b (rec_items v p ks))" unfolding loops_def by blast
    then show "yields U V H f c (F(fd \<mapsto> (i, length ks))) (recurse_loop U v p fd b w1)
        (first_after b (rec_items v p ks)) (bytes (V w) c @ render b (rec_items v p ks))" by (simp only: a(3) list.size add_0)
  qed
qed

lemma enter_yields:
  assumes "lsw U V H f c F w" and "shows_tree f c p (FT st ks)" and "S_ISDIR (st_mode st)" and "Ropt v \<longrightarrow> loops U V H f c v p ks"
    and "its = (if hdr then [Header p] else []) @ dir_items v p ks @ (if Ropt v then rec_items v p ks else [])"
  shows "yields U V H f c F (andthen (listdir U v p hdr b w) (\<lambda>b1 w1. if Ropt v then recursedir U v p b1 w1 else Some (Next b1, w1)))
     (first_after b its) (bytes (V w) c @ render b its)"
proof (rule yields_andthen [OF listdir_yields [OF assms(1-3)]])
  fix w1
  let ?b = "if hdr then False else b"
  assume w1: "lsw U V H f c F w1" "bytes (V w1) c = bytes (V w) c @ render b ((if hdr then [Header p] else []) @ dir_items v p ks)"
  have r: "render b its = render b ((if hdr then [Header p] else []) @ dir_items v p ks) @ render ?b (if Ropt v then rec_items v p ks else [])"
    and f: "first_after b its = first_after ?b (if Ropt v then rec_items v p ks else [])" by (simp_all add: assms(5))
  show "yields U V H f c F (if Ropt v then recursedir U v p ?b w1 else Some (Next ?b, w1)) (first_after b its) (bytes (V w) c @ render b its)"
  proof (cases "Ropt v")
    case True
    have "yields U V H f c F (recursedir U v p ?b w1) (first_after ?b (rec_items v p ks)) (bytes (V w1) c @ render ?b (rec_items v p ks))"
      by (rule recursedir_yields [OF w1(1) assms(2,3)]) (use True assms(4) in blast)
    with True show ?thesis unfolding r f w1(2) append_assoc by (simp only: if_True)
  next
    case False
    with w1 show ?thesis unfolding r f by (auto intro: yields_Next)
  qed
qed

text \<open>One entry of \<open>recursedir\<close>: skipped, or entered.\<close>

lemma recurse_entry:
  assumes "loops U V H f c v p es" and "\<not> dots n \<longrightarrow> shows_tree f c (child p n) (FT st ks)"
    and "\<not> (hidden v n \<or> dots n \<or> \<not> S_ISDIR (st_mode st)) \<Longrightarrow> Ropt v \<longrightarrow> loops U V H f c v (child p n) ks"
  shows "loops U V H f c v p ((n, FT st ks) # es)"
  unfolding loops_def
proof (intro allI impI)
  fix F fd i pre w b
  assume "reading U V H f c F fd i pre p ((n, FT st ks) # es) w"
  then obtain w1 where r: "u_getdirentry U fd 1023 w = (int (length n), n, w1)" "reading U V H f c F fd i (pre @ [n]) p es w1"
    "bytes (V w1) c = bytes (V w) c" "entry_ok f c p n (root (FT st ks))" by (rule reading_Cons)
  note ep = entry_path_ok [OF r(4)]
  let ?F = "F(fd \<mapsto> (i, length (pre @ [n])))" and ?F' = "F(fd \<mapsto> (i, length (pre @ [n]) + length es))"
  let ?q = "child p n" and ?its = "rec_items v p ((n, FT st ks) # es)"
  have l1: "lsw U V H f c ?F w1" using r(2) by (simp add: reading_def)
  have rest: "yields U V H f c ?F' (recurse_loop U v p fd b' w') (first_after b' (rec_items v p es)) (bytes (V w') c @ render b' (rec_items v p es))"
    if "lsw U V H f c ?F w'" for w' b'
    using assms(1) reading_lsw [OF r(2) that] unfolding loops_def by blast
  obtain j where j: "names f ?q = Some j" "j \<noteq> c" "stats f j = st" using r(4) by (auto simp: entry_ok_def)
  have d: "yields U V H f c ?F (isdir U ?q w1) (S_ISDIR (st_mode st)) (bytes (V w) c)"
    using isdir_yields [OF l1 j(1,2)] j(3) r(3) by simp
  let ?go = "andthen (isdir U ?q w1) (\<lambda>d w2. if \<not> d then recurse_loop U v p fd b w2
      else andthen (andthen (listdir U v ?q True b w2) (\<lambda>b1 w3. if Ropt v then recursedir U v ?q b1 w3 else Some (Next b1, w3)))
        (\<lambda>b2 w5. recurse_loop U v p fd b2 w5))"
  have "yields U V H f c ?F' ?go (first_after b ?its) (bytes (V w) c @ render b ?its)" if "\<not> (hidden v n \<or> dots n)"
  proof (rule yields_andthen [OF d])
    fix w2
    assume w2: "lsw U V H f c ?F w2" "bytes (V w2) c = bytes (V w) c"
    show "yields U V H f c ?F' (if \<not> S_ISDIR (st_mode st) then recurse_loop U v p fd b w2
      else andthen (andthen (listdir U v ?q True b w2) (\<lambda>b1 w3. if Ropt v then recursedir U v ?q b1 w3 else Some (Next b1, w3)))
        (\<lambda>b2 w5. recurse_loop U v p fd b2 w5)) (first_after b ?its) (bytes (V w) c @ render b ?its)"
    proof (cases "S_ISDIR (st_mode st)")
      case False
      then show ?thesis using rest [OF w2(1), of b] w2(2) by simp
    next
      case True
      let ?sub = "[Header ?q] @ dir_items v ?q ks @ (if Ropt v then rec_items v ?q ks else [])"
      have its: "?its = ?sub @ rec_items v p es" using True that by simp
      have sh: "shows_tree f c ?q (FT st ks)" "Ropt v \<longrightarrow> loops U V H f c v ?q ks" using assms(2,3) that True by blast+
      have "yields U V H f c ?F (andthen (listdir U v ?q True b w2) (\<lambda>b1 w3. if Ropt v then recursedir U v ?q b1 w3 else Some (Next b1, w3)))
          (first_after b ?sub) (bytes (V w2) c @ render b ?sub)" by (rule enter_yields [OF w2(1) sh(1) True sh(2)]) simp
      then have "yields U V H f c ?F' (andthen (andthen (listdir U v ?q True b w2) (\<lambda>b1 w3. if Ropt v then recursedir U v ?q b1 w3 else Some (Next b1, w3)))
          (\<lambda>b2 w5. recurse_loop U v p fd b2 w5)) (first_after b ?its) (bytes (V w2) c @ render b ?its)"
      proof (rule yields_andthen)
        fix w5
        assume w5: "lsw U V H f c ?F w5" "bytes (V w5) c = bytes (V w2) c @ render b ?sub"
        show "yields U V H f c ?F' (recurse_loop U v p fd (first_after b ?sub) w5) (first_after b ?its) (bytes (V w2) c @ render b ?its)"
          using rest [OF w5(1), of "first_after b ?sub"]
          by (simp only: its w5(2) render_append first_after_append append_assoc)
      qed
      then show ?thesis using True by (simp only: w2(2) if_False not_True_eq_False)
    qed
  qed
  moreover have "recurse_loop U v p fd b w = (if hidden v n \<or> dots n then recurse_loop U v p fd b w1 else ?go)"
    using r(1) ep by (subst recurse_loop.simps) (simp add: hidden_def dots_def Let_def andthen_assoc recursedir_def cong del: if_weak_cong)
  moreover have "yields U V H f c ?F' (recurse_loop U v p fd b w1) (first_after b ?its) (bytes (V w) c @ render b ?its)" if "hidden v n \<or> dots n"
  proof -
    have "?its = rec_items v p es" using that by auto
    with rest [OF l1, of b] show ?thesis by (simp only: r(3))
  qed
  ultimately show "yields U V H f c (F(fd \<mapsto> (i, length pre + length ((n, FT st ks) # es)))) (recurse_loop U v p fd b w) (first_after b ?its)
      (bytes (V w) c @ render b ?its)" by (simp del: rec_items.simps)
qed

lemma recurse_loops:
  assumes "\<And>n t. (n, t) \<in> set es \<Longrightarrow> \<not> dots n \<Longrightarrow> shows_tree f c (child p n) t"
  shows "loops U V H f c v p es"
  using assms
proof (induction v p es rule: rec_items.induct)
  case (1 v p)
  show ?case unfolding loops_def
  proof (intro allI impI)
    fix F fd i pre w b
    assume "reading U V H f c F fd i pre p [] w"
    then obtain buf w1 where "u_getdirentry U fd 1023 w = (0, buf, w1)" "lsw U V H f c (F(fd \<mapsto> (i, length pre))) w1"
      "bytes (V w1) c = bytes (V w) c" by (rule reading_Nil)
    then show "yields U V H f c (F(fd \<mapsto> (i, length pre + length ([] :: (string \<times> ftree) list)))) (recurse_loop U v p fd b w)
        (first_after b (rec_items v p [])) (bytes (V w) c @ render b (rec_items v p []))"
      by (subst recurse_loop.simps) (simp add: yields_Next)
  qed
next
  case (2 v p n st ks es)
  have l: "loops U V H f c v p es" by (rule "2.IH"(2)) (use "2.prems" in simp)
  have k: "Ropt v \<longrightarrow> loops U V H f c v (child p n) ks" if "\<not> (hidden v n \<or> dots n \<or> \<not> S_ISDIR (st_mode st))"
  proof
    assume "Ropt v"
    moreover have "shows_tree f c (child p n) (FT st ks)" using "2.prems" that by simp
    ultimately show "loops U V H f c v (child p n) ks"
      using that by (intro "2.IH"(1)) (auto elim: shows_tree_reading)
  qed
  show ?case by (rule recurse_entry [OF l _ k]) (use "2.prems" in simp_all)
qed

lemma listitem_yields:
  assumes "lsw U V H f c F w" and "shows_tree f c p t"
  shows "yields U V H f c F (listitem U v p several b w) (first_after b (path_items v several p t))
     (bytes (V w) c @ render b (path_items v several p t))"
proof -
  obtain st ks where t: "t = FT st ks" by (cases t)
  obtain i where i: "names f p = Some i" "i \<noteq> c" "stats f i = st" using assms(2) unfolding t by (elim shows_FTE) blast
  let ?dir = "\<not> dopt v \<and> S_ISDIR (st_mode st)"
  have d: "yields U V H f c F (if dopt v then Some (Next False, w) else isdir U p w) ?dir (bytes (V w) c)"
    using isdir_yields [OF assms(1) i(1,2)] i(3) assms(1) by (simp add: yields_Next)
  show ?thesis unfolding listitem_def
  proof (rule yields_andthen [OF d])
    fix w1
    assume w1: "lsw U V H f c F w1" "bytes (V w1) c = bytes (V w) c"
    let ?enter = "andthen (listdir U v p (several \<or> Ropt v) b w1) (\<lambda>b1 w2. if Ropt v then recursedir U v p b1 w2 else Some (Next b1, w2))"
      and ?one = "andthen (ls_print U v p w1) (\<lambda>_ w2. Some (Next b, w2))"
    show "yields U V H f c F (if ?dir then ?enter else ?one) (first_after b (path_items v several p t))
        (bytes (V w) c @ render b (path_items v several p t))"
    proof (cases ?dir)
      case True
      have "loops U V H f c v p ks"
        by (rule recurse_loops) (use assms(2) True in \<open>auto simp: t elim: shows_tree_reading\<close>)
      then have "yields U V H f c F ?enter (first_after b (path_items v several p t)) (bytes (V w1) c @ render b (path_items v several p t))"
        by (intro enter_yields [OF w1(1) assms(2) [unfolded t]]) (use True in \<open>simp_all add: t path_items_def\<close>)
      with True show ?thesis by (simp only: w1(2) if_True simp_thms)
    next
      case False
      have "yields U V H f c F ?one b (bytes (V w1) c @ ls_line v p (stats f i) @ [CHR 0x0A])"
        by (rule yields_andthen [OF ls_print_yields [OF w1(1) i(1,2)]]) (simp add: yields_Next)
      with False show ?thesis by (auto simp: t path_items_def i(3) w1(2) ls_line_eq)
    qed
  qed
qed

definition valid_option :: "char \<Rightarrow> bool" where
  "valid_option ch \<longleftrightarrow> ch \<in> set ''adlRs''"

lemma ls_options_ok:
  assumes "\<forall>ch \<in> set chs. valid_option ch"
  shows "ls_options U chs v w = Some (Next (fold with_option chs v), w)"
  using assms
proof (induction chs arbitrary: v)
  case (Cons ch chs)
  then have "ls_option U ch v w = Some (Next (with_option ch v), w)" by (auto simp: ls_option_def valid_option_def with_option_def)
  then show ?case using Cons by simp
qed simp

lemma ls_args_yields:
  assumes "lsw U V H f c F w" and "\<forall>a \<in> set args. if isopt a then \<forall>ch \<in> set (tl a). valid_option ch else shows_tree f c a (T a)"
  shows "yields U V H f c F (ls_args U several args v b w)
     (fold with_option (concat (map tl (filter isopt args))) v, first_after b (args_items T several v args))
     (bytes (V w) c @ render b (args_items T several v args))"
  using assms
proof (induction args arbitrary: v b w)
  case Nil
  then show ?case by (simp add: yields_Next)
next
  case (Cons a as)
  have as: "\<forall>a \<in> set as. if isopt a then \<forall>ch \<in> set (tl a). valid_option ch else shows_tree f c a (T a)" using Cons.prems(2) by simp
  show ?case
  proof (cases "isopt a")
    case True
    then have "ls_options U (tl a) v w = Some (Next (fold with_option (tl a) v), w)" using Cons.prems(2) by (simp add: ls_options_ok)
    then show ?thesis using True Cons.IH [OF Cons.prems(1) as] by simp
  next
    case False
    then have "shows_tree f c a (T a)" using Cons.prems(2) by simp
    note y = listitem_yields [OF Cons.prems(1) this, of v several b]
    have "yields U V H f c F (andthen (listitem U v a several b w) (\<lambda>b1 w1. ls_args U several as v b1 w1))
        (fold with_option (concat (map tl (filter isopt (a # as)))) v, first_after b (args_items T several v (a # as)))
        (bytes (V w) c @ render b (args_items T several v (a # as)))"
    proof (rule yields_andthen [OF y])
      fix w1
      assume w1: "lsw U V H f c F w1" "bytes (V w1) c = bytes (V w) c @ render b (path_items v several a (T a))"
      show "yields U V H f c F (ls_args U several as v (first_after b (path_items v several a (T a))) w1)
          (fold with_option (concat (map tl (filter isopt (a # as)))) v, first_after b (args_items T several v (a # as)))
          (bytes (V w) c @ render b (args_items T several v (a # as)))"
        using Cons.IH [OF w1(1) as, of v "first_after b (path_items v several a (T a))"] w1(2) False by simp
    qed
    then show ?thesis using False by simp
  qed
qed

text \<open>
  C18. \<open>ls\<close> terminates with status 0 and prints exactly the listing of the reference definition: the arguments in order, each with the options given
  before it; files as one line, directories with their entries (hidden ones only with \<open>-a\<close>), and with \<open>-R\<close> all directories below, depth first,
  each under a header with its path; the current directory if no argument names a file. A line is the name, with \<open>-l\<close> after the letter of the file
  type, the links and the size. The option \<open>-s\<close> puts the block count in front whether \<open>-l\<close> is given or not, although the usage comment of
  \<^verbatim>\<open>ls.c\<close> (line 16) offers it only together with \<open>-l\<close>. The file system shows each argument as a finite tree.
\<close>

theorem ls_lists:
  assumes "lsw U V H (V w) c F w"
    and "\<forall>a \<in> set args. if isopt a then \<forall>ch \<in> set (tl a). valid_option ch else shows_tree (V w) c a (T a)"
    and "(\<forall>a \<in> set args. isopt a) \<longrightarrow> shows_tree (V w) c ''.'' (T ''.'')"
  shows "\<exists>w'. ls_main U args w = Some (Next 0, w') \<and> bytes (V w') c = bytes (V w) c @ render True (ls_items T args)"
proof -
  let ?files = "filter (\<lambda>a. \<not> isopt a) args" and ?o = "all_options args"
  let ?its = "args_items T (length ?files > 1) no_options args"
  note a = ls_args_yields [OF assms(1,2), of "length ?files > 1" no_options True, folded all_options_def]
  have "yields U V H (V w) c F (ls_main U args w) 0 (bytes (V w) c @ render True (ls_items T args))"
    unfolding ls_main_def Let_def
  proof (rule yields_andthen [OF a], rule yields_andthen)
    fix w1
    assume w1: "lsw U V H (V w) c F w1" "bytes (V w1) c = bytes (V w) c @ render True ?its"
    let ?r = "(?o, first_after True ?its)"
    show "yields U V H (V w) c F (if length ?files = 0 then listitem U (fst ?r) ''.'' False (snd ?r) w1 else Some (Next (snd ?r), w1))
        (first_after True (ls_items T args)) (bytes (V w) c @ render True (ls_items T args))"
    proof (cases "?files = []")
      case True
      then have "\<forall>a \<in> set args. isopt a" by (simp add: filter_empty_conv)
      with assms(3) have "shows_tree (V w) c ''.'' (T ''.'')" by blast
      from listitem_yields [OF w1(1) this, of ?o False "first_after True ?its"] show ?thesis
        using True w1(2) by (simp add: ls_items_def)
    next
      case False
      then show ?thesis using w1 by (simp add: ls_items_def yields_Next)
    qed
  qed (simp add: yields_Next)
  then show ?thesis by (auto simp: yields_def)
qed

text \<open>A current directory with a hidden file, a file \<open>a\<close> and a directory \<open>d\<close> that contains a file \<open>x\<close>.\<close>

definition reg_stat :: stat where
  "reg_stat = \<lparr>st_mode = S_IFREG, st_nlink = 1, st_size = 42, st_blocks = 1\<rparr>"

definition dir_stat :: stat where
  "dir_stat = \<lparr>st_mode = S_IFDIR, st_nlink = 2, st_size = 512, st_blocks = 1\<rparr>"

definition small_tree :: ftree where
  "small_tree = FT dir_stat [(''.h'', FT reg_stat []), (''a'', FT reg_stat []), (''d'', FT dir_stat [(''x'', FT reg_stat [])])]"

definition small_fs :: ramfs where
  "small_fs = \<lparr>rfs = \<lparr>fds = [0 \<mapsto> (0, 0), 1 \<mapsto> (1, 0), 2 \<mapsto> (2, 0)],
     slot = (\<lambda>p. if p = ''.'' then 0 else if p = ''./.h'' then 1 else if p = ''./a'' then 2 else if p = ''./d'' then 3 else if p = ''./d/x'' then 4 else 5),
     files = [0 \<mapsto> 10, 1 \<mapsto> 11, 2 \<mapsto> 12, 3 \<mapsto> 13, 4 \<mapsto> 14], creatable = (\<lambda>p. p \<noteq> []), bytes = (\<lambda>_. []),
     stats = (\<lambda>i. if i = 10 \<or> i = 13 then dir_stat else reg_stat),
     entries = (\<lambda>i. if i = 10 then [''.h'', ''a'', ''d''] else if i = 13 then [''x''] else [])\<rparr>,
     nextfd = 3, nextobj = 20, rerrno = 0\<rparr>"

lemma stat_examples: "S_ISDIR (st_mode dir_stat)" "\<not> S_ISDIR (st_mode reg_stat)"
  by (simp_all add: dir_stat_def reg_stat_def S_IS_defs S_IF_defs)

lemma small_fs_leaf:
  assumes "p \<in> {''./.h'', ''./a'', ''./d/x''}"
  shows "shows_tree (rfs small_fs) 1 p (FT reg_stat [])"
  by (rule shows_FT [of _ _ "11 + (if p = ''./a'' then 1 else if p = ''./d/x'' then 3 else 0)"])
    (use assms in \<open>auto simp: small_fs_def names_def stat_examples\<close>)

lemma small_fs_facts:
  "names (rfs small_fs) ''.'' = Some 10" "names (rfs small_fs) ''./.h'' = Some 11" "names (rfs small_fs) ''./a'' = Some 12"
  "names (rfs small_fs) ''./d'' = Some 13" "names (rfs small_fs) ''./d/x'' = Some 14"
  "stats (rfs small_fs) = (\<lambda>i. if i = 10 \<or> i = 13 then dir_stat else reg_stat)"
  "entries (rfs small_fs) 10 = [''.h'', ''a'', ''d'']" "entries (rfs small_fs) 13 = [''x'']"
  by (simp_all add: small_fs_def names_def)

lemma small_fs_shows: "shows_tree (rfs small_fs) 1 ''.'' small_tree"
proof -
  have l: "shows_tree (rfs small_fs) 1 ''./d/x'' (FT reg_stat [])" "shows_tree (rfs small_fs) 1 ''./a'' (FT reg_stat [])"
    "shows_tree (rfs small_fs) 1 ''./.h'' (FT reg_stat [])" by (rule small_fs_leaf; simp)+
  have d: "shows_tree (rfs small_fs) 1 ''./d'' (FT dir_stat [(''x'', FT reg_stat [])])"
    by (rule shows_FT [of _ _ 13]) (use l in \<open>auto simp: entry_ok_def child_def small_fs_facts\<close>)
  show ?thesis unfolding small_tree_def
    by (rule shows_FT [of _ _ 10]) (use l d in \<open>auto simp: entry_ok_def child_def small_fs_facts\<close>)
qed

theorem ls_lists_witness:
  "\<exists>w'. ls_main ram_unix [''-sR''] small_fs = Some (Next 0, w')
     \<and> bytes (rfs w') 1 = ''.:'' @ [CHR 0x0A] @ ''  1 a'' @ [CHR 0x0A] @ ''  1 d'' @ [CHR 0x0A, CHR 0x0A] @ ''./d:'' @ [CHR 0x0A]
         @ ''  1 x'' @ [CHR 0x0A]"
proof -
  have ok: "ramfs_ok small_fs" by (auto simp: ramfs_ok_def small_fs_def ran_def split: if_splits)
  have "lsw ram_unix rfs ramfs_ok (rfs small_fs) 1 (fds (rfs small_fs)) small_fs"
    by (simp add: lsw_def fs_laws_ram ok) (simp add: small_fs_def fileno_defs)
  from ls_lists [OF this, of "[''-sR'']" "\<lambda>_. small_tree"] small_fs_shows obtain w' where
    w': "ls_main ram_unix [''-sR''] small_fs = Some (Next 0, w')"
      "bytes (rfs w') 1 = bytes (rfs small_fs) 1 @ render True (ls_items (\<lambda>_. small_tree) [''-sR''])"
    by (auto simp: isopt_def valid_option_def)
  have one: "char_of (49 :: nat) = CHR ''1''" by (simp add: char_of_def bit_numeral_rec bit_0)
  have n: "right_justified 3 (sdec 1) = ''  1''" "st_blocks reg_stat = 1" "st_blocks dir_stat = 1"
    by (simp_all add: sdec_def dec.simps right_justified.simps reg_stat_def dir_stat_def one)
  have "ls_items (\<lambda>_. small_tree) [''-sR''] = [Header ''.'', Line ''  1 a'', Line ''  1 d'', Header ''./d'', Line ''  1 x'']"
    by (simp add: ls_items_def isopt_def all_options_def with_option_def no_options_def path_items_def small_tree_def hidden_def dots_def
        stat_examples child_def list_line_def n)
  with w' show ?thesis by (simp add: small_fs_def)
qed

end
