(* ===== verification/Disk_Layout.thy ===== *)
theory Disk_Layout
  imports OS_Prelude
begin

text \<open>
  Structures that are read from and written to disk as they lie in memory: the superblock, inode and directory
  entry of the SFS file system (\<^verbatim>\<open>kern/include/kern/sfs.h\<close>) and the file and program headers of executables
  (\<^verbatim>\<open>kern/include/elf.h\<close>). Each C struct is a record with the list of its members in the order of the declaration; its image is computed from that list
  by the layout rules of C on the big-endian machine, with padding where a member would not be aligned. The
  lemmas show that the structs have no padding, that the SFS structs fill disk blocks exactly, that an image determines its struct, and
  that the freemap of an SFS volume has a bit for every block.
\<close>

type_synonym u16 = "16 word"

section \<open>Bytes of machine words\<close>

definition be16 :: "u16 \<Rightarrow> byte list" where
  "be16 x = [ucast (drop_bit 8 x), ucast x]"

definition be32 :: "u32 \<Rightarrow> byte list" where
  "be32 x = [ucast (drop_bit 24 x), ucast (drop_bit 16 x), ucast (drop_bit 8 x), ucast x]"

lemma length_be [simp]: "length (be16 x) = 2" "length (be32 y) = 4"
  by (simp_all add: be16_def be32_def)

lemma be16_inject [simp]: "be16 x = be16 y \<longleftrightarrow> x = y"
proof
  assume e: "be16 x = be16 y"
  have "push_bit 8 (ucast (be16 z ! 0) :: u16) OR ucast (be16 z ! 1) = z" for z
    unfolding be16_def by (rule bit_word_eqI) (auto simp: bit_simps)
  from this [of x] this [of y] e show "x = y" by simp
qed simp

lemma be32_inject [simp]: "be32 x = be32 y \<longleftrightarrow> x = y"
proof
  assume e: "be32 x = be32 y"
  have "push_bit 24 (ucast (be32 z ! 0) :: u32) OR push_bit 16 (ucast (be32 z ! 1)) OR push_bit 8 (ucast (be32 z ! 2)) OR ucast (be32 z ! 3) = z"
    (is "?l = z") for z
  proof (rule bit_word_eqI)
    fix n
    show "bit ?l n = bit z n" if "n < LENGTH(32)"
      using that unfolding be32_def by (cases "n < 8"; cases "n < 16"; cases "n < 24") (auto simp: bit_simps)
  qed
  from this [of x] this [of y] e show "x = y" by simp
qed simp

lemma length_words [simp]: "length (concat (map be32 xs)) = 4 * length xs"
  by (induction xs) simp_all

lemma words_inject: "length xs = length ys \<Longrightarrow> concat (map be32 xs) = concat (map be32 ys) \<longleftrightarrow> xs = ys"
  by (induction xs ys rule: list_induct2) (simp_all add: append_eq_append_conv)

section \<open>The layout of a C struct\<close>

text \<open>The members of the structs here: 16 and 32-bit integers, and arrays of characters and of 32-bit integers.\<close>

datatype cmember = M16 u16 | M32 u32 | Chars "byte list" | Words "u32 list"

fun calign :: "cmember \<Rightarrow> nat" where
  "calign (M16 x) = 2"
| "calign (M32 x) = 4"
| "calign (Chars bs) = 1"
| "calign (Words xs) = 4"

fun cbytes :: "cmember \<Rightarrow> byte list" where
  "cbytes (M16 x) = be16 x"
| "cbytes (M32 x) = be32 x"
| "cbytes (Chars bs) = bs"
| "cbytes (Words xs) = concat (map be32 xs)"

text \<open>The distance to the next multiple of an alignment.\<close>

definition pad_to :: "nat \<Rightarrow> nat \<Rightarrow> nat" where
  "pad_to a off = (a - off mod a) mod a"

text \<open>
  Each member starts at the next multiple of its alignment, and the struct ends at a multiple of the largest alignment. The value of a
  byte of padding is not determined: \<open>None\<close>.
\<close>

fun place :: "nat \<Rightarrow> cmember list \<Rightarrow> byte option list" where
  "place off [] = []"
| "place off (m # ms) =
     (let p = pad_to (calign m) off
      in replicate p None @ map Some (cbytes m) @ place (off + p + length (cbytes m)) ms)"

definition struct_image :: "cmember list \<Rightarrow> byte option list" where
  "struct_image ms = (let b = place 0 ms in b @ replicate (pad_to (foldr max (map calign ms) 1) (length b)) None)"

text \<open>For instance, a short in front of a long costs two bytes, and so does one behind it.\<close>

lemma struct_image_pads:
  "struct_image [M16 x, M32 y] = map Some (be16 x) @ [None, None] @ map Some (be32 y)"
  "struct_image [M32 y, M16 x] = map Some (be32 y @ be16 x) @ [None, None]"
proof -
  have "replicate 2 (None :: byte option) = [None, None]" by (simp add: numeral_2_eq_2)
  then show "struct_image [M16 x, M32 y] = map Some (be16 x) @ [None, None] @ map Some (be32 y)"
    "struct_image [M32 y, M16 x] = map Some (be32 y @ be16 x) @ [None, None]"
    by (simp_all add: struct_image_def pad_to_def Let_def)
qed

text \<open>Members that all fall on multiples of their alignments follow each other without padding.\<close>

fun packed :: "nat \<Rightarrow> cmember list \<Rightarrow> bool" where
  "packed off [] \<longleftrightarrow> True"
| "packed off (m # ms) \<longleftrightarrow> off mod calign m = 0 \<and> packed (off + length (cbytes m)) ms"

lemma pad_to_multiple: "off mod a = 0 \<Longrightarrow> pad_to a off = 0"
  by (simp add: pad_to_def)

lemma place_packed: "packed off ms \<Longrightarrow> place off ms = map Some (concat (map cbytes ms))"
  by (induction ms arbitrary: off) (simp_all add: pad_to_multiple)

lemma struct_image_packed:
  assumes "packed 0 ms" and "length (concat (map cbytes ms)) mod foldr max (map calign ms) 1 = 0"
  shows "struct_image ms = map Some (concat (map cbytes ms))"
  using assms by (simp add: struct_image_def place_packed Let_def pad_to_multiple)

lemma map_Some_inject [simp]: "map Some xs = map Some ys \<longleftrightarrow> xs = ys"
  by (simp add: inj_map_eq_map)

section \<open>SFS (sfs.h)\<close>

definition SFS_MAGIC :: u32 where "SFS_MAGIC = 0xabadf001"
definition SFS_BLOCKSIZE :: nat where "SFS_BLOCKSIZE = 512"
definition SFS_VOLNAME_SIZE :: nat where "SFS_VOLNAME_SIZE = 32"
definition SFS_NDIRECT :: nat where "SFS_NDIRECT = 15"
definition SFS_DBPERIDB :: nat where "SFS_DBPERIDB = 128"
definition SFS_NAMELEN :: nat where "SFS_NAMELEN = 60"
definition SFS_SB_LOCATION :: nat where "SFS_SB_LOCATION = 0"
definition SFS_ROOT_LOCATION :: nat where "SFS_ROOT_LOCATION = 1"
definition SFS_MAP_LOCATION :: nat where "SFS_MAP_LOCATION = 2"
definition SFS_NOINO :: u32 where "SFS_NOINO = 0"

lemmas sfs_consts = SFS_BLOCKSIZE_def SFS_VOLNAME_SIZE_def SFS_NDIRECT_def SFS_DBPERIDB_def SFS_NAMELEN_def

text \<open>The macros compute with \<open>u_int32_t\<close> block counts; a byte has 8 bits.\<close>

definition SFS_BLOCKBITS :: u32 where "SFS_BLOCKBITS = of_nat (SFS_BLOCKSIZE * 8)"

definition SFS_ROUNDUP :: "u32 \<Rightarrow> u32 \<Rightarrow> u32" where
  "SFS_ROUNDUP a b = ((a + b - 1) div b) * b"

definition SFS_BITMAPSIZE :: "u32 \<Rightarrow> u32" where
  "SFS_BITMAPSIZE nblocks = SFS_ROUNDUP nblocks SFS_BLOCKBITS"

definition SFS_BITBLOCKS :: "u32 \<Rightarrow> u32" where
  "SFS_BITBLOCKS nblocks = SFS_BITMAPSIZE nblocks div SFS_BLOCKBITS"

record sfs_super =
  sp_magic :: u32
  sp_nblocks :: u32
  sp_volname :: "byte list"
  sp_reserved :: "u32 list"

record sfs_inode =
  sfi_size :: u32
  sfi_type :: u16
  sfi_linkcount :: u16
  sfi_direct :: "u32 list"
  sfi_indirect :: u32
  sfi_waste :: "u32 list"

record sfs_dir =
  sfd_ino :: u32
  sfd_name :: "byte list"

text \<open>The lengths of the arrays.\<close>

definition sfs_super_ok :: "sfs_super \<Rightarrow> bool" where
  "sfs_super_ok s \<longleftrightarrow> length (sp_volname s) = SFS_VOLNAME_SIZE \<and> length (sp_reserved s) = 118"

definition sfs_inode_ok :: "sfs_inode \<Rightarrow> bool" where
  "sfs_inode_ok i \<longleftrightarrow> length (sfi_direct i) = SFS_NDIRECT \<and> length (sfi_waste i) = 128 - 3 - SFS_NDIRECT"

definition sfs_dir_ok :: "sfs_dir \<Rightarrow> bool" where
  "sfs_dir_ok d \<longleftrightarrow> length (sfd_name d) = SFS_NAMELEN"

definition sfs_super_image :: "sfs_super \<Rightarrow> byte option list" where
  "sfs_super_image s = struct_image [M32 (sp_magic s), M32 (sp_nblocks s), Chars (sp_volname s), Words (sp_reserved s)]"

definition sfs_inode_image :: "sfs_inode \<Rightarrow> byte option list" where
  "sfs_inode_image i = struct_image [M32 (sfi_size i), M16 (sfi_type i), M16 (sfi_linkcount i), Words (sfi_direct i),
     M32 (sfi_indirect i), Words (sfi_waste i)]"

definition sfs_dir_image :: "sfs_dir \<Rightarrow> byte option list" where
  "sfs_dir_image d = struct_image [M32 (sfd_ino d), Chars (sfd_name d)]"

lemma sfs_super_bytes:
  assumes "sfs_super_ok s"
  shows "sfs_super_image s = map Some (be32 (sp_magic s) @ be32 (sp_nblocks s) @ sp_volname s @ concat (map be32 (sp_reserved s)))"
  using assms unfolding sfs_super_image_def by (subst struct_image_packed) (simp_all add: sfs_super_ok_def sfs_consts)

lemma sfs_inode_bytes:
  assumes "sfs_inode_ok i"
  shows "sfs_inode_image i = map Some (be32 (sfi_size i) @ be16 (sfi_type i) @ be16 (sfi_linkcount i) @ concat (map be32 (sfi_direct i))
     @ be32 (sfi_indirect i) @ concat (map be32 (sfi_waste i)))"
  using assms unfolding sfs_inode_image_def by (subst struct_image_packed) (simp_all add: sfs_inode_ok_def sfs_consts)

lemma sfs_dir_bytes:
  assumes "sfs_dir_ok d"
  shows "sfs_dir_image d = map Some (be32 (sfd_ino d) @ sfd_name d)"
  using assms unfolding sfs_dir_image_def by (subst struct_image_packed) (simp_all add: sfs_dir_ok_def sfs_consts)

lemma sfs_super_inject:
  assumes "sfs_super_ok s" and "sfs_super_ok s'" and "sfs_super_image s' = sfs_super_image s"
  shows "s' = s"
  using assms(3) assms(1,2)
  unfolding sfs_super_bytes [OF assms(1)] sfs_super_bytes [OF assms(2)] map_Some_inject
  by (intro sfs_super.equality) (simp_all add: sfs_super_ok_def append_eq_append_conv words_inject)

lemma sfs_inode_inject:
  assumes "sfs_inode_ok i" and "sfs_inode_ok i'" and "sfs_inode_image i' = sfs_inode_image i"
  shows "i' = i"
  using assms(3) assms(1,2)
  unfolding sfs_inode_bytes [OF assms(1)] sfs_inode_bytes [OF assms(2)] map_Some_inject
  by (intro sfs_inode.equality) (simp_all add: sfs_inode_ok_def append_eq_append_conv words_inject)

lemma sfs_dir_inject:
  assumes "sfs_dir_ok d" and "sfs_dir_ok d'" and "sfs_dir_image d' = sfs_dir_image d"
  shows "d' = d"
  using assms(3) unfolding sfs_dir_bytes [OF assms(1)] sfs_dir_bytes [OF assms(2)] map_Some_inject
  by (intro sfs_dir.equality) simp_all

text \<open>
  C34. The structures of an SFS volume have, by the layout rules of C, the bytes of the on-disk format: the members one after the other in big-endian
  order and no padding. So a superblock and an inode fill one disk block exactly, a whole number of directory entries fills a block, an indirect block holds the
  stated number of block numbers, and two structures with the same bytes on disk are equal.
\<close>

theorem sfs_structures_fit:
  assumes "sfs_super_ok s" and "sfs_inode_ok i" and "sfs_dir_ok d"
  shows "sfs_super_image s = map Some (be32 (sp_magic s) @ be32 (sp_nblocks s) @ sp_volname s @ concat (map be32 (sp_reserved s)))
    \<and> sfs_inode_image i = map Some (be32 (sfi_size i) @ be16 (sfi_type i) @ be16 (sfi_linkcount i) @ concat (map be32 (sfi_direct i))
        @ be32 (sfi_indirect i) @ concat (map be32 (sfi_waste i)))
    \<and> sfs_dir_image d = map Some (be32 (sfd_ino d) @ sfd_name d)
    \<and> length (sfs_super_image s) = SFS_BLOCKSIZE \<and> length (sfs_inode_image i) = SFS_BLOCKSIZE
    \<and> SFS_BLOCKSIZE mod length (sfs_dir_image d) = 0 \<and> SFS_DBPERIDB * length (be32 (sfi_indirect i)) = SFS_BLOCKSIZE
    \<and> (\<forall>s'. sfs_super_ok s' \<and> sfs_super_image s' = sfs_super_image s \<longrightarrow> s' = s)
    \<and> (\<forall>i'. sfs_inode_ok i' \<and> sfs_inode_image i' = sfs_inode_image i \<longrightarrow> i' = i)
    \<and> (\<forall>d'. sfs_dir_ok d' \<and> sfs_dir_image d' = sfs_dir_image d \<longrightarrow> d' = d)"
proof (intro conjI)
  show "length (sfs_super_image s) = SFS_BLOCKSIZE" "length (sfs_inode_image i) = SFS_BLOCKSIZE"
    "SFS_BLOCKSIZE mod length (sfs_dir_image d) = 0" "SFS_DBPERIDB * length (be32 (sfi_indirect i)) = SFS_BLOCKSIZE"
    unfolding sfs_super_bytes [OF assms(1)] sfs_inode_bytes [OF assms(2)] sfs_dir_bytes [OF assms(3)] using assms
    by (simp_all add: sfs_super_ok_def sfs_inode_ok_def sfs_dir_ok_def sfs_consts)
qed (use assms sfs_super_inject sfs_inode_inject sfs_dir_inject in \<open>blast intro: sfs_super_bytes sfs_inode_bytes sfs_dir_bytes\<close>)+

theorem sfs_structures_fit_witness:
  "sfs_dir_image \<lparr>sfd_ino = 7, sfd_name = replicate 60 0x61\<rparr> = map Some ([0, 0, 0, 7] @ replicate 60 0x61)
   \<and> length (sfs_inode_image \<lparr>sfi_size = 1, sfi_type = 2, sfi_linkcount = 3, sfi_direct = replicate 15 0, sfi_indirect = 0,
       sfi_waste = replicate 110 0\<rparr>) = SFS_BLOCKSIZE"
proof -
  have ok: "sfs_super_ok \<lparr>sp_magic = SFS_MAGIC, sp_nblocks = 9, sp_volname = replicate 32 0, sp_reserved = replicate 118 0\<rparr>"
    "sfs_inode_ok \<lparr>sfi_size = 1, sfi_type = 2, sfi_linkcount = 3, sfi_direct = replicate 15 0, sfi_indirect = 0, sfi_waste = replicate 110 0\<rparr>"
    "sfs_dir_ok \<lparr>sfd_ino = 7, sfd_name = replicate 60 0x61\<rparr>"
    by (simp_all add: sfs_super_ok_def sfs_inode_ok_def sfs_dir_ok_def sfs_consts)
  have "be32 7 = [0, 0, 0, 7]" by (simp add: be32_def)
  then have b: "map Some (be32 (sfd_ino \<lparr>sfd_ino = 7, sfd_name = replicate 60 0x61\<rparr>) @ sfd_name \<lparr>sfd_ino = 7, sfd_name = replicate 60 0x61\<rparr>)
      = map Some ([0, 0, 0, 7] @ replicate 60 0x61)" by simp
  show ?thesis using sfs_structures_fit [OF ok] unfolding b by (elim conjE) (intro conjI)
qed

text \<open>
  The freemap is large enough and not larger than necessary: it has a bit for every block of the volume, and less than a block's worth of bits
  too many; the two macros agree. This needs a volume small enough that rounding does not wrap around.
\<close>

theorem sfs_freemap_covers:
  assumes "unat nblocks + 4095 < 2 ^ 32"
  shows "unat nblocks \<le> unat (SFS_BITMAPSIZE nblocks) \<and> unat (SFS_BITMAPSIZE nblocks) < unat nblocks + 4096
     \<and> unat (SFS_BITBLOCKS nblocks) * 4096 = unat (SFS_BITMAPSIZE nblocks)"
proof -
  let ?n = "unat nblocks"
  have b: "SFS_BLOCKBITS = 4096" "unat SFS_BLOCKBITS = 4096" by (simp_all add: SFS_BLOCKBITS_def SFS_BLOCKSIZE_def)
  have "nblocks + SFS_BLOCKBITS - 1 = nblocks + 4095" by (simp add: b(1))
  moreover have s: "unat (nblocks + 4095) = ?n + 4095" using assms by (simp add: unat_add_no_wrap)
  ultimately have q: "unat ((nblocks + SFS_BLOCKBITS - 1) div SFS_BLOCKBITS) = (?n + 4095) div 4096" by (simp only: unat_div b(2))
  have "(?n + 4095) div 4096 * 4096 \<le> ?n + 4095" by simp
  then have m: "unat (SFS_BITMAPSIZE nblocks) = (?n + 4095) div 4096 * 4096"
    unfolding SFS_BITMAPSIZE_def SFS_ROUNDUP_def using assms by (subst unat_mult_no_wrap) (simp_all only: q b(2) order.strict_trans1)
  have "(?n + 4095) div 4096 * 4096 + (?n + 4095) mod 4096 = ?n + 4095" "(?n + 4095) mod 4096 < 4096" by simp_all
  then have "?n \<le> (?n + 4095) div 4096 * 4096" "(?n + 4095) div 4096 * 4096 < ?n + 4096" by linarith+
  moreover have "unat (SFS_BITBLOCKS nblocks) = (?n + 4095) div 4096" by (simp add: SFS_BITBLOCKS_def unat_div m b(2))
  ultimately show ?thesis using m by simp
qed

theorem sfs_freemap_covers_witness:
  "unat (SFS_BITMAPSIZE 5000) < 5000 + 4096 \<and> unat (SFS_BITBLOCKS 5000) * 4096 = unat (SFS_BITMAPSIZE 5000)"
  using sfs_freemap_covers [of 5000] by simp

text \<open>Without that bound the macros give a freemap of no blocks.\<close>

lemma sfs_freemap_wraps: "SFS_BITBLOCKS (- 1) = 0"
  by (simp add: SFS_BITBLOCKS_def SFS_BITMAPSIZE_def SFS_ROUNDUP_def SFS_BLOCKBITS_def SFS_BLOCKSIZE_def word_arith_nat_div)

text \<open>
  \<open>SFSUIO\<close> of \<^verbatim>\<open>include/sfs.h\<close> sets up the transfer of one block; \<open>mk_kuio\<close>, which is not in the repository, is a parameter. The offset is a
  signed 32-bit number: it is exact below 2 gigabytes, and negative for the first block beyond.
\<close>

definition SFSUIO_offset :: "u32 \<Rightarrow> s32" where
  "SFSUIO_offset block = block * of_nat SFS_BLOCKSIZE"

definition SFSUIO :: "(ptr \<Rightarrow> ptr \<Rightarrow> u32 \<Rightarrow> s32 \<Rightarrow> s32 \<Rightarrow> 's \<Rightarrow> 's) \<Rightarrow> ptr \<Rightarrow> ptr \<Rightarrow> u32 \<Rightarrow> s32 \<Rightarrow> 's \<Rightarrow> 's" where
  "SFSUIO mk_kuio uio p block rw = mk_kuio uio p (of_nat SFS_BLOCKSIZE) (SFSUIO_offset block) rw"

theorem sfs_block_offsets:
  assumes "unat block < 2 ^ 22"
  shows "sint (SFSUIO_offset block) = int (unat block) * 512"
proof -
  have b: "unat (SFSUIO_offset block) = unat block * 512"
    using assms by (simp add: SFSUIO_offset_def SFS_BLOCKSIZE_def unat_word_ariths)
  then have "uint (SFSUIO_offset block) = int (unat block) * 512" by (metis of_nat_mult of_nat_numeral uint_nat)
  moreover have "int (unat block) < int (2 ^ 22)" using assms by (simp only: of_nat_less_iff)
  then have "uint block * 512 < 2147483648" "- 2147483648 \<le> uint block * 512" using uint_ge_0 [of block] by (simp, linarith)
  then have "signed_take_bit 31 (uint block * 512) = uint block * 512"
    by (intro signed_take_bit_int_eq_self) simp_all
  ultimately show ?thesis by (simp add: sint_uint)
qed

theorem sfs_block_offsets_witness: "sint (SFSUIO_offset 0x3fffff) = 0x3fffff * 512"
  using sfs_block_offsets [of "0x3fffff"] by simp

lemma sfs_block_offset_wraps: "sint (SFSUIO_offset 0x400000) = - (2 ^ 31)"
  by (simp add: SFSUIO_offset_def SFS_BLOCKSIZE_def)

section \<open>Executables (elf.h)\<close>

definition ELF_NIDENT :: nat where "ELF_NIDENT = 16"

record Elf32_Ehdr =
  e_ident :: "byte list"
  e_type :: u16
  e_machine :: u16
  e_version :: u32
  e_entry :: u32
  e_phoff :: u32
  e_shoff :: u32
  e_flags :: u32
  e_ehsize :: u16
  e_phentsize :: u16
  e_phnum :: u16
  e_shentsize :: u16
  e_shnum :: u16
  e_shstrndx :: u16

record Elf32_Phdr =
  p_type :: u32
  p_offset :: u32
  p_vaddr :: u32
  p_paddr :: u32
  p_filesz :: u32
  p_memsz :: u32
  p_flags :: u32
  p_align :: u32

definition ehdr_image :: "Elf32_Ehdr \<Rightarrow> byte option list" where
  "ehdr_image e = struct_image [Chars (e_ident e), M16 (e_type e), M16 (e_machine e), M32 (e_version e), M32 (e_entry e), M32 (e_phoff e),
     M32 (e_shoff e), M32 (e_flags e), M16 (e_ehsize e), M16 (e_phentsize e), M16 (e_phnum e), M16 (e_shentsize e), M16 (e_shnum e),
     M16 (e_shstrndx e)]"

definition phdr_image :: "Elf32_Phdr \<Rightarrow> byte option list" where
  "phdr_image p = struct_image [M32 (p_type p), M32 (p_offset p), M32 (p_vaddr p), M32 (p_paddr p), M32 (p_filesz p), M32 (p_memsz p),
     M32 (p_flags p), M32 (p_align p)]"

text \<open>The headers have the sizes of the ELF format, 52 and 32 bytes, and no padding.\<close>

lemma elf_headers_bytes:
  assumes "length (e_ident e) = ELF_NIDENT"
  shows "ehdr_image e = map Some (e_ident e @ be16 (e_type e) @ be16 (e_machine e) @ be32 (e_version e) @ be32 (e_entry e)
      @ be32 (e_phoff e) @ be32 (e_shoff e) @ be32 (e_flags e) @ be16 (e_ehsize e) @ be16 (e_phentsize e) @ be16 (e_phnum e)
      @ be16 (e_shentsize e) @ be16 (e_shnum e) @ be16 (e_shstrndx e))"
    "phdr_image p = map Some (be32 (p_type p) @ be32 (p_offset p) @ be32 (p_vaddr p) @ be32 (p_paddr p) @ be32 (p_filesz p)
      @ be32 (p_memsz p) @ be32 (p_flags p) @ be32 (p_align p))"
  using assms unfolding ehdr_image_def phdr_image_def
  by (subst struct_image_packed; simp add: ELF_NIDENT_def)+

lemma elf_headers_fit:
  assumes "length (e_ident e) = ELF_NIDENT"
  shows "length (ehdr_image e) = 52" "length (phdr_image p) = 32"
  unfolding elf_headers_bytes [OF assms] using assms by (simp_all add: ELF_NIDENT_def)

end
