(* ===== verification/Stoplight_Console.thy ===== *)
theory Stoplight_Console
  imports Stoplight Ls
begin

text \<open>
  What the vehicles of \<^verbatim>\<open>kern/asst1/stoplight.c\<close> print, and which of them get through. The step relation of \<open>Stoplight\<close>
  is extended by the announcement with which \<open>approachintersection\<close> begins and by the console; a call of \<open>kprintf\<close> prints its text in one
  piece. The lemmas show that the console alone tells who is where (though not who turns where): each vehicle prints its script, and nobody enters a
  segment before the previous vehicle has announced leaving it. The last section shows that the circular wait of \<open>Stoplight\<close> is the
  only way for trucks to block each other.
\<close>

section \<open>Messages\<close>

definition vehicles :: "string list" where "vehicles = [''Car'', ''Truck'']"
definition routes :: "string list" where "routes = [''A'', ''B'', ''C'']"

definition message_approach :: "string \<Rightarrow> s32 \<Rightarrow> string \<Rightarrow> string \<Rightarrow> string" where
  "message_approach vtype vnumber route turn_direction =
     vtype @ '' '' @ sdec vnumber @ '' from route '' @ route @ '' approaching intersection, turning '' @ turn_direction @ ''.'' @ [CHR 0x0A]"

definition message_enter :: "string \<Rightarrow> s32 \<Rightarrow> string \<Rightarrow> string \<Rightarrow> string" where
  "message_enter vtype vnumber route intersection =
     vtype @ '' '' @ sdec vnumber @ '' from route '' @ route @ '' entering intersection '' @ intersection @ ''.'' @ [CHR 0x0A]"

definition message_leave :: "string \<Rightarrow> s32 \<Rightarrow> string \<Rightarrow> string \<Rightarrow> string" where
  "message_leave vtype vnumber route intersection =
     vtype @ '' '' @ sdec vnumber @ '' from route '' @ route @ '' left intersection '' @ intersection @ ''.'' @ [CHR 0x0A]"

definition intersection :: "string list" where "intersection = [''AB'', ''BC'', ''CA'']"

text \<open>
  The random numbers of the vehicles, and the three calls as vehicle \<open>v\<close> makes them. \<open>beyond\<close> is the text that a read past
  the end of \<open>directions\<close> finds.
\<close>

type_synonym choices = "nat \<Rightarrow> nat \<times> nat \<times> nat"

definition vehicledirection :: "choices \<Rightarrow> nat \<Rightarrow> nat" where "vehicledirection ch v = fst (ch v) mod 3"
definition turndirection :: "choices \<Rightarrow> nat \<Rightarrow> nat" where "turndirection ch v = fst (snd (ch v)) mod 2"
definition vehicletype :: "choices \<Rightarrow> nat \<Rightarrow> nat" where "vehicletype ch v = snd (snd (ch v)) mod 2"

definition announced_turn :: "string \<Rightarrow> choices \<Rightarrow> nat \<Rightarrow> string" where
  "announced_turn beyond ch v =
     (case fst (approachintersection (fst (ch v)) (fst (snd (ch v))) (snd (snd (ch v)))) of Some w \<Rightarrow> w | None \<Rightarrow> beyond)"

definition approach_line :: "string \<Rightarrow> choices \<Rightarrow> nat \<Rightarrow> string" where
  "approach_line beyond ch v = message_approach (vehicles ! vehicletype ch v) (of_nat v) (routes ! vehicledirection ch v) (announced_turn beyond ch v)"

definition enter_line :: "choices \<Rightarrow> nat \<Rightarrow> nat \<Rightarrow> string" where
  "enter_line ch v x = message_enter (vehicles ! vehicletype ch v) (of_nat v) (routes ! vehicledirection ch v) (intersection ! x)"

definition leave_line :: "choices \<Rightarrow> nat \<Rightarrow> nat \<Rightarrow> string" where
  "leave_line ch v x = message_leave (vehicles ! vehicletype ch v) (of_nat v) (routes ! vehicledirection ch v) (intersection ! x)"

text \<open>What an instruction prints.\<close>

fun says :: "choices \<Rightarrow> nat \<Rightarrow> vinstr \<Rightarrow> string list" where
  "says ch v (Enter x) = [enter_line ch v x]"
| "says ch v (Leave x) = [leave_line ch v x]"
| "says ch v _ = []"

section \<open>The street\<close>

record street =
  junc :: junction
  announced :: "nat set"    \<comment> \<open>vehicles that have printed their approach\<close>
  printed :: "string list"  \<comment> \<open>the console, one element for each call of \<open>kprintf\<close>\<close>

text \<open>One step of one of the vehicles that \<open>createvehicles\<close> started: its announcement, then its turn.\<close>

definition street_step :: "string \<Rightarrow> choices \<Rightarrow> nat \<Rightarrow> street \<Rightarrow> street option" where
  "street_step beyond ch v s =
     (if \<not> v < NVEHICLES then None
      else if v \<notin> announced s then Some (s\<lparr>announced := insert v (announced s), printed := printed s @ [approach_line beyond ch v]\<rparr>)
      else (case vstep v (junc s) of None \<Rightarrow> None
            | Some j \<Rightarrow> Some (s\<lparr>junc := j, printed := printed s @ says ch v (hd (code (junc s) v))\<rparr>)))"

definition street_start :: "choices \<Rightarrow> street" where
  "street_start ch = \<lparr>junc = start ch, announced = {}, printed = []\<rparr>"

inductive drives :: "string \<Rightarrow> choices \<Rightarrow> street \<Rightarrow> bool" for beyond ch where
  drives_start: "drives beyond ch (street_start ch)"
| drives_step: "drives beyond ch s \<Longrightarrow> street_step beyond ch v s = Some t \<Longrightarrow> drives beyond ch t"

inductive_cases street_startE: "drives beyond ch s"

lemma street_stepE:
  assumes "street_step beyond ch v s = Some t"
  obtains (approach) "v < NVEHICLES" "v \<notin> announced s"
      "t = s\<lparr>announced := insert v (announced s), printed := printed s @ [approach_line beyond ch v]\<rparr>"
  | (drive) j where "v < NVEHICLES" "v \<in> announced s" "vstep v (junc s) = Some j"
      "t = s\<lparr>junc := j, printed := printed s @ says ch v (hd (code (junc s) v))\<rparr>"
  using assms by (auto simp: street_step_def split: if_splits option.splits)

lemma drives_reaches: "drives beyond ch s \<Longrightarrow> reaches (start ch) (junc s)"
proof (induction rule: drives.induct)
  case drives_start
  show ?case by (simp add: street_start_def reaches_refl)
next
  case (drives_step s v t)
  from drives_step(2) show ?case
    by (cases rule: street_stepE) (use drives_step.IH in \<open>auto intro: reaches_step\<close>)
qed

section \<open>Reading the console\<close>

text \<open>Decimal numbers can be read back.\<close>

definition undec :: "string \<Rightarrow> nat" where
  "undec = foldl (\<lambda>a c. 10 * a + (of_char c - 48)) 0"

lemma undec_dec: "undec (dec n) = n"
proof (induction n rule: dec.induct)
  case (1 n)
  have "of_char (char_of (48 + n mod 10) :: char) = (48 + n mod 10 :: nat)"
    by (simp add: of_char_of)
  then show ?case using 1 by (subst dec.simps) (auto simp: undec_def of_char_of)
qed

lemma dec_digits: "c \<in> set (dec n) \<Longrightarrow> c \<noteq> CHR '' ''"
proof (induction n rule: dec.induct)
  case (1 n)
  have d: "char_of (48 + k) \<noteq> CHR '' ''" if "k < 10" for k :: nat
  proof
    assume "char_of (48 + k) = CHR '' ''"
    then have "(of_char (char_of (48 + k) :: char) :: nat) = of_char (CHR '' '')" by simp
    with that show False by (simp add: of_char_of)
  qed
  have "c = char_of (48 + n mod 10) \<or> (\<not> n < 10 \<and> c \<in> set (dec (n div 10)))"
    using "1.prems" by (subst (asm) dec.simps) (auto split: if_splits)
  then show ?case using "1.IH" d [of "n mod 10"] by (elim disjE) simp_all
qed

lemma sdec_number: "v < NVEHICLES \<Longrightarrow> sdec (of_nat v) = dec v"
proof -
  assume "v < NVEHICLES"
  then have "sint (of_nat v :: s32) = int v"
    by (simp add: NVEHICLES_def signed_of_nat signed_take_bit_int_eq_self)
  then show ?thesis by (simp add: sdec_def)
qed

text \<open>So the number of the vehicle can be read off every line, and lines of one vehicle differ by what they say.\<close>

definition number_in :: "string \<Rightarrow> nat" where
  "number_in l = undec (takeWhile (\<lambda>c. c \<noteq> CHR '' '') (tl (dropWhile (\<lambda>c. c \<noteq> CHR '' '') l)))"

lemma vehicle_words: "c \<in> set (vehicles ! vehicletype ch v) \<Longrightarrow> c \<noteq> CHR '' ''"
proof -
  have "vehicletype ch v = 0 \<or> vehicletype ch v = 1" by (auto simp: vehicletype_def)
  then show "c \<in> set (vehicles ! vehicletype ch v) \<Longrightarrow> c \<noteq> CHR '' ''" by (auto simp: vehicles_def)
qed

lemma number_in_line:
  assumes "v < NVEHICLES"
  shows "number_in (vehicles ! vehicletype ch v @ '' '' @ sdec (of_nat v) @ '' from route '' @ r) = v"
  using vehicle_words [of _ ch v] dec_digits [of _ v]
  by (simp add: number_in_def sdec_number [OF assms] dropWhile_append2 takeWhile_append2 undec_dec)

lemma line_numbers:
  assumes "v < NVEHICLES"
  shows "number_in (approach_line beyond ch v) = v" "number_in (enter_line ch v x) = v" "number_in (leave_line ch v x) = v"
  using number_in_line [OF assms]
  by (simp_all add: approach_line_def enter_line_def leave_line_def message_approach_def message_enter_def message_leave_def)

lemma line_kinds:
  "approach_line beyond ch v \<noteq> enter_line ch v x" "approach_line beyond ch v \<noteq> leave_line ch v x" "enter_line ch v x \<noteq> leave_line ch v y"
  by (simp_all add: approach_line_def enter_line_def leave_line_def message_approach_def message_enter_def message_leave_def)

lemma line_segments:
  assumes "x < 3" and "y < 3"
  shows "enter_line ch v x = enter_line ch v y \<longleftrightarrow> x = y" "leave_line ch v x = leave_line ch v y \<longleftrightarrow> x = y"
proof -
  have "x \<in> {0, 1, 2}" "y \<in> {0, 1, 2}" using assms by auto
  then show "enter_line ch v x = enter_line ch v y \<longleftrightarrow> x = y" "leave_line ch v x = leave_line ch v y \<longleftrightarrow> x = y"
    by (auto simp: enter_line_def leave_line_def message_enter_def message_leave_def intersection_def)
qed

lemmas line_eqs = line_kinds line_kinds [symmetric] line_segments

lemma says_number: "l \<in> set (says ch v i) \<Longrightarrow> v < NVEHICLES \<Longrightarrow> number_in l = v"
  by (cases i) (auto simp: line_numbers)

lemma says_short: "length (says ch v i) \<le> 1"
  by (cases i) simp_all

section \<open>The script of a vehicle\<close>

text \<open>The segments that a turn crosses, and what the vehicle should print: its approach, then entering and leaving each of them.\<close>

definition crossed :: "choices \<Rightarrow> nat \<Rightarrow> nat list" where
  "crossed ch v = (let r = vehicledirection ch v in if turndirection ch v = 0 then [r, (r + 1) mod 3] else [r])"

definition script :: "string \<Rightarrow> choices \<Rightarrow> nat \<Rightarrow> string list" where
  "script beyond ch v = approach_line beyond ch v # concat (map (\<lambda>x. [enter_line ch v x, leave_line ch v x]) (crossed ch v))"

definition words_of :: "choices \<Rightarrow> nat \<Rightarrow> vinstr list \<Rightarrow> string list" where
  "words_of ch v p = concat (map (says ch v) p)"

lemma words_of_simps [simp]: "words_of ch v [] = []" "words_of ch v (i # p) = says ch v i @ words_of ch v p"
  by (simp_all add: words_of_def)

text \<open>No test skips a message, and only the three segments are spoken of.\<close>

fun well_spoken :: "vinstr list \<Rightarrow> bool" where
  "well_spoken [] = True"
| "well_spoken (UnlessPos r # p) = (p \<noteq> [] \<and> (\<forall>ch v. says ch v (hd p) = []) \<and> well_spoken p)"
| "well_spoken (UnlessZero r # p) = (p \<noteq> [] \<and> (\<forall>ch v. says ch v (hd p) = []) \<and> well_spoken p)"
| "well_spoken (Enter x # p) = (x < 3 \<and> well_spoken p)"
| "well_spoken (Leave x # p) = (x < 3 \<and> well_spoken p)"
| "well_spoken (i # p) = well_spoken p"

lemma well_spoken_tl: "well_spoken (i # p) \<Longrightarrow> well_spoken p"
  by (cases i) auto

lemma code_start:
  "code (start ch) v = (if turndirection ch v = 0 then turnleft (vehicledirection ch v) (vehicletype ch v)
     else turnright (vehicledirection ch v) (vehicletype ch v))"
  by (cases "ch v") (auto simp: start_def approachintersection_def Let_def vehicledirection_def turndirection_def vehicletype_def)

lemma choice_cases:
  obtains "vehicledirection ch v = 0" | "vehicledirection ch v = 1" | "vehicledirection ch v = 2"
proof -
  have "vehicledirection ch v < 3" by (simp add: vehicledirection_def)
  then show thesis using that by linarith
qed

lemma start_spoken: "well_spoken (code (start ch) v)"
  unfolding code_start by (cases rule: choice_cases [of ch v]) (simp_all add: turnleft_def turnright_def)

lemma start_script: "approach_line beyond ch v # words_of ch v (code (start ch) v) = script beyond ch v"
  unfolding code_start script_def crossed_def
  by (cases rule: choice_cases [of ch v]) (simp_all add: turnleft_def turnright_def Let_def numeral_2_eq_2)

lemma vstep_says:
  assumes "vstep v j = Some k" and "well_spoken (code j v)"
  shows "words_of ch v (code j v) = says ch v (hd (code j v)) @ words_of ch v (code k v)" "well_spoken (code k v)"
proof -
  obtain i p where c: "code j v = i # p" using assms(1) by (cases "code j v") (auto simp: vstep_def)
  have skip: "words_of ch v (tl p) = words_of ch v p \<and> well_spoken (tl p)"
    if "p \<noteq> []" "\<forall>ch v. says ch v (hd p) = []" "well_spoken p"
    using that well_spoken_tl by (cases p) auto
  have "words_of ch v (code k v) = words_of ch v p \<and> well_spoken (code k v)"
  proof (cases i)
    case (UnlessPos r)
    then show ?thesis using assms c skip by (auto simp: vstep_def split: if_splits)
  next
    case (UnlessZero r)
    then show ?thesis using assms c skip by (auto simp: vstep_def split: if_splits)
  qed (use assms c in \<open>auto simp: vstep_def split: if_splits\<close>)
  with c show "words_of ch v (code j v) = says ch v (hd (code j v)) @ words_of ch v (code k v)" "well_spoken (code k v)"
    by simp_all
qed

text \<open>What vehicle \<open>v\<close> has printed, and what it still has to print.\<close>

definition spoken :: "street \<Rightarrow> nat \<Rightarrow> string list" where
  "spoken s v = filter (\<lambda>l. number_in l = v) (printed s)"

definition pending :: "string \<Rightarrow> choices \<Rightarrow> street \<Rightarrow> nat \<Rightarrow> string list" where
  "pending beyond ch s v = (if v \<in> announced s then [] else [approach_line beyond ch v]) @ words_of ch v (code (junc s) v)"

definition on_script :: "string \<Rightarrow> choices \<Rightarrow> street \<Rightarrow> bool" where
  "on_script beyond ch s \<longleftrightarrow>
     (\<forall>v < NVEHICLES. spoken s v @ pending beyond ch s v = script beyond ch v \<and> well_spoken (code (junc s) v))"

lemma spoken_append:
  assumes "printed t = printed s @ ls" and "\<forall>l \<in> set ls. number_in l = w"
  shows "spoken t v = spoken s v @ (if v = w then ls else [])"
  using assms by (auto simp: spoken_def filter_empty_conv)

lemma drives_on_script: "drives beyond ch s \<Longrightarrow> on_script beyond ch s"
proof (induction rule: drives.induct)
  case drives_start
  show ?case using start_script start_spoken by (simp add: on_script_def street_start_def spoken_def pending_def)
next
  case (drives_step s w t)
  note ok = drives_step.IH [unfolded on_script_def, rule_format]
  from drives_step(2) show ?case
  proof (cases rule: street_stepE)
    case approach
    then have sp: "spoken t v = spoken s v @ (if v = w then [approach_line beyond ch w] else [])" for v
      by (intro spoken_append) (auto simp: line_numbers)
    have "spoken t v @ pending beyond ch t v = script beyond ch v \<and> well_spoken (code (junc t) v)" if "v < NVEHICLES" for v
      using approach ok [OF that] sp [of v] by (cases "v = w") (auto simp: pending_def)
    then show ?thesis by (simp add: on_script_def)
  next
    case (drive j)
    have sp: "spoken t v = spoken s v @ (if v = w then says ch w (hd (code (junc s) w)) else [])" for v
      using drive says_number by (intro spoken_append) auto
    have "spoken t v @ pending beyond ch t v = script beyond ch v \<and> well_spoken (code (junc t) v)" if "v < NVEHICLES" for v
      using drive ok [OF that] sp [of v] vstep_says [OF drive(3)] vstep_others(3) [OF drive(3)]
      by (cases "v = w") (auto simp: pending_def)
    then show ?thesis by (simp add: on_script_def)
  qed
qed

lemma script_numbers: "v < NVEHICLES \<Longrightarrow> l \<in> set (script beyond ch v) \<Longrightarrow> number_in l = v"
  by (auto simp: script_def line_numbers)

lemma spoken_script:
  assumes "drives beyond ch s" and "v < NVEHICLES"
  shows "filter (\<lambda>l. l \<in> set (script beyond ch v)) (printed s) = spoken s v"
proof -
  have "set (spoken s v) \<subseteq> set (script beyond ch v)"
    using drives_on_script [OF assms(1)] assms(2) unfolding on_script_def by (metis Un_upper1 set_append)
  then show ?thesis unfolding spoken_def
    by (intro filter_cong refl iffI script_numbers [OF assms(2)]) (auto simp: spoken_def)
qed

lemma spoken_prefix:
  assumes "drives beyond ch s" and "v < NVEHICLES"
  shows "filter (\<lambda>l. l \<in> set (script beyond ch v)) (printed s) @ pending beyond ch s v = script beyond ch v"
  using drives_on_script [OF assms(1)] assms(2) unfolding spoken_script [OF assms] by (simp add: on_script_def)

lemma spoken_complete:
  assumes "drives beyond ch s" and "v < NVEHICLES" and "v \<in> announced s" and "code (junc s) v = []"
  shows "filter (\<lambda>l. l \<in> set (script beyond ch v)) (printed s) = script beyond ch v"
  using spoken_prefix [OF assms(1,2)] assms(3,4) by (simp add: pending_def)

lemma printed_numbers: "drives beyond ch s \<Longrightarrow> l \<in> set (printed s) \<Longrightarrow> number_in l < NVEHICLES"
proof (induction arbitrary: l rule: drives.induct)
  case drives_start
  then show ?case by (simp add: street_start_def)
next
  case (drives_step s w t)
  from drives_step(2) show ?case
    by (cases rule: street_stepE) (use drives_step.IH drives_step.prems says_number in \<open>auto simp: line_numbers\<close>)
qed

lemma announced_word: "announced_turn beyond ch v = [''left'', ''right'', beyond] ! vehicledirection ch v"
  by (cases rule: choice_cases [of ch v])
    (simp_all add: announced_turn_def approachintersection_def Let_def directions_def vehicledirection_def numeral_2_eq_2)

text \<open>
  C36. In every interleaving, all the lines on the console with the number of vehicle \<open>v\<close> are, in order, a beginning of its script: the
  approach, then entering and leaving each segment that its turn crosses; they are the whole script once the vehicle has
  finished; and every line has the number of one of the vehicles. So where a vehicle is can be read off the console, but not how it turns: the
  approach announces the word that \<open>directions\<close> has for the route and not for the turn, and for route C what lies behind the array (any text \<open>beyond\<close>).
\<close>

theorem vehicle_follows_script:
  assumes "drives beyond ch s" and "v < NVEHICLES"
  shows "(\<exists>k. filter (\<lambda>l. number_in l = v) (printed s) = take k (script beyond ch v)
       \<and> (v \<in> announced s \<and> code (junc s) v = [] \<longrightarrow> k = length (script beyond ch v)))
     \<and> (\<forall>l \<in> set (printed s). number_in l < NVEHICLES)
     \<and> hd (script beyond ch v) = message_approach (vehicles ! vehicletype ch v) (of_nat v) (routes ! vehicledirection ch v)
         ([''left'', ''right'', beyond] ! vehicledirection ch v)"
proof (intro conjI)
  show "\<exists>k. filter (\<lambda>l. number_in l = v) (printed s) = take k (script beyond ch v)
       \<and> (v \<in> announced s \<and> code (junc s) v = [] \<longrightarrow> k = length (script beyond ch v))"
    using spoken_prefix [OF assms] spoken_complete [OF assms] unfolding spoken_script [OF assms] spoken_def
    by (metis append_eq_conv_conj)
  show "\<forall>l \<in> set (printed s). number_in l < NVEHICLES" using printed_numbers [OF assms(1)] by blast
  show "hd (script beyond ch v) = message_approach (vehicles ! vehicletype ch v) (of_nat v) (routes ! vehicledirection ch v)
      ([''left'', ''right'', beyond] ! vehicledirection ch v)"
    by (simp add: script_def approach_line_def announced_word)
qed

section \<open>The console shows no crash\<close>

text \<open>A vehicle that has printed entering a segment and not leaving it is in the segment.\<close>

definition seen_inside :: "choices \<Rightarrow> street \<Rightarrow> bool" where
  "seen_inside ch s \<longleftrightarrow> (\<forall>v < NVEHICLES. \<forall>x < 3. enter_line ch v x \<in> set (printed s) \<and> leave_line ch v x \<notin> set (printed s)
     \<longrightarrow> v \<in> inside (junc s) x)"

lemma line_apart:
  assumes "v < NVEHICLES" and "w < NVEHICLES" and "v \<noteq> w"
  shows "enter_line ch v x \<noteq> enter_line ch w y" "enter_line ch v x \<noteq> leave_line ch w y" "leave_line ch v x \<noteq> leave_line ch w y"
    "enter_line ch v x \<noteq> approach_line beyond ch w" "leave_line ch v x \<noteq> approach_line beyond ch w"
  using line_numbers [OF assms(1)] line_numbers [OF assms(2)] assms(3) by metis+

lemma vstep_inside:
  assumes "vstep w j = Some k" and "well_spoken (code j w)"
  shows "\<exists>i. hd (code j w) = i \<and> (case i of Enter y \<Rightarrow> y < 3 \<and> inside k = (inside j)(y := insert w (inside j y))
      | Leave y \<Rightarrow> y < 3 \<and> inside k = (inside j)(y := inside j y - {w})
      | _ \<Rightarrow> inside k = inside j)"
  using assms by (auto simp: vstep_def split: list.splits vinstr.splits if_splits)

lemma drives_seen_inside: "drives beyond ch s \<Longrightarrow> seen_inside ch s"
proof (induction rule: drives.induct)
  case drives_start
  show ?case by (simp add: seen_inside_def street_start_def)
next
  case (drives_step s w t)
  from drives_step(2) show ?case
  proof (cases rule: street_stepE)
    case approach
    then show ?thesis using drives_step.IH line_apart(4) [of _ w ch _ beyond] line_kinds(1) [of beyond ch w]
      unfolding seen_inside_def by (auto simp: eq_commute) metis
  next
    case (drive j)
    have ws: "well_spoken (code (junc s) w)" using drives_on_script [OF drives_step(1)] drive(1) by (simp add: on_script_def)
    have "v \<in> inside j x"
      if v: "v < NVEHICLES" "x < 3" and e: "enter_line ch v x \<in> set (printed t)" and l: "leave_line ch v x \<notin> set (printed t)" for v x
    proof (cases "hd (code (junc s) w)")
      case (Enter y)
      then have "y < 3" "inside j = (inside (junc s))(y := insert w (inside (junc s) y))" using vstep_inside [OF drive(3) ws] by auto
      moreover have "v \<in> inside (junc s) x \<or> enter_line ch v x = enter_line ch w y"
        using drives_step.IH v e l drive(4) Enter by (auto simp: seen_inside_def)
      ultimately show ?thesis using line_apart(1) [OF v(1) drive(1)] line_segments(1) [OF v(2)] by (cases "v = w") auto
    next
      case (Leave y)
      then have "y < 3" "inside j = (inside (junc s))(y := inside (junc s) y - {w})" using vstep_inside [OF drive(3) ws] by auto
      moreover have "v \<in> inside (junc s) x" "leave_line ch v x \<noteq> leave_line ch w y"
        using drives_step.IH v e l drive(4) Leave line_apart(2) [OF v(1) drive(1)] line_kinds(3) by (cases "v = w"; auto simp: seen_inside_def)+
      ultimately show ?thesis by auto
    qed (use drives_step.IH v e l drive(4) vstep_inside [OF drive(3) ws] in \<open>auto simp: seen_inside_def\<close>)
    then show ?thesis using drive(4) by (simp add: seen_inside_def)
  qed
qed

lemma last_line: "xs @ ys = pre @ l # post \<Longrightarrow> length ys \<le> 1 \<Longrightarrow> (\<exists>post'. xs = pre @ l # post') \<or> (xs = pre \<and> ys = [l])"
  by (cases ys; cases post rule: rev_cases) auto

text \<open>Each prefix of the console was the console of an earlier state; the next line is what a step then printed.\<close>

lemma drives_prefix:
  assumes "drives beyond ch s" and "printed s = pre @ l # post"
  shows "\<exists>t u w. drives beyond ch t \<and> printed t = pre \<and> street_step beyond ch w t = Some u \<and> printed u = pre @ [l]"
  using assms
proof (induction arbitrary: post rule: drives.induct)
  case drives_start
  then show ?case by (simp add: street_start_def)
next
  case (drives_step s w t)
  have "\<exists>ls. printed t = printed s @ ls \<and> length ls \<le> 1"
    using drives_step(2) says_short [of ch w] by (cases rule: street_stepE) auto
  then obtain ls where ls: "printed t = printed s @ ls" "length ls \<le> 1" by blast
  from ls drives_step.prems have "printed s @ ls = pre @ l # post" by simp
  from last_line [OF this ls(2)] show ?case
  proof
    assume "\<exists>post'. printed s = pre @ l # post'"
    then show ?thesis using drives_step.IH by blast
  next
    assume "printed s = pre \<and> ls = [l]"
    then show ?thesis using drives_step(1,2) ls(1) by auto
  qed
qed

lemma script_once:
  assumes "script beyond ch v = A @ enter_line ch v x # B" and "x < 3"
  shows "leave_line ch v x \<notin> set A" "enter_line ch v x \<notin> set A"
proof -
  define r where "r = vehicledirection ch v"
  have r: "r < 3" "(r + 1) mod 3 < 3" "(r + 1) mod 3 \<noteq> r" unfolding r_def by (cases rule: choice_cases [of ch v]; simp)+
  have "script beyond ch v = approach_line beyond ch v # enter_line ch v r # leave_line ch v r #
      (if turndirection ch v = 0 then [enter_line ch v ((r + 1) mod 3), leave_line ch v ((r + 1) mod 3)] else [])"
    by (simp add: script_def crossed_def Let_def r_def)
  with assms r show "leave_line ch v x \<notin> set A" "enter_line ch v x \<notin> set A"
    by (auto simp: line_eqs Cons_eq_append_conv split: if_splits)
qed

lemma enter_line_step:
  assumes "drives beyond ch t" and "street_step beyond ch y t = Some u" and "printed u = printed t @ [enter_line ch w x]"
    and "w < NVEHICLES" and "x < 3"
  shows "owner (junc t) (Seg x) = Some w"
  using assms(2)
proof (cases rule: street_stepE)
  case approach
  then show ?thesis using assms(3) line_kinds(1) [of beyond ch w x] line_apart(4) [OF assms(4) approach(1), of ch x beyond]
    by (cases "y = w") auto
next
  case (drive j)
  have "leave_line ch y k \<noteq> enter_line ch w x" for k
    using line_apart(2) [OF assms(4) drive(1)] line_kinds(3) [of ch w x] by (cases "y = w") metis+
  moreover have "says ch y (hd (code (junc t) y)) = [enter_line ch w x]" using assms(3) drive(4) by simp
  ultimately obtain k where h: "hd (code (junc t) y) = Enter k" "enter_line ch y k = enter_line ch w x"
    by (cases "hd (code (junc t) y)") auto
  then obtain p where k: "code (junc t) y = Enter k # p" using drive(3) by (cases "code (junc t) y") (auto simp: vstep_def)
  have "k < 3" using drives_on_script [OF assms(1)] drive(1) k by (auto simp: on_script_def)
  then have "y = w" "k = x"
    using h(2) line_apart(1) [OF drive(1) assms(4)] line_segments(1) [OF _ assms(5), of k ch w] by metis+
  moreover have "disciplined (holds (junc t) y) (within (junc t) y) (code (junc t) y)"
    using junction_ok_reaches [OF drives_reaches [OF assms(1)] junction_ok_start] by (simp add: junction_ok_def)
  ultimately show ?thesis using k by (simp add: holds_def)
qed

text \<open>
  C25. The console shows no crash: between two lines that announce entering a segment, whichever vehicles print them,
  there is the line with which the first one leaves it.
\<close>

theorem console_exclusive:
  assumes "drives beyond ch s" and "printed s = pre @ enter_line ch v x # mid @ enter_line ch w x # post"
    and "v < NVEHICLES" and "w < NVEHICLES" and "x < 3"
  shows "leave_line ch v x \<in> set mid"
proof (rule ccontr)
  assume nomid: "leave_line ch v x \<notin> set mid"
  obtain t u y where t: "drives beyond ch t" "printed t = pre @ enter_line ch v x # mid" "street_step beyond ch y t = Some u"
      "printed u = printed t @ [enter_line ch w x]"
    using drives_prefix [OF assms(1), of "pre @ enter_line ch v x # mid" "enter_line ch w x" post] assms(2) by auto
  have w: "owner (junc t) (Seg x) = Some w" by (rule enter_line_step [OF t(1,3,4) assms(4,5)])
  note sc = drives_on_script [unfolded on_script_def, rule_format, OF _ assms(3), THEN conjunct1]
  have "script beyond ch v = filter (\<lambda>l. number_in l = v) pre @ enter_line ch v x # (filter (\<lambda>l. number_in l = v) mid @ pending beyond ch t v)"
    using sc [OF t(1)] by (simp add: spoken_def t(2) line_numbers [OF assms(3)])
  from script_once(1) [OF this assms(5)] have "leave_line ch v x \<notin> set pre" by (auto simp: line_numbers [OF assms(3)])
  with nomid have "v \<in> inside (junc t) x"
    using drives_seen_inside [OF t(1)] assms(3,5) line_kinds(3) [of ch v x x] by (auto simp: seen_inside_def t(2))
  then have "owner (junc t) (Seg x) = Some v"
    using junction_ok_reaches [OF drives_reaches [OF t(1)] junction_ok_start] by (auto simp: junction_ok_def holds_def within_def)
  with w have "v = w" by simp
  then have "script beyond ch v = spoken t v @ enter_line ch v x # pending beyond ch u v"
    using sc [OF drives_step [OF t(1,3)]] t(4) line_numbers(2) [OF assms(4)] by (simp add: spoken_def)
  from script_once(2) [OF this assms(5)] show False by (simp add: spoken_def t(2) line_numbers [OF assms(3)])
qed

section \<open>When nobody gets stuck\<close>

text \<open>
  The discipline of a truck that holds the segments \<open>H\<close>, when \<open>L\<close> are the routes from which somebody turns left: it never takes
  a truck lock and never counts a car; it asks for a second segment only from a route of \<open>L\<close>, and then for the next one; it ends
  with empty hands. Tests of the counter are false, since trucks only decrement it.
\<close>

function careful :: "nat set \<Rightarrow> nat set \<Rightarrow> vinstr list \<Rightarrow> bool" where
  "careful L H [] = (H = {})"
| "careful L H (LoadCars r # p) = careful L H p"
| "careful L H (StoreCars r i # p) = (i \<le> 0 \<and> careful L H p)"
| "careful L H (UnlessPos r # p) = careful L H (tl p)"
| "careful L H (UnlessZero r # p) = (careful L H p \<and> careful L H (tl p))"
| "careful L H (Acquire (Seg y) # p) = (y < 3 \<and> (\<forall>x \<in> H. x \<in> L \<and> y = (x + 1) mod 3) \<and> careful L (insert y H) p)"
| "careful L H (Acquire (Truck y) # p) = False"
| "careful L H (Release (Seg x) # p) = careful L (H - {x}) p"
| "careful L H (Release (Truck x) # p) = careful L H p"
| "careful L H (Enter x # p) = careful L H p"
| "careful L H (Leave x # p) = careful L H p"
  by pat_completeness auto
termination by (relation "measure (\<lambda>(L, H, p). length p)") auto

definition left_routes :: "choices \<Rightarrow> nat set" where
  "left_routes ch = {vehicledirection ch v | v. v < NVEHICLES \<and> turndirection ch v = 0}"

lemma start_careful:
  assumes "v < NVEHICLES" and "vehicletype ch v = 1"
  shows "careful (left_routes ch) {} (code (start ch) v)"
proof -
  have "vehicledirection ch v \<in> left_routes ch" if "turndirection ch v = 0"
    using that assms(1) by (auto simp: left_routes_def)
  then show ?thesis unfolding code_start assms(2)
    by (cases rule: choice_cases [of ch v]) (auto simp: turnleft_def turnright_def)
qed

text \<open>All counters are at most 0, only vehicles of the street hold segments, and each follows the discipline.\<close>

definition trucks_ok :: "choices \<Rightarrow> junction \<Rightarrow> bool" where
  "trucks_ok ch j \<longleftrightarrow> (\<forall>r. cars j r \<le> 0) \<and> (\<forall>v. reg j v \<le> 0) \<and> (\<forall>v. holds j v \<noteq> {} \<longrightarrow> v < NVEHICLES)
     \<and> (\<forall>v < NVEHICLES. careful (left_routes ch) (holds j v) (code j v))"

lemma vstep_careful:
  assumes "vstep v j = Some k" and "careful L (holds j v) (code j v)" and "\<forall>r. cars j r \<le> 0" and "\<forall>w. reg j w \<le> 0"
  shows "careful L (holds k v) (code k v) \<and> (\<forall>r. cars k r \<le> 0) \<and> (\<forall>w. reg k w \<le> 0)"
proof (cases "code j v")
  case Nil
  with assms(1) show ?thesis by (simp add: vstep_def)
next
  case (Cons i p)
  note d = assms [unfolded Cons]
  show ?thesis
  proof (cases i)
    case (Acquire l)
    with d Cons show ?thesis by (cases l) (auto simp: vstep_def holds_updates split: if_splits)
  next
    case (Release l)
    with d Cons show ?thesis by (cases l) (auto simp: vstep_def holds_updates)
  next
    case (UnlessPos r)
    then have "\<not> cars j r > 0" using assms(3) by (simp add: not_less)
    with UnlessPos d Cons show ?thesis by (auto simp: vstep_def holds_updates)
  next
    case (StoreCars r i)
    then have "reg j v + i \<le> 0" using d(2,4) by (simp add: add_nonpos_nonpos)
    with StoreCars d Cons show ?thesis by (auto simp: vstep_def holds_updates)
  qed (use d Cons in \<open>auto simp: vstep_def holds_updates split: if_splits\<close>)
qed

lemma drives_trucks_ok:
  assumes "drives beyond ch s" and "\<forall>v < NVEHICLES. vehicletype ch v = 1"
  shows "trucks_ok ch (junc s)"
  using assms(1)
proof (induction rule: drives.induct)
  case drives_start
  have "holds (start ch) v = {}" for v by (simp add: holds_def)
  then show ?case using assms(2) start_careful by (simp add: trucks_ok_def street_start_def)
next
  case (drives_step s w t)
  from drives_step(2) show ?case
  proof (cases rule: street_stepE)
    case approach
    then show ?thesis using drives_step.IH by simp
  next
    case (drive j)
    note ih = drives_step.IH [unfolded trucks_ok_def]
    from ih drive(1,3) vstep_careful [OF drive(3), of "left_routes ch"]
    have c: "careful (left_routes ch) (holds j w) (code j w)" "\<forall>r. cars j r \<le> 0" "\<forall>v. reg j v \<le> 0" by blast+
    have "holds j v = holds (junc s) v \<and> code j v = code (junc s) v" if "v \<noteq> w" for v using vstep_others [OF drive(3) that] by simp
    with c ih drive(1,4) show ?thesis unfolding trucks_ok_def by (simp, metis)
  qed
qed

text \<open>A vehicle that cannot move waits for a segment that somebody holds.\<close>

lemma waiting_truck:
  assumes "vstep v j = None" and "careful L (holds j v) (code j v)" and "code j v \<noteq> []"
  obtains y p w where "code j v = Acquire (Seg y) # p" "owner j (Seg y) = Some w" "y < 3"
    "\<forall>x \<in> holds j v. x \<in> L \<and> y = (x + 1) mod 3"
proof -
  obtain i p where c: "code j v = i # p" using assms(3) by (cases "code j v") auto
  then obtain l where l: "i = Acquire l" "owner j l \<noteq> None" using assms(1) by (cases i) (auto simp: vstep_def split: if_splits)
  then obtain y where "l = Seg y" using assms(2) c by (cases l) auto
  with that c l assms(2) show thesis by auto
qed

text \<open>If all wait, the holder of a segment turns left from the route of its number and waits for the next segment.\<close>

lemma chain:
  assumes "trucks_ok ch j" and "\<forall>v < NVEHICLES. vstep v j = None" and "owner j (Seg x) = Some w"
  shows "x \<in> left_routes ch \<and> (\<exists>u. owner j (Seg ((x + 1) mod 3)) = Some u)"
proof -
  have x: "x \<in> holds j w" using assms(3) by (simp add: holds_def)
  then have w: "w < NVEHICLES" "careful (left_routes ch) (holds j w) (code j w)" using assms(1) by (auto simp: trucks_ok_def)
  then have "code j w \<noteq> []" using x by auto
  with w x assms(2) show ?thesis by (metis waiting_truck)
qed

text \<open>What is left to do: every step takes one off.\<close>

definition remaining :: "street \<Rightarrow> nat" where
  "remaining s = (\<Sum>v < NVEHICLES. length (code (junc s) v) + (if v \<in> announced s then 0 else 1))"

lemma street_step_shortens:
  assumes "street_step beyond ch w s = Some t"
  defines "todo \<equiv> \<lambda>s v. length (code (junc s) v) + (if v \<in> announced s then 0 else 1)"
  shows "todo t w < todo s w" "todo t v \<le> todo s v"
proof -
  have len: "length (code j w) < length (code (junc s) w)" if "vstep w (junc s) = Some j" for j
    using that by (auto simp: vstep_def split: list.splits vinstr.splits if_splits)
  from assms(1) have "todo t w < todo s w \<and> todo t v \<le> todo s v"
  proof (cases rule: street_stepE)
    case (drive j)
    then show ?thesis using len [OF drive(3)] vstep_others(3) [OF drive(3), of v] by (cases "v = w") (auto simp: todo_def)
  qed (auto simp: todo_def)
  then show "todo t w < todo s w" "todo t v \<le> todo s v" by simp_all
qed

lemma street_step_remaining:
  assumes "street_step beyond ch w s = Some t"
  shows "remaining t < remaining s"
  unfolding remaining_def
proof (rule sum_strict_mono_ex1)
  have "w < NVEHICLES" using assms by (cases rule: street_stepE)
  then show "\<exists>v \<in> {..<NVEHICLES}. length (code (junc t) v) + (if v \<in> announced t then 0 else 1)
      < length (code (junc s) v) + (if v \<in> announced s then 0 else 1)"
    using street_step_shortens(1) [OF assms] by blast
qed (use street_step_shortens(2) [OF assms] in simp_all)

text \<open>
  C30. Trucks get through: if all vehicles are trucks and there is a route from which nobody turns left, then the street never
  blocks. As long as a vehicle has not finished somebody can move, every move brings the end nearer, and at the end every vehicle
  has printed its whole script. (With left turns from all three routes trucks can block each other forever.)
\<close>

theorem trucks_get_through:
  assumes "drives beyond ch s" and "\<forall>v < NVEHICLES. vehicletype ch v = 1"
    and "r < 3" and "\<forall>v < NVEHICLES. vehicledirection ch v = r \<longrightarrow> turndirection ch v = 1"
  shows "((\<exists>v t. street_step beyond ch v s = Some t)
      \<or> (\<forall>v < NVEHICLES. code (junc s) v = [] \<and> filter (\<lambda>l. l \<in> set (script beyond ch v)) (printed s) = script beyond ch v))
    \<and> (\<forall>v t. street_step beyond ch v s = Some t \<longrightarrow> remaining t < remaining s)"
proof (cases "\<exists>v t. street_step beyond ch v s = Some t")
  case True
  then show ?thesis using street_step_remaining by blast
next
  case False
  have stuck: "v \<in> announced s \<and> vstep v (junc s) = None" if "v < NVEHICLES" for v
  proof -
    have "street_step beyond ch v s = None" using False by (cases "street_step beyond ch v s") auto
    with that show ?thesis by (auto simp: street_step_def split: if_splits option.splits)
  qed
  have ok: "trucks_ok ch (junc s)" by (rule drives_trucks_ok [OF assms(1,2)])
  have r: "r \<notin> left_routes ch" using assms(4) by (auto simp: left_routes_def)
  have "code (junc s) v = []" if v: "v < NVEHICLES" for v
  proof (rule ccontr)
    assume "code (junc s) v \<noteq> []"
    moreover have "careful (left_routes ch) (holds (junc s) v) (code (junc s) v)" using ok v by (simp add: trucks_ok_def)
    ultimately obtain y w where y: "y < 3" "owner (junc s) (Seg y) = Some w"
      using waiting_truck [OF conjunct2 [OF stuck [OF v]]] by metis
    have step: "x \<in> left_routes ch \<and> (\<exists>u. owner (junc s) (Seg ((x + 1) mod 3)) = Some u)"
      if "owner (junc s) (Seg x) = Some w" for x w
      by (rule chain [OF ok _ that]) (simp add: stuck)
    from step [OF y(2)] obtain w1 where w1: "y \<in> left_routes ch" "owner (junc s) (Seg ((y + 1) mod 3)) = Some w1" by blast
    from step [OF w1(2)] obtain w2 where w2: "(y + 1) mod 3 \<in> left_routes ch" "owner (junc s) (Seg (((y + 1) mod 3 + 1) mod 3)) = Some w2" by blast
    note w1(1) w2(1) step [OF w2(2), THEN conjunct1]
    moreover have "r = y \<or> r = (y + 1) mod 3 \<or> r = ((y + 1) mod 3 + 1) mod 3"
    proof -
      have "r \<in> {0, 1, 2}" "y \<in> {0, 1, 2}" using assms(3) y(1) by auto
      then show ?thesis by auto
    qed
    ultimately show False using r by blast
  qed
  with False stuck spoken_complete [OF assms(1)] show ?thesis by simp
qed

section \<open>Examples\<close>

text \<open>Trucks that come from A and turn right, and a run of two of them.\<close>

definition right_trucks :: choices where "right_trucks = (\<lambda>v. (0, 1, 1))"

primrec run_street :: "string \<Rightarrow> choices \<Rightarrow> nat list \<Rightarrow> street \<Rightarrow> street option" where
  "run_street beyond ch [] s = Some s"
| "run_street beyond ch (v # vs) s = (case street_step beyond ch v s of None \<Rightarrow> None | Some t \<Rightarrow> run_street beyond ch vs t)"

lemma run_street_drives: "run_street beyond ch vs s = Some t \<Longrightarrow> drives beyond ch s \<Longrightarrow> drives beyond ch t"
  by (induction vs arbitrary: s) (auto split: option.splits intro: drives_step)

lemma right_trucks_simps:
  "vehicledirection right_trucks v = 0" "turndirection right_trucks v = 1" "vehicletype right_trucks v = 1"
  "code (start right_trucks) v = [UnlessPos 0, Acquire (Truck 0), Acquire (Seg 0), LoadCars 0, StoreCars 0 (- 1),
     UnlessZero 0, Release (Truck 0), Enter 0, Leave 0, Release (Seg 0)]"
  by (simp_all add: right_trucks_def vehicledirection_def turndirection_def vehicletype_def approachintersection_def turnright_def)

lemma run_street_append:
  "run_street beyond ch (vs @ ws) s = (case run_street beyond ch vs s of None \<Rightarrow> None | Some t \<Rightarrow> run_street beyond ch ws t)"
  by (induction vs arbitrary: s) (auto split: option.splits)

text \<open>The state after one of these trucks has gone through alone.\<close>

definition gone_through :: "string \<Rightarrow> nat \<Rightarrow> street \<Rightarrow> street" where
  "gone_through beyond v s = s\<lparr>
     junc := (junc s)\<lparr>code := (code (junc s))(v := []), cars := (cars (junc s))(0 := cars (junc s) 0 - 1),
       reg := (reg (junc s))(v := cars (junc s) 0), inside := (inside (junc s))(0 := inside (junc s) 0 - {v})\<rparr>,
     announced := insert v (announced s),
     printed := printed s @ [approach_line beyond right_trucks v, enter_line right_trucks v 0, leave_line right_trucks v 0]\<rparr>"

text \<open>Alone, a vehicle prints the words of the program that it executes.\<close>

lemma run_alone:
  assumes "run_schedule vs (junc s) = Some k" and "set vs \<subseteq> {v}" and "v < NVEHICLES" and "v \<in> announced s"
    and "well_spoken (code (junc s) v)"
  shows "\<exists>ls. run_street beyond ch vs s = Some (s\<lparr>junc := k, printed := printed s @ ls\<rparr>)
    \<and> words_of ch v (code (junc s) v) = ls @ words_of ch v (code k v)"
  using assms
proof (induction vs arbitrary: s)
  case Nil
  then show ?case by simp
next
  case (Cons w ws)
  then obtain j where j: "w = v" "vstep v (junc s) = Some j" "run_schedule ws j = Some k" by (auto split: option.splits)
  let ?t = "s\<lparr>junc := j, printed := printed s @ says ch v (hd (code (junc s) v))\<rparr>"
  have "\<exists>ls. run_street beyond ch ws ?t = Some (?t\<lparr>junc := k, printed := printed ?t @ ls\<rparr>)
      \<and> words_of ch v (code j v) = ls @ words_of ch v (code k v)"
    using Cons.IH [of ?t] Cons.prems j vstep_says(2) [OF j(2)] by simp
  then show ?case using Cons.prems(3,4) j vstep_says(1) [OF j(2) Cons.prems(5), of ch] by (auto simp: street_step_def)
qed

lemma run_gone_through:
  assumes "v < NVEHICLES" and "v \<notin> announced s" and "code (junc s) v = code (start right_trucks) v"
    and "owner (junc s) (Seg 0) = None" and "cars (junc s) 0 \<le> 0"
  shows "run_street beyond right_trucks [v, v, v, v, v, v, v, v, v] s = Some (gone_through beyond v s)"
proof -
  have o: "(owner (junc s))(Seg 0 := None) = owner (junc s)" using assms(4) by auto
  let ?t = "s\<lparr>announced := insert v (announced s), printed := printed s @ [approach_line beyond right_trucks v]\<rparr>"
  have "run_schedule [v, v, v, v, v, v, v, v] (junc ?t) = Some (junc (gone_through beyond v s))"
    using assms(3-5) o by (simp add: vstep_def right_trucks_simps gone_through_def not_less del: start_simps(5))
  from run_alone [OF this, of v beyond right_trucks] obtain ls where
    "run_street beyond right_trucks [v, v, v, v, v, v, v, v] ?t = Some (?t\<lparr>junc := junc (gone_through beyond v s), printed := printed ?t @ ls\<rparr>)"
    "words_of right_trucks v (code (junc ?t) v) = ls @ words_of right_trucks v (code (junc (gone_through beyond v s)) v)"
    using assms(1,3) start_spoken [of right_trucks v] by auto
  then show ?thesis using assms(1-3) by (simp add: street_step_def gone_through_def right_trucks_simps del: start_simps(5))
qed

lemma right_trucks_run:
  "\<exists>s. drives beyond right_trucks s \<and> 3 \<in> announced s \<and> code (junc s) 3 = [] \<and> 7 \<notin> announced s
     \<and> printed s = [approach_line beyond right_trucks 3] @ enter_line right_trucks 3 0 #
        [leave_line right_trucks 3 0, approach_line beyond right_trucks 5] @ enter_line right_trucks 5 0 # [leave_line right_trucks 5 0]"
proof -
  let ?s = "gone_through beyond 5 (gone_through beyond 3 (street_start right_trucks))"
  have "run_street beyond right_trucks [3, 3, 3, 3, 3, 3, 3, 3, 3] (street_start right_trucks)
      = Some (gone_through beyond 3 (street_start right_trucks))"
    by (rule run_gone_through) (simp_all add: NVEHICLES_def street_start_def)
  moreover have "run_street beyond right_trucks [5, 5, 5, 5, 5, 5, 5, 5, 5] (gone_through beyond 3 (street_start right_trucks)) = Some ?s"
    by (rule run_gone_through) (simp_all add: NVEHICLES_def street_start_def gone_through_def)
  ultimately have "drives beyond right_trucks ?s" using run_street_drives drives_start by blast
  then show ?thesis
    by (intro exI [of _ ?s]) (simp add: gone_through_def street_start_def)
qed

theorem vehicle_follows_script_witness:
  "\<exists>s. drives ''AB'' right_trucks s
     \<and> filter (\<lambda>l. number_in l = 3) (printed s) = script ''AB'' right_trucks 3"
proof -
  obtain s where s: "drives ''AB'' right_trucks s" "3 \<in> announced s" "code (junc s) 3 = []" using right_trucks_run by blast
  have "3 < NVEHICLES" by (simp add: NVEHICLES_def)
  from vehicle_follows_script [OF s(1) this] s show ?thesis by auto
qed

theorem console_exclusive_witness:
  "\<exists>s. drives ''AB'' right_trucks s \<and> enter_line right_trucks 5 0 \<in> set (printed s) \<and> leave_line right_trucks 3 0 \<in> set (printed s)"
proof -
  obtain s where s: "drives ''AB'' right_trucks s" "printed s = [approach_line ''AB'' right_trucks 3] @ enter_line right_trucks 3 0 #
        [leave_line right_trucks 3 0, approach_line ''AB'' right_trucks 5] @ enter_line right_trucks 5 0 # [leave_line right_trucks 5 0]"
    using right_trucks_run by blast
  have "leave_line right_trucks 3 0 \<in> set [leave_line right_trucks 3 0, approach_line ''AB'' right_trucks 5]"
    by (rule console_exclusive [OF s]) (simp_all add: NVEHICLES_def)
  with s show ?thesis by auto
qed

theorem trucks_get_through_witness:
  "\<exists>s. drives ''AB'' right_trucks s \<and> 3 \<in> announced s \<and> (\<exists>v t. street_step ''AB'' right_trucks v s = Some t \<and> remaining t < remaining s)"
proof -
  obtain s where s: "drives ''AB'' right_trucks s" "3 \<in> announced s" "7 \<notin> announced s"
    using right_trucks_run by blast
  obtain t where t: "street_step ''AB'' right_trucks 7 s = Some t" using s(3) by (simp add: street_step_def NVEHICLES_def)
  have "remaining t < remaining s"
    using trucks_get_through [OF s(1), of 0] t by (simp add: right_trucks_simps)
  with s t show ?thesis by blast
qed

end
