(* ===== verification/Stoplight_Kernel.thy ===== *)
theory Stoplight_Kernel
  imports Stoplight_Console
begin

text \<open>
  The vehicles of \<^verbatim>\<open>kern/asst1/stoplight.c\<close> on the locks of \<^verbatim>\<open>kern/thread/synch.c\<close>. \<open>Stoplight\<close> gives the vehicles locks
  that make them wait; here each vehicle is a thread of the kernel and calls \<open>lock_acquire\<close> and \<open>lock_release\<close>, sleeps inside them and
  wakes up again, while interrupts, context switches and other kernel code go on. Every such run is a run of \<open>Stoplight\<close>, so that what
  is shown there holds on the kernel.
\<close>

section \<open>Vehicles as threads\<close>

fun lock_call :: "vinstr \<Rightarrow> bool" where
  "lock_call (Acquire l) = True"
| "lock_call (Release l) = True"
| "lock_call _ = False"

text \<open>The six locks that \<open>createvehicles\<close> makes for the vehicles (\<open>tempy\<close> is not used).\<close>

definition site_locks :: "ilock set" where
  "site_locks = {Seg 0, Seg 1, Seg 2, Truck 0, Truck 1, Truck 2}"

text \<open>
  The state: the kernel, the vehicles' programs, counters and registers (the owners of the junction are not used: the locks are those of
  the kernel), and the vehicles that are inside a call of \<open>lock_acquire\<close>. \<open>adr\<close> is where a lock is, and \<open>vt\<close> which thread a vehicle is. A step is one
  by the running thread, or anything else in the kernel that leaves these locks alone.
\<close>

inductive kstep ::
  "('q, 'a, 'h) klib \<Rightarrow> machine \<Rightarrow> (ilock \<Rightarrow> ptr) \<Rightarrow> (nat \<Rightarrow> ptr)
     \<Rightarrow> ('q, 'a, 'h, 'z) sys_scheme \<times> junction \<times> nat set \<Rightarrow> ('q, 'a, 'h, 'z) sys_scheme \<times> junction \<times> nat set \<Rightarrow> bool"
  for L M adr vt where
  local: "v < NVEHICLES \<Longrightarrow> curthread s = vt v \<Longrightarrow> v \<notin> W \<Longrightarrow> code j v = i # p \<Longrightarrow> \<not> lock_call i \<Longrightarrow> vstep v j = Some j' \<Longrightarrow>
    kstep L M adr vt (s, j, W) (s, j', W)"
| acquire: "v < NVEHICLES \<Longrightarrow> curthread s = vt v \<Longrightarrow> v \<notin> W \<Longrightarrow> code j v = Acquire l # p \<Longrightarrow>
    lock_acquire L M [[]] (adr l) s = Inr (Done s') \<Longrightarrow>
    kstep L M adr vt (s, j, W) (s', j\<lparr>code := (code j)(v := p)\<rparr>, W)"
| wait: "v < NVEHICLES \<Longrightarrow> curthread s = vt v \<Longrightarrow> v \<notin> W \<Longrightarrow> code j v = Acquire l # p \<Longrightarrow>
    lock_acquire L M [[]] (adr l) s = Inr (Blocked out) \<Longrightarrow>
    kstep L M adr vt (s, j, W) (out_state out, j, insert v W)"
| retry: "v < NVEHICLES \<Longrightarrow> curthread s = vt v \<Longrightarrow> v \<in> W \<Longrightarrow> code j v = Acquire l # p \<Longrightarrow>
    lock_acquire_resume L M spl [[]] (adr l) s = Inr (Done s') \<Longrightarrow>
    kstep L M adr vt (s, j, W) (s', j\<lparr>code := (code j)(v := p)\<rparr>, W - {v})"
| retry_wait: "v < NVEHICLES \<Longrightarrow> curthread s = vt v \<Longrightarrow> v \<in> W \<Longrightarrow> code j v = Acquire l # p \<Longrightarrow>
    lock_acquire_resume L M spl [[]] (adr l) s = Inr (Blocked out) \<Longrightarrow>
    kstep L M adr vt (s, j, W) (out_state out, j, W)"
| release: "v < NVEHICLES \<Longrightarrow> curthread s = vt v \<Longrightarrow> v \<notin> W \<Longrightarrow> code j v = Release l # p \<Longrightarrow>
    lock_release L M (adr l) s = Inr s' \<Longrightarrow>
    kstep L M adr vt (s, j, W) (s', j\<lparr>code := (code j)(v := p)\<rparr>, W)"
| other: "\<forall>l \<in> site_locks. locks s' (adr l) = locks s (adr l) \<Longrightarrow> kstep L M adr vt (s, j, W) (s', j, W)"

section \<open>The simulation\<close>

text \<open>The programs use the six locks only.\<close>

definition site_code :: "vinstr list \<Rightarrow> bool" where
  "site_code p \<longleftrightarrow> (\<forall>l. Acquire l \<in> set p \<or> Release l \<in> set p \<longrightarrow> l \<in> site_locks)"

lemma start_site_code: "site_code (code (start ch) v)"
  unfolding code_start by (cases rule: choice_cases [of ch v]) (auto simp: turnleft_def turnright_def site_code_def site_locks_def)

lemma set_tl: "x \<in> set (tl p) \<Longrightarrow> x \<in> set p"
  by (cases p) auto

lemma vstep_site_code:
  assumes "vstep v j = Some k" and "\<forall>w. site_code (code j w)"
  shows "site_code (code k w)"
proof (cases "w = v")
  case False
  with assms vstep_others(3) [OF assms(1) False] show ?thesis by simp
next
  case True
  have "set (code k v) \<subseteq> set (code j v)"
    using assms(1) by (auto simp: vstep_def dest: set_tl split: list.splits vinstr.splits if_splits)
  with assms(2) True show ?thesis by (auto simp: site_code_def)
qed

text \<open>
  A junction \<open>a\<close> stands for a state of the kernel: the programs, counters and registers are the same, and a vehicle owns a lock exactly
  if its thread holds it.
\<close>

definition stands_for :: "(ilock \<Rightarrow> ptr) \<Rightarrow> (nat \<Rightarrow> ptr) \<Rightarrow> junction \<Rightarrow> ('q, 'a, 'h, 'z) sys_scheme \<Rightarrow> junction \<Rightarrow> bool" where
  "stands_for adr vt a s j \<longleftrightarrow> code a = code j \<and> cars a = cars j \<and> reg a = reg j \<and> inside a = inside j
     \<and> (\<forall>l \<in> site_locks. \<exists>k. locks s (adr l) = Some k \<and> (held k = 0 \<or> held k = 1)
          \<and> (case owner a l of None \<Rightarrow> held k = 0 | Some v \<Rightarrow> v < NVEHICLES \<and> held k = 1 \<and> holder k = vt v))"

lemma stands_for_lock:
  assumes "stands_for adr vt a s j" and "l \<in> site_locks"
  obtains k where "locks s (adr l) = Some k" "owner a l = None \<Longrightarrow> held k = 0"
    "\<And>v. owner a l = Some v \<Longrightarrow> v < NVEHICLES \<and> held k = 1 \<and> holder k = vt v"
  using assms unfolding stands_for_def by (fastforce split: option.splits)

lemma stands_for_local:
  assumes "stands_for adr vt a s j" and "vstep v j = Some j'" and "code j v = i # p" and "\<not> lock_call i"
  shows "\<exists>a'. vstep v a = Some a' \<and> stands_for adr vt a' s j'"
  using assms by (cases i) (auto simp: vstep_def stands_for_def)

lemma stands_for_acquire:
  assumes "stands_for adr vt a s j" and "code j v = Acquire l # p" and "l \<in> site_locks" and "locks s (adr l) = Some k" and "held k = 0"
    and "locks s' = (locks s)(adr l \<mapsto> k\<lparr>held := 1, holder := vt v\<rparr>)" and "inj_on adr site_locks" and "v < NVEHICLES"
  shows "\<exists>a'. vstep v a = Some a' \<and> stands_for adr vt a' s' (j\<lparr>code := (code j)(v := p)\<rparr>)"
proof -
  have o: "owner a l = None" using assms(1,3-5) by (cases "owner a l") (auto simp: stands_for_def split: option.splits)
  have ne: "adr m \<noteq> adr l" if "m \<in> site_locks" "m \<noteq> l" for m using inj_onD [OF assms(7)] that assms(3) by blast
  have "stands_for adr vt (a\<lparr>code := (code a)(v := p), owner := (owner a)(l \<mapsto> v)\<rparr>) s' (j\<lparr>code := (code j)(v := p)\<rparr>)"
    using assms(1,6,8) ne by (fastforce simp: stands_for_def)
  moreover have "vstep v a = Some (a\<lparr>code := (code a)(v := p), owner := (owner a)(l \<mapsto> v)\<rparr>)"
    using assms(1,2) o by (simp add: vstep_def stands_for_def)
  ultimately show ?thesis by blast
qed

lemma stands_for_release:
  assumes "stands_for adr vt a s j" and "code j v = Release l # p" and "l \<in> site_locks" and "locks s (adr l) = Some k"
    and "locks s' = (if held k = 1 \<and> holder k = vt v then (locks s)(adr l \<mapsto> k\<lparr>held := 0\<rparr>) else locks s)"
    and "inj_on adr site_locks" and "inj_on vt {..<NVEHICLES}" and "v < NVEHICLES"
  shows "\<exists>a'. vstep v a = Some a' \<and> stands_for adr vt a' s' (j\<lparr>code := (code j)(v := p)\<rparr>)"
proof -
  have o: "owner a l = Some v \<longleftrightarrow> held k = 1 \<and> holder k = vt v"
  proof (cases "owner a l")
    case None
    then have "held k = 0" using stands_for_lock [OF assms(1,3)] assms(4) by auto
    with None show ?thesis by simp
  next
    case (Some w)
    then have "w < NVEHICLES" "held k = 1" "holder k = vt w" using stands_for_lock [OF assms(1,3)] assms(4) by auto
    with Some inj_onD [OF assms(7), of w v] assms(8) show ?thesis by auto
  qed
  have ne: "adr m \<noteq> adr l" if "m \<in> site_locks" "m \<noteq> l" for m using inj_onD [OF assms(6)] that assms(3) by blast
  let ?a = "a\<lparr>code := (code a)(v := p), owner := (if owner a l = Some v then (owner a)(l := None) else owner a)\<rparr>"
  have "stands_for adr vt ?a s' (j\<lparr>code := (code j)(v := p)\<rparr>)"
  proof (cases "owner a l = Some v")
    case True
    with o assms(5) have "locks s' = (locks s)(adr l \<mapsto> k\<lparr>held := 0\<rparr>)" by simp
    then show ?thesis using assms(1) True ne by (auto simp: stands_for_def)
  next
    case False
    with o assms(5) have "locks s' = locks s" by auto
    then show ?thesis using assms(1) False by (simp add: stands_for_def)
  qed
  moreover have "vstep v a = Some ?a"
    using assms(1,2) by (simp add: vstep_def stands_for_def)
  ultimately show ?thesis by blast
qed

text \<open>Each step of the kernel is a step of the junction, or none.\<close>

lemma kstep_simulated:
  assumes "kstep L M adr vt (s, j, W) (s', j', W')" and "stands_for adr vt a s j" and "\<forall>v. site_code (code j v)"
    and "inj_on adr site_locks" and "inj_on vt {..<NVEHICLES}"
  shows "\<exists>a'. (a' = a \<or> (\<exists>v. vstep v a = Some a')) \<and> stands_for adr vt a' s' j'"
proof -
  have site: "l \<in> site_locks" if "code j v = Acquire l # p \<or> code j v = Release l # p" for v l p
    using assms(3) [rule_format, of v] that by (auto simp: site_code_def)
  from assms(1) show ?thesis
  proof cases
    case (local v i p)
    then show ?thesis using stands_for_local [OF assms(2)] by blast
  next
    case (acquire v l p)
    then have c: "code j v = Acquire l # p" "curthread s = vt v" "v < NVEHICLES" and e: "lock_acquire L M [[]] (adr l) s = Inr (Done s')" by simp_all
    obtain k where k: "locks s (adr l) = Some k" using stands_for_lock [OF assms(2) site] c(1) by metis
    have "held k = 0" "locks s' = (locks s)(adr l \<mapsto> k\<lparr>held := 1, holder := vt v\<rparr>)" using acquire_effect [OF e k] c(2) by simp_all
    from stands_for_acquire [OF assms(2) c(1) site [OF disjI1 [OF c(1)]] k this assms(4) c(3)] acquire(1) show ?thesis by blast
  next
    case (wait v l p out)
    then have c: "code j v = Acquire l # p" "s' = out_state out" and e: "lock_acquire L M [[]] (adr l) s = Inr (Blocked out)" by simp_all
    obtain k where "locks s (adr l) = Some k" using stands_for_lock [OF assms(2) site] c(1) by metis
    then have "locks s' = locks s" using acquire_effect [OF e] c(2) by simp
    then have "stands_for adr vt a s' j'" using assms(2) wait by (simp add: stands_for_def)
    then show ?thesis by blast
  next
    case (retry v l p spl)
    then have c: "code j v = Acquire l # p" "curthread s = vt v" "v < NVEHICLES"
      and e: "lock_acquire_resume L M spl [[]] (adr l) s = Inr (Done s')" by simp_all
    obtain k where k: "locks s (adr l) = Some k" using stands_for_lock [OF assms(2) site] c(1) by metis
    have "held k = 0" "locks s' = (locks s)(adr l \<mapsto> k\<lparr>held := 1, holder := vt v\<rparr>)" using resume_effect [OF e k] c(2) by simp_all
    from stands_for_acquire [OF assms(2) c(1) site [OF disjI1 [OF c(1)]] k this assms(4) c(3)] retry(1) show ?thesis by blast
  next
    case (retry_wait v l p spl out)
    then have c: "code j v = Acquire l # p" "s' = out_state out" and e: "lock_acquire_resume L M spl [[]] (adr l) s = Inr (Blocked out)" by simp_all
    obtain k where "locks s (adr l) = Some k" using stands_for_lock [OF assms(2) site] c(1) by metis
    then have "locks s' = locks s" using resume_effect [OF e] c(2) by simp
    then have "stands_for adr vt a s' j'" using assms(2) retry_wait by (simp add: stands_for_def)
    then show ?thesis by blast
  next
    case (release v l p)
    then have c: "code j v = Release l # p" "curthread s = vt v" "v < NVEHICLES" and e: "lock_release L M (adr l) s = Inr s'" by simp_all
    obtain k where k: "locks s (adr l) = Some k" using stands_for_lock [OF assms(2) site] c(1) by metis
    have "locks s' = (if held k = 1 \<and> holder k = vt v then (locks s)(adr l \<mapsto> k\<lparr>held := 0\<rparr>) else locks s)"
      using release_effect [OF e k] c(2) by simp
    from stands_for_release [OF assms(2) c(1) site [OF disjI2 [OF c(1)]] k this assms(4,5) c(3)] release(1) show ?thesis by blast
  next
    case other
    then have "stands_for adr vt a s' j'" using assms(2) by (simp add: stands_for_def)
    then show ?thesis by blast
  qed
qed

lemma kstep_site_code:
  assumes "kstep L M adr vt (s, j, W) (s', j', W')" and "\<forall>v. site_code (code j v)"
  shows "\<forall>v. site_code (code j' v)"
proof -
  have p: "site_code p" if "code j v = i # p" for v i p
    using assms(2) [rule_format, of v] that by (auto simp: site_code_def)
  from assms(1) show ?thesis
  proof cases
    case (local v i p)
    then show ?thesis using vstep_site_code [OF _ assms(2)] by blast
  qed (use assms(2) p in auto)
qed

text \<open>
  C24. The vehicles on the kernel's locks: whatever the threads, the scheduler and the interrupts do, a run of the vehicles that
  starts with the six locks free is a run of the interleaved programs of \<open>Stoplight\<close>, in which a vehicle owns a lock exactly if
  its thread is the recorded holder. So at any time at most one vehicle is in a segment, and its thread holds the lock of the segment.
\<close>

theorem kernel_runs_junction:
  assumes "(kstep L M adr vt)\<^sup>*\<^sup>* (s0, start ch, {}) (s, j, W)"
    and "inj_on adr site_locks" and "inj_on vt {..<NVEHICLES}"
    and "\<forall>l \<in> site_locks. \<exists>k. locks s0 (adr l) = Some k \<and> held k = 0"
  shows "(\<exists>a. reaches (start ch) a \<and> stands_for adr vt a s j)
    \<and> (\<forall>x < 3. \<forall>v \<in> inside j x. inside j x = {v} \<and> (\<exists>k. locks s (adr (Seg x)) = Some k \<and> held k = 1 \<and> holder k = vt v))"
proof -
  have "(\<forall>v. site_code (code (fst (snd c)) v)) \<and> (\<exists>a. reaches (start ch) a \<and> stands_for adr vt a (fst c) (fst (snd c)))"
    if "(kstep L M adr vt)\<^sup>*\<^sup>* (s0, start ch, {}) c" for c
    using that
  proof (induction rule: rtranclp_induct)
    case base
    have "stands_for adr vt (start ch) s0 (start ch)" using assms(4) by (fastforce simp: stands_for_def start_def)
    then show ?case using start_site_code reaches_refl by auto
  next
    case (step c d)
    obtain s j W s' j' W' where cd: "c = (s, j, W)" "d = (s', j', W')" by (cases c, cases d) auto
    from step.IH cd obtain a where a: "reaches (start ch) a" "stands_for adr vt a s j" "\<forall>v. site_code (code j v)" by auto
    have k: "kstep L M adr vt (s, j, W) (s', j', W')" using step.hyps(2) cd by simp
    from kstep_simulated [OF k a(2,3) assms(2,3)] kstep_site_code [OF k a(3)] reaches_step [OF a(1)] a(1) cd
    show ?case by auto
  qed
  from this [OF assms(1)] obtain a where a: "reaches (start ch) a" "stands_for adr vt a s j" by auto
  have "inside j x = {v} \<and> (\<exists>k. locks s (adr (Seg x)) = Some k \<and> held k = 1 \<and> holder k = vt v)" if "x < 3" "v \<in> inside j x" for x v
  proof -
    have "v \<in> inside a x" "inside a x = inside j x" using a(2) that(2) by (simp_all add: stands_for_def)
    moreover have "Seg x \<in> site_locks" using that(1) by (auto simp: site_locks_def)
    ultimately show ?thesis using segments_exclusive [OF a(1)] stands_for_lock [OF a(2)] by metis
  qed
  with a show ?thesis by blast
qed

section \<open>Example\<close>

text \<open>Six free locks in the example kernel, and the vehicles' threads; the running thread is that of vehicle 0.\<close>

fun site_adr :: "ilock \<Rightarrow> ptr" where
  "site_adr (Seg n) = 0x1000 + of_nat n"
| "site_adr (Truck n) = 0x2000 + of_nat n"

definition site_thread :: "nat \<Rightarrow> ptr" where "site_thread v = 0x100 + of_nat v"

definition site_example :: "(lseq, lseq, lheap) sys" where
  "site_example = sys_example\<lparr>locks := (\<lambda>p. Some \<lparr>lock_name = 0x99c, holder = 0, held = 0\<rparr>)\<rparr>"

lemma site_adr_inj: "inj_on site_adr site_locks"
  by (auto simp: inj_on_def site_locks_def)

lemma site_thread_inj: "inj_on site_thread {..<NVEHICLES}"
proof (rule inj_onI)
  fix v w assume "v \<in> {..<NVEHICLES}" "w \<in> {..<NVEHICLES}" "site_thread v = site_thread w"
  then have "(of_nat v :: ptr) = of_nat w" "v < 2 ^ 32" "w < 2 ^ 32" by (simp_all add: site_thread_def NVEHICLES_def)
  then show "v = w" by (simp add: word_of_nat_eq_iff take_bit_nat_eq_self)
qed

lemma site_local:
  assumes "code j 0 = i # p" and "\<not> lock_call i" and "curthread s = 0x100" and "vstep 0 j = Some j'"
    and "(kstep L M adr site_thread)\<^sup>*\<^sup>* (s, j', {}) c"
  shows "(kstep L M adr site_thread)\<^sup>*\<^sup>* (s, j, {}) c"
proof -
  have "kstep L M adr site_thread (s, j, {}) (s, j', {})"
    by (rule local [of 0, OF _ _ _ assms(1,2,4)]) (simp_all add: NVEHICLES_def site_thread_def assms(3))
  from converse_rtranclp_into_rtranclp [OF this assms(5)] show ?thesis .
qed

lemma site_run:
  "\<exists>s j. (kstep list_klib sys161 site_adr site_thread)\<^sup>*\<^sup>* (site_example, start right_trucks, {}) (s, j, {}) \<and> 0 \<in> inside j 0"
proof -
  let ?R = "kstep list_klib sys161 site_adr site_thread"
  define j1 where "j1 = (start right_trucks)\<lparr>code := (code (start right_trucks))(0 := drop 2 (code (start right_trucks) 0))\<rparr>"
  define j2 where "j2 = j1\<lparr>code := (code j1)(0 := drop 3 (code (start right_trucks) 0))\<rparr>"
  define j3 where "j3 = j2\<lparr>code := (code j1)(0 := drop 4 (code (start right_trucks) 0)), reg := (reg j2)(0 := 0)\<rparr>"
  define j4 where "j4 = j3\<lparr>code := (code j1)(0 := drop 5 (code (start right_trucks) 0)), cars := (cars j3)(0 := - 1)\<rparr>"
  define j5 where "j5 = j4\<lparr>code := (code j1)(0 := drop 7 (code (start right_trucks) 0))\<rparr>"
  define j6 where "j6 = j5\<lparr>code := (code j1)(0 := drop 8 (code (start right_trucks) 0)), inside := (inside j5)(0 := {0})\<rparr>"
  note st = right_trucks_simps(4) and nst = start_simps(5)
  obtain s where s: "lock_acquire list_klib sys161 [[]] 0x1000 site_example = Inr (Done s)" "curthread s = 0x100"
    using acquire_first [of "0x1000" site_example "\<lparr>lock_name = 0x99c, holder = 0, held = 0\<rparr>" list_klib sys161 "[]"]
    by (simp add: site_example_def)
  have v: "vstep 0 (start right_trucks) = Some j1" "vstep 0 j2 = Some j3" "vstep 0 j3 = Some j4" "vstep 0 j4 = Some j5" "vstep 0 j5 = Some j6"
    by (simp_all add: vstep_def j1_def j2_def j3_def j4_def j5_def j6_def st del: nst)
  have c: "code (start right_trucks) 0 = UnlessPos 0 # tl (code (start right_trucks) 0)"
    "code j1 0 = Acquire (Seg 0) # drop 3 (code (start right_trucks) 0)"
    "code j2 0 = LoadCars 0 # drop 4 (code (start right_trucks) 0)" "code j3 0 = StoreCars 0 (- 1) # drop 5 (code (start right_trucks) 0)"
    "code j4 0 = UnlessZero 0 # drop 6 (code (start right_trucks) 0)" "code j5 0 = Enter 0 # drop 8 (code (start right_trucks) 0)"
    by (simp_all add: j1_def j2_def j3_def j4_def j5_def st del: nst)
  have "?R\<^sup>*\<^sup>* (s, j5, {}) (s, j6, {})" by (rule site_local [OF c(6) _ s(2) v(5)]) simp_all
  then have "?R\<^sup>*\<^sup>* (s, j4, {}) (s, j6, {})" by (intro site_local [OF c(5) _ s(2) v(4)]) simp_all
  then have "?R\<^sup>*\<^sup>* (s, j3, {}) (s, j6, {})" by (intro site_local [OF c(4) _ s(2) v(3)]) simp_all
  then have "?R\<^sup>*\<^sup>* (s, j2, {}) (s, j6, {})" by (intro site_local [OF c(3) _ s(2) v(2)]) simp_all
  moreover have "?R (site_example, j1, {}) (s, j2, {})"
    unfolding j2_def by (rule acquire [of 0, OF _ _ _ c(2)]) (simp_all add: NVEHICLES_def site_thread_def site_example_def s(1) [unfolded site_example_def])
  ultimately have "?R\<^sup>*\<^sup>* (site_example, j1, {}) (s, j6, {})" by (meson converse_rtranclp_into_rtranclp)
  then have "?R\<^sup>*\<^sup>* (site_example, start right_trucks, {}) (s, j6, {})"
    by (intro site_local [OF c(1) _ _ v(1)]) (simp_all add: site_example_def)
  moreover have "0 \<in> inside j6 0" by (simp add: j6_def)
  ultimately show ?thesis by blast
qed

theorem kernel_runs_junction_witness:
  "\<exists>s j k. (kstep list_klib sys161 site_adr site_thread)\<^sup>*\<^sup>* (site_example, start right_trucks, {}) (s, j, {})
     \<and> inside j 0 = {0} \<and> locks s 0x1000 = Some k \<and> held k = 1 \<and> holder k = 0x100"
proof -
  obtain s j where r: "(kstep list_klib sys161 site_adr site_thread)\<^sup>*\<^sup>* (site_example, start right_trucks, {}) (s, j, {})" "0 \<in> inside j 0"
    using site_run by blast
  have "\<forall>l \<in> site_locks. \<exists>k. locks site_example (site_adr l) = Some k \<and> held k = 0" by (simp add: site_example_def)
  from kernel_runs_junction [OF r(1) site_adr_inj site_thread_inj this] r show ?thesis
    by (fastforce simp: site_thread_def)
qed

end
