(* ===== verification/Vnode.thy ===== *)
theory Vnode
  imports Kern_Abi
begin

text \<open>
  The interfaces \<^verbatim>\<open>kern/include/vnode.h\<close> and \<^verbatim>\<open>fs.h\<close>: the macros \<open>VOP_...\<close>, which check a vnode and call the operation that its table
  holds. The tables, the check and the objects belong to the file systems, which are not in the repository; they are parameters over
  an arbitrary state. The last section shows what the argument order of \<open>VOP_SYMLINK\<close> does.
\<close>

section \<open>Objects and tables\<close>

record vnode =
  vn_refcount :: s32
  vn_opencount :: s32
  vn_countlock :: ptr
  vn_fs :: ptr
  vn_data :: ptr
  vn_ops :: ptr

definition VOP_MAGIC :: u32 where "VOP_MAGIC = 0xa2b3c4d5"

text \<open>
  An operation on a state returns an error code, or stops the kernel. Pointers to a \<open>struct uio\<close>, a \<open>struct stat\<close>, a buffer or a result
  are addresses; names are strings.
\<close>

type_synonym 's vop = "'s \<Rightarrow> (s32 \<times> 's) run"

record 's vnode_ops =
  vop_magic :: u32
  vop_open :: "ptr \<Rightarrow> s32 \<Rightarrow> 's vop"
  vop_close :: "ptr \<Rightarrow> 's vop"
  vop_reclaim :: "ptr \<Rightarrow> 's vop"
  vop_read :: "ptr \<Rightarrow> ptr \<Rightarrow> 's vop"
  vop_readlink :: "ptr \<Rightarrow> ptr \<Rightarrow> 's vop"
  vop_getdirentry :: "ptr \<Rightarrow> ptr \<Rightarrow> 's vop"
  vop_write :: "ptr \<Rightarrow> ptr \<Rightarrow> 's vop"
  vop_ioctl :: "ptr \<Rightarrow> s32 \<Rightarrow> ptr \<Rightarrow> 's vop"
  vop_stat :: "ptr \<Rightarrow> ptr \<Rightarrow> 's vop"
  vop_gettype :: "ptr \<Rightarrow> ptr \<Rightarrow> 's vop"
  vop_tryseek :: "ptr \<Rightarrow> s32 \<Rightarrow> 's vop"
  vop_fsync :: "ptr \<Rightarrow> 's vop"
  vop_mmap :: "ptr \<Rightarrow> 's vop"
  vop_truncate :: "ptr \<Rightarrow> s32 \<Rightarrow> 's vop"
  vop_namefile :: "ptr \<Rightarrow> ptr \<Rightarrow> 's vop"
  vop_creat :: "ptr \<Rightarrow> string \<Rightarrow> s32 \<Rightarrow> ptr \<Rightarrow> 's vop"
  vop_symlink :: "ptr \<Rightarrow> string \<Rightarrow> string \<Rightarrow> 's vop"   \<comment> \<open>directory, contents, name\<close>
  vop_mkdir :: "ptr \<Rightarrow> string \<Rightarrow> 's vop"
  vop_link :: "ptr \<Rightarrow> string \<Rightarrow> ptr \<Rightarrow> 's vop"
  vop_remove :: "ptr \<Rightarrow> string \<Rightarrow> 's vop"
  vop_rmdir :: "ptr \<Rightarrow> string \<Rightarrow> 's vop"
  vop_rename :: "ptr \<Rightarrow> string \<Rightarrow> ptr \<Rightarrow> string \<Rightarrow> 's vop"
  vop_lookup :: "ptr \<Rightarrow> string \<Rightarrow> ptr \<Rightarrow> 's vop"
  vop_lookparent :: "ptr \<Rightarrow> string \<Rightarrow> ptr \<Rightarrow> ptr \<Rightarrow> u32 \<Rightarrow> 's vop"

text \<open>The vnodes of a state, the constant tables, and the check.\<close>

record 's vfs =
  vnodes :: "'s \<Rightarrow> ptr \<rightharpoonup> vnode"
  vtable :: "ptr \<rightharpoonup> 's vnode_ops"
  vnode_check :: "ptr \<Rightarrow> string \<Rightarrow> 's \<Rightarrow> 's run"

section \<open>Calls\<close>

text \<open>\<open>__VOP\<close>: the check comes first, then the operation is looked up in the table of the vnode.\<close>

definition VOP_op :: "'s vfs \<Rightarrow> ptr \<Rightarrow> string \<Rightarrow> ('s vnode_ops \<Rightarrow> 's vop) \<Rightarrow> 's vop" where
  "VOP_op F vn opname call s =
     bnd (vnode_check F vn opname s) (\<lambda>s1.
     deref (vnodes F s1) vn ''vnode'' (\<lambda>v.
     deref (vtable F) (vn_ops v) ''vn_ops'' (\<lambda>ops. call ops s1)))"

definition VOP_OPEN :: "'s vfs \<Rightarrow> ptr \<Rightarrow> s32 \<Rightarrow> 's vop" where
  "VOP_OPEN F vn flags = VOP_op F vn ''open'' (\<lambda>ops. vop_open ops vn flags)"

definition VOP_CLOSE :: "'s vfs \<Rightarrow> ptr \<Rightarrow> 's vop" where
  "VOP_CLOSE F vn = VOP_op F vn ''close'' (\<lambda>ops. vop_close ops vn)"

definition VOP_RECLAIM :: "'s vfs \<Rightarrow> ptr \<Rightarrow> 's vop" where
  "VOP_RECLAIM F vn = VOP_op F vn ''reclaim'' (\<lambda>ops. vop_reclaim ops vn)"

definition VOP_READ :: "'s vfs \<Rightarrow> ptr \<Rightarrow> ptr \<Rightarrow> 's vop" where
  "VOP_READ F vn uio = VOP_op F vn ''read'' (\<lambda>ops. vop_read ops vn uio)"

definition VOP_READLINK :: "'s vfs \<Rightarrow> ptr \<Rightarrow> ptr \<Rightarrow> 's vop" where
  "VOP_READLINK F vn uio = VOP_op F vn ''readlink'' (\<lambda>ops. vop_readlink ops vn uio)"

definition VOP_GETDIRENTRY :: "'s vfs \<Rightarrow> ptr \<Rightarrow> ptr \<Rightarrow> 's vop" where
  "VOP_GETDIRENTRY F vn uio = VOP_op F vn ''getdirentry'' (\<lambda>ops. vop_getdirentry ops vn uio)"

definition VOP_WRITE :: "'s vfs \<Rightarrow> ptr \<Rightarrow> ptr \<Rightarrow> 's vop" where
  "VOP_WRITE F vn uio = VOP_op F vn ''write'' (\<lambda>ops. vop_write ops vn uio)"

definition VOP_IOCTL :: "'s vfs \<Rightarrow> ptr \<Rightarrow> s32 \<Rightarrow> ptr \<Rightarrow> 's vop" where
  "VOP_IOCTL F vn cmd buf = VOP_op F vn ''ioctl'' (\<lambda>ops. vop_ioctl ops vn cmd buf)"

definition VOP_STAT :: "'s vfs \<Rightarrow> ptr \<Rightarrow> ptr \<Rightarrow> 's vop" where
  "VOP_STAT F vn p = VOP_op F vn ''stat'' (\<lambda>ops. vop_stat ops vn p)"

definition VOP_GETTYPE :: "'s vfs \<Rightarrow> ptr \<Rightarrow> ptr \<Rightarrow> 's vop" where
  "VOP_GETTYPE F vn result = VOP_op F vn ''gettype'' (\<lambda>ops. vop_gettype ops vn result)"

definition VOP_TRYSEEK :: "'s vfs \<Rightarrow> ptr \<Rightarrow> s32 \<Rightarrow> 's vop" where
  "VOP_TRYSEEK F vn pos = VOP_op F vn ''tryseek'' (\<lambda>ops. vop_tryseek ops vn pos)"

definition VOP_FSYNC :: "'s vfs \<Rightarrow> ptr \<Rightarrow> 's vop" where
  "VOP_FSYNC F vn = VOP_op F vn ''fsync'' (\<lambda>ops. vop_fsync ops vn)"

definition VOP_MMAP :: "'s vfs \<Rightarrow> ptr \<Rightarrow> 's vop" where
  "VOP_MMAP F vn = VOP_op F vn ''mmap'' (\<lambda>ops. vop_mmap ops vn)"

definition VOP_TRUNCATE :: "'s vfs \<Rightarrow> ptr \<Rightarrow> s32 \<Rightarrow> 's vop" where
  "VOP_TRUNCATE F vn pos = VOP_op F vn ''truncate'' (\<lambda>ops. vop_truncate ops vn pos)"

definition VOP_NAMEFILE :: "'s vfs \<Rightarrow> ptr \<Rightarrow> ptr \<Rightarrow> 's vop" where
  "VOP_NAMEFILE F vn uio = VOP_op F vn ''namefile'' (\<lambda>ops. vop_namefile ops vn uio)"

definition VOP_CREAT :: "'s vfs \<Rightarrow> ptr \<Rightarrow> string \<Rightarrow> s32 \<Rightarrow> ptr \<Rightarrow> 's vop" where
  "VOP_CREAT F vn name excl res = VOP_op F vn ''creat'' (\<lambda>ops. vop_creat ops vn name excl res)"

definition VOP_SYMLINK :: "'s vfs \<Rightarrow> ptr \<Rightarrow> string \<Rightarrow> string \<Rightarrow> 's vop" where
  "VOP_SYMLINK F vn name content = VOP_op F vn ''symlink'' (\<lambda>ops. vop_symlink ops vn name content)"

definition VOP_MKDIR :: "'s vfs \<Rightarrow> ptr \<Rightarrow> string \<Rightarrow> 's vop" where
  "VOP_MKDIR F vn name = VOP_op F vn ''mkdir'' (\<lambda>ops. vop_mkdir ops vn name)"

definition VOP_LINK :: "'s vfs \<Rightarrow> ptr \<Rightarrow> string \<Rightarrow> ptr \<Rightarrow> 's vop" where
  "VOP_LINK F vn name vn2 = VOP_op F vn ''link'' (\<lambda>ops. vop_link ops vn name vn2)"

definition VOP_REMOVE :: "'s vfs \<Rightarrow> ptr \<Rightarrow> string \<Rightarrow> 's vop" where
  "VOP_REMOVE F vn name = VOP_op F vn ''remove'' (\<lambda>ops. vop_remove ops vn name)"

definition VOP_RMDIR :: "'s vfs \<Rightarrow> ptr \<Rightarrow> string \<Rightarrow> 's vop" where
  "VOP_RMDIR F vn name = VOP_op F vn ''rmdir'' (\<lambda>ops. vop_rmdir ops vn name)"

definition VOP_RENAME :: "'s vfs \<Rightarrow> ptr \<Rightarrow> string \<Rightarrow> ptr \<Rightarrow> string \<Rightarrow> 's vop" where
  "VOP_RENAME F vn name1 vn2 name2 = VOP_op F vn ''rename'' (\<lambda>ops. vop_rename ops vn name1 vn2 name2)"

definition VOP_LOOKUP :: "'s vfs \<Rightarrow> ptr \<Rightarrow> string \<Rightarrow> ptr \<Rightarrow> 's vop" where
  "VOP_LOOKUP F vn name res = VOP_op F vn ''lookup'' (\<lambda>ops. vop_lookup ops vn name res)"

definition VOP_LOOKPARENT :: "'s vfs \<Rightarrow> ptr \<Rightarrow> string \<Rightarrow> ptr \<Rightarrow> ptr \<Rightarrow> u32 \<Rightarrow> 's vop" where
  "VOP_LOOKPARENT F vn nm res bf ln = VOP_op F vn ''lookparent'' (\<lambda>ops. vop_lookparent ops vn nm res bf ln)"

section \<open>File systems (fs.h)\<close>

text \<open>A file system carries its operations itself; the object is looked up in the state by its address.\<close>

record 's fs =
  fs_sync :: "ptr \<Rightarrow> 's vop"
  fs_getvolname :: "ptr \<Rightarrow> 's \<Rightarrow> (ptr \<times> 's) run"
  fs_getroot :: "ptr \<Rightarrow> 's \<Rightarrow> (ptr \<times> 's) run"
  fs_unmount :: "ptr \<Rightarrow> 's vop"
  fs_data :: ptr

definition FSOP_SYNC :: "('s \<Rightarrow> ptr \<rightharpoonup> 's fs) \<Rightarrow> ptr \<Rightarrow> 's vop" where
  "FSOP_SYNC fss fs s = deref (fss s) fs ''fs'' (\<lambda>f. fs_sync f fs s)"

definition FSOP_GETVOLNAME :: "('s \<Rightarrow> ptr \<rightharpoonup> 's fs) \<Rightarrow> ptr \<Rightarrow> 's \<Rightarrow> (ptr \<times> 's) run" where
  "FSOP_GETVOLNAME fss fs s = deref (fss s) fs ''fs'' (\<lambda>f. fs_getvolname f fs s)"

definition FSOP_GETROOT :: "('s \<Rightarrow> ptr \<rightharpoonup> 's fs) \<Rightarrow> ptr \<Rightarrow> 's \<Rightarrow> (ptr \<times> 's) run" where
  "FSOP_GETROOT fss fs s = deref (fss s) fs ''fs'' (\<lambda>f. fs_getroot f fs s)"

definition FSOP_UNMOUNT :: "('s \<Rightarrow> ptr \<rightharpoonup> 's fs) \<Rightarrow> ptr \<Rightarrow> 's vop" where
  "FSOP_UNMOUNT fss fs s = deref (fss s) fs ''fs'' (\<lambda>f. fs_unmount f fs s)"

section \<open>Symbolic links\<close>

text \<open>
  What \<^verbatim>\<open>vnode.h\<close> promises of \<open>vop_symlink(dir, contents, name)\<close>: it creates a link called \<open>name\<close>, with the given contents. \<open>links\<close> reads
  the symbolic links of a directory off the state.
\<close>

definition symlink_law :: "('s \<Rightarrow> ptr \<Rightarrow> string \<rightharpoonup> string) \<Rightarrow> 's vnode_ops \<Rightarrow> bool" where
  "symlink_law links ops \<longleftrightarrow> (\<forall>dir contents name s. links s dir name = None \<longrightarrow>
     (\<exists>s'. vop_symlink ops dir contents name s = Inr (0, s') \<and> links s' dir = (links s dir)(name \<mapsto> contents)))"

text \<open>
  \<open>VOP_SYMLINK(vn, name, content)\<close> hands its arguments on in the order in which it has them, while the operation expects the contents
  first. So on every file system that implements the operation as documented the macro creates a link called \<open>content\<close> that
  points to \<open>name\<close>, and no link called \<open>name\<close>.
\<close>

theorem VOP_SYMLINK_swaps:
  assumes "vnode_check F vn ''symlink'' s = Inr s" and "vnodes F s vn = Some v" and "vtable F (vn_ops v) = Some ops"
    and "symlink_law links ops" and "links s vn content = None" and "name \<noteq> content"
  shows "\<exists>s'. VOP_SYMLINK F vn name content s = Inr (0, s') \<and> links s' vn content = Some name \<and> links s' vn name = links s vn name"
proof -
  obtain s' where "vop_symlink ops vn name content s = Inr (0, s')" "links s' vn = (links s vn)(content \<mapsto> name)"
    using assms(4,5) unfolding symlink_law_def by blast
  with assms show ?thesis by (simp add: VOP_SYMLINK_def VOP_op_def)
qed

text \<open>An example: one directory, whose links are the state.\<close>

definition unimplemented :: "'s vop" where "unimplemented s = Inr (word_of_int EUNIMP, s)"

definition link_ops :: "(string \<rightharpoonup> string) vnode_ops" where
  "link_ops =
    \<lparr>vop_magic = VOP_MAGIC, vop_open = (\<lambda>_ _ s. Inr (0, s)), vop_close = (\<lambda>_ s. Inr (0, s)), vop_reclaim = (\<lambda>_ s. Inr (0, s)),
     vop_read = (\<lambda>_ _. unimplemented), vop_readlink = (\<lambda>_ _. unimplemented), vop_getdirentry = (\<lambda>_ _. unimplemented),
     vop_write = (\<lambda>_ _. unimplemented), vop_ioctl = (\<lambda>_ _ _. unimplemented), vop_stat = (\<lambda>_ _. unimplemented),
     vop_gettype = (\<lambda>_ _. unimplemented), vop_tryseek = (\<lambda>_ _. unimplemented), vop_fsync = (\<lambda>_. unimplemented),
     vop_mmap = (\<lambda>_. unimplemented), vop_truncate = (\<lambda>_ _. unimplemented), vop_namefile = (\<lambda>_ _. unimplemented),
     vop_creat = (\<lambda>_ _ _ _. unimplemented),
     vop_symlink = (\<lambda>_ contents name s. if s name = None then Inr (0, s(name \<mapsto> contents)) else Inr (word_of_int EEXIST, s)),
     vop_mkdir = (\<lambda>_ _. unimplemented), vop_link = (\<lambda>_ _ _. unimplemented), vop_remove = (\<lambda>_ _. unimplemented),
     vop_rmdir = (\<lambda>_ _. unimplemented), vop_rename = (\<lambda>_ _ _ _. unimplemented), vop_lookup = (\<lambda>_ _ _. unimplemented),
     vop_lookparent = (\<lambda>_ _ _ _ _. unimplemented)\<rparr>"

definition link_vfs :: "(string \<rightharpoonup> string) vfs" where
  "link_vfs = \<lparr>
     vnodes = (\<lambda>s. [0x80 \<mapsto> \<lparr>vn_refcount = 1, vn_opencount = 0, vn_countlock = 0, vn_fs = 0, vn_data = 0, vn_ops = 0x40\<rparr>]),
     vtable = [0x40 \<mapsto> link_ops], vnode_check = (\<lambda>vn opname s. if vn = 0x80 then Inr s else Inl (Panic opname))\<rparr>"

theorem VOP_SYMLINK_swaps_witness:
  "\<exists>s'. VOP_SYMLINK link_vfs 0x80 ''name'' ''target'' Map.empty = Inr (0, s') \<and> s' ''target'' = Some ''name'' \<and> s' ''name'' = None"
proof -
  have law: "symlink_law (\<lambda>s _. s) link_ops" by (simp add: symlink_law_def link_ops_def)
  have "\<exists>s'. VOP_SYMLINK link_vfs 0x80 ''name'' ''target'' Map.empty = Inr (0, s') \<and> s' ''target'' = Some ''name''
      \<and> s' ''name'' = Map.empty ''name''"
    by (rule VOP_SYMLINK_swaps [OF _ _ _ law, where v = "\<lparr>vn_refcount = 1, vn_opencount = 0, vn_countlock = 0, vn_fs = 0, vn_data = 0, vn_ops = 0x40\<rparr>"]) (simp_all add: link_vfs_def)
  then show ?thesis by simp
qed

end
