(* ===== verification/Spec2Isabelle.thy ===== *)
theory Spec2Isabelle
  imports Menu Print_Queue Bin_Programs Ls_Spec Disk_Layout Stoplight_Kernel Vnode
begin

text \<open>
  Verification of OS/161 in \<^verbatim>\<open>src/Projects/OS161\<close>: an instructional operating system kernel (\<^verbatim>\<open>kern\<close>) for a simulated MIPS machine,
  written in C with a few assembly files, and its user programs (\<^verbatim>\<open>bin\<close>).

  \<^bold>\<open>The program.\<close> At power-on \<^verbatim>\<open>mips/start.S\<close> builds the first stack and calls \<open>kmain\<close>, which boots the subsystems and
  runs the menu. Threads (\<^verbatim>\<open>thread/thread.c\<close>) live in a run queue (\<^verbatim>\<open>thread/scheduler.c\<close>), an array of sleepers and one of
  zombies; switching saves registers on the kernel stack (\<^verbatim>\<open>mips/pcb.c\<close>, \<^verbatim>\<open>mips/switch.S\<close>). All of this runs with
  interrupts off, by the level of \<^verbatim>\<open>mips/spl.c\<close>. Semaphores and locks (\<^verbatim>\<open>thread/synch.c\<close>) sleep and wake through the
  thread system. User programs enter the kernel through \<^verbatim>\<open>mips/exception.S\<close> and \<open>mips_trap\<close>, which calls the interrupt
  dispatcher, the system call dispatcher or the page fault handler of \<^verbatim>\<open>mips/dumbvm.c\<close>, whose memory comes from \<^verbatim>\<open>mips/ram.c\<close>.
  The user programs \<open>cat\<close>, \<open>cp\<close>, \<open>ls\<close>, \<open>ln\<close>, \<open>mv\<close>, \<open>rm\<close> and others are clients of the system calls.

  \<^bold>\<open>State.\<close> One extensible record follows the layers: processor and level (\<open>cpu\<close>), memory bounds (\<open>ram\<close>), heap, translation
  buffer, address spaces and memory (\<open>vm\<close>), run queue (\<open>sched\<close>), registers (\<open>md\<close>), threads (\<open>kern\<close>), semaphores and locks
  (\<open>sys\<close>), bus and console (\<open>io\<close>). C objects reached through pointers are maps from addresses; a dereference of a pointer to
  nothing, a failed assertion and a panic end a run with a value of type \<open>stop\<close>. An operation that gives up the processor
  returns an \<open>outcome\<close> at the point where another thread continues; the rest of it is a separate \<open>_resume\<close> definition.

  \<^bold>\<open>Theories.\<close>
  \<^item> \<open>OS_Prelude\<close>: words, runs, error numbers (\<^verbatim>\<open>kern/errno.h\<close>), the constants of the machine headers as a parameter record, shared
    lemmas. \<open>Klib\<close>: the kernel library (heap, queue, array), whose implementation is not in the repository, as a parameter record
    with its documented laws, and a list-based instance that satisfies them.
  \<^item> \<open>Spl\<close>, \<open>Ram\<close>, \<open>Dumbvm\<close>, \<open>Vm_Fault\<close>: interrupt levels; page allocation (granted regions are disjoint; the wrap-around of the size);
    address spaces (regions cover their bytes, copies are exact); the fault handler against the page table of an address space.
  \<^item> \<open>Scheduler\<close>, \<open>Pcb\<close>, \<open>Thread\<close>, \<open>Thread_Inv\<close>, \<open>Thread_Spec\<close>, \<open>Thread_Fork\<close>: the definitions, the invariant \<open>thread_inv\<close> (every live
    thread is in exactly one place, its memory blocks are its own, the count is right), the abstract system \<open>tsys\<close> of four
    lists, and the refinement of yield, sleep, wake-up, exit and fork to operations on those lists.
  \<^item> \<open>Synch\<close>, \<open>Synch_Spec\<close>: semaphores, locks, the clock; no lost wake-up, mutual exclusion over arbitrary interleavings.
  \<^item> \<open>Exception\<close>, \<open>Tlb\<close>, \<open>Boot\<close>: assembly as instruction lists and the frame round trip; the start-up of the translation
    buffer; entry, the bus, boot, shutdown and \<open>sys_reboot\<close>, whose effect is \<open>went_down\<close>.
  \<^item> \<open>Trap\<close>, \<open>Trap_Spec\<close>: traps, interrupts, system calls; the calling convention end to end, transparent page faults,
    fatal faults. A call or interrupt that gives up the processor ends in \<open>Away\<close>; the rest of a trap after the thread is switched to again is not modelled.
  \<^item> \<open>Stoplight\<close>: the synchronisation problems of \<^verbatim>\<open>asst1\<close>: segments are exclusive in every interleaving, and two ways in which
    vehicles block each other forever. \<open>Stoplight_Console\<close>: the lines that the vehicles print; the console alone shows that each vehicle follows its script
    (but not how it turns) and that segments are exclusive; trucks never block when from one route nobody turns left.
    \<open>Stoplight_Kernel\<close>: the vehicles as kernel threads on the locks of \<open>Synch\<close> refine the interleaved programs. \<open>Menu\<close>: the command line of the kernel. \<open>Print_Queue\<close>: the debugging walk over the run queue.
  \<^item> \<open>Kern_Abi\<close>: the headers \<^verbatim>\<open>kern/include/kern\<close> that kernel and programs share (error numbers and messages, flags, file status).
    \<open>Disk_Layout\<close>: the on-disk structures of SFS and the executable headers, their bytes by the layout rules of C, and their sizes.
    \<open>Vnode\<close>: the macros of \<^verbatim>\<open>vnode.h\<close> and \<^verbatim>\<open>fs.h\<close>, which call the
    operations of a file system, and the swapped arguments of \<open>VOP_SYMLINK\<close>.
  \<^item> \<open>Userland\<close>: how a user program runs, the system calls as a parameter record with their documented laws over a view of the file system, and
    an in-memory file system that satisfies them. \<open>Cat_Cp\<close>: \<open>cat\<close> prints the concatenation of its inputs, \<open>cp\<close> copies exactly, whatever the
    sizes of the pieces the system reads and writes. \<open>Bin_Programs\<close>: the small programs. \<open>Ls\<close>, \<open>Ls_Spec\<close>: \<open>ls\<close> terminates and prints the
    listing of a reference definition on file trees. The last section of this theory runs their writing loop on the kernel's own
    \<open>write\<close>, whose uninitialised error variable is the parameter \<open>junk\<close>.

  \<^bold>\<open>Interfaces.\<close> The locales \<open>spl_bracket\<close> (critical sections), \<open>page_source\<close> (page allocators), \<open>run_queue\<close> (the scheduler),
  \<open>wakeup_queue\<close> (sleep and wake-up as the synchronisation code uses them) and \<open>byte_copy\<close> (reading and writing as the copying loops use
  them) state what one component relies on of another; each is interpreted on the operations of the model.

  \<^bold>\<open>Bounds and fuel.\<close> \<open>killall_loop\<close> takes a bound on its iterations; any bound above the queue's length is enough. \<open>wakeup_loop\<close> gets one
  more iteration than there are sleepers, and \<open>TLB_Reset\<close> 128 iterations; both are proved to be enough. The scheduler's idle loop and the
  waiting loops of semaphores and locks run over a list of interrupts that the environment delivers. C integers are 32-bit words
  where the code computes with them. The loops of the user programs and of \<open>print_run_queue\<close> are \<open>partial_function (option)\<close>, where \<open>None\<close> is running
  forever; the properties show that they return.

  \<^bold>\<open>Not modelled.\<close> Console output of the kernel (except what \<open>write\<close> prints, the columns of a menu, the lines of \<open>print_run_queue\<close> and the messages of the vehicles); the
  libraries (so that a second \<open>kfree\<close> of the same block, as in \<open>md_forkentry\<close>, is an ordinary call), device drivers, VFS and system call implementations that are not in the repository (parameters with named hypotheses); the headers
  that only declare (\<^verbatim>\<open>include/vfs.h\<close>, \<^verbatim>\<open>dev.h\<close>, \<^verbatim>\<open>uio.h\<close>, ...) and the constants of \<^verbatim>\<open>elf.h\<close>, which no code here uses;
  \<^verbatim>\<open>hello.c\<close>, which only prints; the loop of \<^verbatim>\<open>start.S\<close> after \<open>kmain\<close>, which does not return; and the other projects of the repository, in other languages.
\<close>

section \<open>Shutting down from the menu\<close>

lemma tokens_skip: "c \<in> set seps \<Longrightarrow> tokens seps (c # s) = tokens seps s"
  by (subst (1 2) tokens.simps) simp

lemma tokens_quit: "tokens '';'' (''q;'' @ rest) = ''q'' # tokens '';'' rest"
proof -
  have "tokens '';'' (''q;'' @ rest) = ''q'' # tokens '';'' ('';'' @ rest)"
    by (subst tokens.simps) simp
  then show ?thesis by (simp add: tokens_skip)
qed

lemma map_of_quit: "map_of (cmdtable L M evs D fuel Op E) ''q'' = Some (cmd_quit L M evs D fuel E)"
  by (simp add: cmdtable_def)

lemma tokens_quit_alone: "tokens '';'' ''q'' = [''q'']"
  by (subst tokens.simps) (simp add: tokens.simps)



section \<open>User programs on the write system call of this kernel\<close>

text \<open>
  The system call stub of a user program, as the comments of \<open>mips_syscall\<close> describe it: the result is \<open>-1\<close> if \<open>a3\<close> signals an error, and \<open>v0\<close>
  otherwise. \<open>junk\<close> is what the slot of the variable \<open>err\<close> happens to hold, which the kernel does not set on this path.
\<close>

definition kernel_write ::
  "('q, 'a, 'h) klib \<Rightarrow> machine \<Rightarrow> ('q, 'a, 'h, 'z) io_scheme devices \<Rightarrow> nat \<Rightarrow> ('q, 'a, 'h, 'z) io_scheme userprog \<Rightarrow> s32 \<Rightarrow> trapframe
     \<Rightarrow> string \<Rightarrow> ('q, 'a, 'h, 'z) io_scheme \<Rightarrow> int \<times> ('q, 'a, 'h, 'z) io_scheme" where
  "kernel_write L M D fuel X junk tf buf s =
     (case mips_syscall L M D fuel X junk (tf\<lparr>tf_v0 := word_of_int SYS_write, tf_a2 := of_nat (length buf)\<rparr>) s of
        Inr (Back tf' s') \<Rightarrow> (if tf_a3 tf' \<noteq> 0 then - 1 else sint (tf_v0 tf'), s')
      | _ \<Rightarrow> (- 1, s))"

text \<open>The memory of the program holds \<open>bs\<close> at the address \<open>base\<close>, whatever was printed so far.\<close>

definition user_holds :: "('q, 'a, 'h, 'z) io_scheme userprog \<Rightarrow> u32 \<Rightarrow> byte list \<Rightarrow> bool" where
  "user_holds X base bs \<longleftrightarrow> (\<forall>i s. i < length bs \<longrightarrow> user_byte X (base + of_nat i) s = Some (bs ! i))"

lemma write_loop_prints:
  "\<forall>i s. i \<in> set is \<longrightarrow> user_byte X (base + of_nat i) s = Some (f i)
    \<Longrightarrow> write_loop X base is s = Inr (s\<lparr>console := console s @ map f is\<rparr>)"
  by (induction "is" arbitrary: s) simp_all

lemma kernel_write_eq:
  assumes "user_holds X (tf_a1 tf) (map of_char buf)" and "length buf < 2 ^ 32" and "curspl s = 0"
  shows "kernel_write L M D fuel X junk tf buf s = (if junk = 0 then 0 else - 1, s\<lparr>console := console s @ map of_char buf\<rparr>)"
proof -
  let ?tf = "tf\<lparr>tf_v0 := word_of_int SYS_write, tf_a2 := of_nat (length buf)\<rparr>"
  define bs :: "byte list" where "bs = map of_char buf"
  have n: "unat (tf_a2 ?tf) = length bs" using assms(2) by (simp add: bs_def unat_of_nat)
  have m: "map ((!) bs) [0..<length bs] = bs" by (rule map_nth)
  have "write_loop X (tf_a1 ?tf) [0..<unat (tf_a2 ?tf)] s = Inr (s\<lparr>console := console s @ map ((!) bs) [0..<length bs]\<rparr>)"
    unfolding n by (rule write_loop_prints) (use assms(1) in \<open>simp add: user_holds_def bs_def [symmetric]\<close>)
  moreover have "sint (tf_v0 ?tf) = SYS_write" by (simp add: SYS_write_def)
  ultimately have "syscall_switch L M D fuel X junk ?tf s = Inr (Back (junk, 0) (s\<lparr>console := console s @ bs\<rparr>))"
    unfolding m by (simp add: syscall_switch_def callno_defs)
  then show ?thesis using assms(3) by (simp add: kernel_write_def mips_syscall_def syscall_result_def bs_def)
qed

text \<open>
  C21. On this kernel the loop with which \<open>cat\<close> and \<open>cp\<close> write a block never succeeds. The \<open>write\<close> call prints all the bytes of the buffer, but never reports that it
  wrote them: since the call sets neither the number of bytes nor its error variable, the result is 0 when the uninitialised variable happens to hold 0 and \<open>-1\<close> otherwise.
  The loop therefore either offers the same bytes again forever, or takes the call for a failure after everything was printed; it
  never comes to its normal end.
\<close>

theorem write_block_never_done:
  assumes "user_holds X (tf_a1 tf) (map of_char buf)" and "0 < length buf" and "length buf < 2 ^ 32" and "curspl s = 0"
  shows "kernel_write L M D fuel X junk tf buf s = (if junk = 0 then 0 else - 1, s\<lparr>console := console s @ map of_char buf\<rparr>)
    \<and> put_all (kernel_write L M D fuel X junk tf) fail buf 0 s
        = (if junk = 0 then None else fail (s\<lparr>console := console s @ map of_char buf\<rparr>))"
proof (intro conjI)
  show "kernel_write L M D fuel X junk tf buf s = (if junk = 0 then 0 else - 1, s\<lparr>console := console s @ map of_char buf\<rparr>)"
    by (rule kernel_write_eq [OF assms(1,3,4)])
  have "put_all (kernel_write L M D fuel X 0 tf) fail buf 0 s = None"
    by (rule put_all_repeats [where I = "\<lambda>s. curspl s = 0"]) (use assms(2,4) kernel_write_eq [OF assms(1,3)] in simp_all)
  moreover have "put_all (kernel_write L M D fuel X junk tf) fail buf 0 s = fail (s\<lparr>console := console s @ map of_char buf\<rparr>)"
    if "junk \<noteq> 0"
    using kernel_write_eq [OF assms(1,3,4), of L M D fuel junk] assms(2) that by (subst put_all.simps) simp
  ultimately show "put_all (kernel_write L M D fuel X junk tf) fail buf 0 s
      = (if junk = 0 then None else fail (s\<lparr>console := console s @ map of_char buf\<rparr>))"
    by simp
qed

theorem write_block_never_done_witness:
  "put_all (kernel_write list_klib sys161 quiet_devices 1 no_userprog 0 (read_tf (mem (trap_entry sys161 False user_example)) 16))
     (\<lambda>s. Some (Exit 1, s)) ''AA'' 0 trap_example = None
   \<and> put_all (kernel_write list_klib sys161 quiet_devices 1 no_userprog 7 (read_tf (mem (trap_entry sys161 False user_example)) 16))
     (\<lambda>s. Some (Exit 1, s)) ''AA'' 0 trap_example = Some (Exit 1, trap_example\<lparr>console := console trap_example @ [65, 65]\<rparr>)"
proof -
  have "user_holds no_userprog (tf_a1 (read_tf (mem (trap_entry sys161 False user_example)) 16)) (map of_char ''AA'')"
    by (simp add: user_holds_def no_userprog_def less_Suc_eq)
  from write_block_never_done [OF this, of trap_example list_klib sys161 quiet_devices 1 0 "\<lambda>s. Some (Exit 1, s)"]
    write_block_never_done [OF this, of trap_example list_klib sys161 quiet_devices 1 7 "\<lambda>s. Some (Exit 1, s)"]
  show ?thesis by simp
qed

end
